(* ===== verification/Prelude.thy ===== *)
theory Prelude
  imports Main "HOL-Library.Word" "HOL-Library.Sublist"
begin

text \<open>
  Shared vocabulary of the development: the C integer types at their width, the C strings as
  character lists without their terminator, 64-bit time stamps as integers with the range
  written out, and the lemmas on lists, options and words that several components use.
\<close>

unbundle bit_operations_syntax

section \<open>Collections of facts\<close>

named_theorems ascii_simps \<open>character classification and C string helpers\<close>
named_theorems policy_defs \<open>definitions of the small decision procedures\<close>

section \<open>Types\<close>

type_synonym u8 = "8 word"
type_synonym u16 = "16 word"
type_synonym u32 = "32 word"
type_synonym u64 = "64 word"

text \<open>
  A \<open>const char *\<close> is the list of its characters before the terminating NUL; a pointer the
  code compares with NULL is an option of one. A buffer given with its length is the list of
  its bytes and may contain \<open>CHR 0x00\<close>.
\<close>

type_synonym cstring = string

text \<open>A response buffer passed as \<open>(const char *, size_t)\<close>.\<close>

type_synonym buffer = "string option"

abbreviation NUL :: char where "NUL \<equiv> CHR 0x00"
abbreviation LF :: char where "LF \<equiv> CHR 0x0A"
abbreviation CR :: char where "CR \<equiv> CHR 0x0D"
abbreviation TAB :: char where "TAB \<equiv> CHR 0x09"
abbreviation QUOTE :: char where "QUOTE \<equiv> CHR 0x22"

text \<open>The limits of \<open>stdint.h\<close> the sources use.\<close>

definition INT64_MAX :: int where "INT64_MAX = 2 ^ 63 - 1"
definition INT64_MIN :: int where "INT64_MIN = - (2 ^ 63)"
definition UINT32_MAX :: u32 where "UINT32_MAX = 4294967295"

definition int64 :: "int \<Rightarrow> bool" where
  "int64 x \<longleftrightarrow> INT64_MIN \<le> x \<and> x \<le> INT64_MAX"

section \<open>Lists\<close>

lemma last_conv_rev: "xs \<noteq> [] \<Longrightarrow> last xs = hd (rev xs)"
  by (simp add: hd_rev)

lemma rev_dropWhile_rev_last:
  "rev (dropWhile P (rev xs)) \<noteq> [] \<Longrightarrow> \<not> P (last (rev (dropWhile P (rev xs))))"
  using hd_dropWhile [of P "rev xs"] by (simp add: last_rev)

lemma set_rev_dropWhile_rev: "set (rev (dropWhile P (rev xs))) \<subseteq> set xs"
  using set_dropWhileD by fastforce

lemma dropWhile_id: "xs = [] \<or> \<not> P (hd xs) \<Longrightarrow> dropWhile P xs = xs"
  by (cases xs) auto

lemma list_all_nth: "list_all P xs \<longleftrightarrow> (\<forall>i < length xs. P (xs ! i))"
  by (simp add: list_all_length)

text \<open>A trailing run: how many elements at the end of a list satisfy a predicate.\<close>

definition trailing :: "('a \<Rightarrow> bool) \<Rightarrow> 'a list \<Rightarrow> nat" where
  "trailing P xs = length (takeWhile P (rev xs))"

lemma trailing_Nil [simp]: "trailing P [] = 0"
  by (simp add: trailing_def)

lemma trailing_snoc [simp]:
  "trailing P (xs @ [x]) = (if P x then Suc (trailing P xs) else 0)"
  by (simp add: trailing_def)

section \<open>Words\<close>

lemma unat_le_max32: "unat (x :: u32) \<le> 4294967295"
  using unsigned_less [of x, where 'a = nat] by simp

lemma word_le_503: "(p :: u32) \<le> 503 \<Longrightarrow> unat p \<le> 503"
  by (simp add: word_le_nat_alt)

lemma unat_ucast_16: "unat (x :: u32) < 65536 \<Longrightarrow> unat (ucast x :: u16) = unat x"
  by (simp add: unsigned_ucast_eq take_bit_nat_eq_self)

lemma unat_add_no_overflow:
  "unat (x :: 'a::len word) + unat y < 2 ^ LENGTH('a) \<Longrightarrow> unat (x + y) = unat x + unat y"
  by (simp add: unat_word_ariths)

lemma unat_mult_no_overflow:
  "unat (x :: 'a::len word) * unat y < 2 ^ LENGTH('a) \<Longrightarrow> unat (x * y) = unat x * unat y"
  by (simp add: unat_word_ariths)

lemma unat_sub_no_underflow:
  "unat (y :: 'a::len word) \<le> unat x \<Longrightarrow> unat (x - y) = unat x - unat y"
  by (simp add: word_le_nat_alt [symmetric] unat_sub)

lemma unat_plus1_less: "(x :: 'a::len word) < y \<Longrightarrow> unat (x + 1) = Suc (unat x)"
proof -
  assume "x < y"
  then have "Suc (unat x) \<le> unat y" by (simp add: word_less_nat_alt)
  also have "unat y < 2 ^ LENGTH('a)" by (rule unsigned_less)
  finally have "Suc (unat x) < 2 ^ LENGTH('a)" .
  then show ?thesis by (simp add: unat_word_ariths)
qed


lemma unat_of_nat_id: "n < 2 ^ LENGTH('a::len) \<Longrightarrow> unat (of_nat n :: 'a word) = n"
  by (simp add: unat_of_nat take_bit_nat_eq_self)

lemma of_nat_word_inject:
  assumes "m < 2 ^ LENGTH('a::len)" and "n < 2 ^ LENGTH('a)"
  shows "(of_nat m :: 'a word) = of_nat n \<longleftrightarrow> m = n"
  using assms by (metis unat_of_nat_id)


lemma unat_ucast_up32: "unat (ucast (x :: u16) :: u32) = unat x"
  by (simp add: unsigned_ucast_eq take_bit_nat_eq_self less_trans [OF unsigned_less])

lemma ucast_ucast_16: "ucast (ucast (x :: u16) :: u32) = x"
  using unsigned_less [of x, where 'a = nat]
  by (simp add: word_unat_eq_iff unat_ucast_up32 unat_ucast_16)

lemma word_zero_iff_int: "(x :: 'a::len word) = 0 \<longleftrightarrow> int (unat x) = 0"
  by (simp add: uint_0_iff)

lemma unat_of_int_id:
  assumes "0 \<le> k" and "k < 2 ^ LENGTH('a)"
  shows "int (unat (of_int k :: 'a::len word)) = k"
  using assms by (simp add: uint_word_of_int)


lemma ucast_of_nat_small: "a < 256 \<Longrightarrow> ucast (of_nat a :: u32) = (of_nat a :: u8)"
  by (simp add: word_unat_eq_iff unsigned_ucast_eq unat_of_nat_id take_bit_nat_eq_self)

section \<open>Runs\<close>

text \<open>All states a script of steps passes through, so that one evaluation shows several of them.\<close>

fun runs :: "('i \<Rightarrow> 's \<Rightarrow> 's) \<Rightarrow> 'i list \<Rightarrow> 's \<Rightarrow> 's list" where
  "runs step [] s = [s]"
| "runs step (i # script) s = s # runs step script (step i s)"

lemma runs_nth: "n \<le> length script \<Longrightarrow> runs step script s ! n = fold step (take n script) s"
  by (induction script arbitrary: s n) (simp_all add: nth_Cons take_Cons split: nat.split)

end
