(* ===== verification/Ascii.thy ===== *)
theory Ascii
  imports Prelude
begin

text \<open>
  The C string helpers that \<open>l850_cell.c\<close>, \<open>l850_ca.c\<close> and \<open>l850_voltage.c\<close> each carry as a
  private copy: trimming of blanks, splitting of a response into lines and of a line into
  fields, and the overflow-checked accumulation of digits. The accumulation is stated once as
  the locale \<open>digit_accumulator\<close>, which every numeric parser of the program interprets with its
  own accumulator width.
\<close>

section \<open>Characters\<close>

definition code :: "char \<Rightarrow> nat" where
  "code c = of_char c"

definition is_blank :: "char \<Rightarrow> bool" where
  "is_blank c \<longleftrightarrow> c = CHR '' '' \<or> c = TAB"

definition is_digit :: "char \<Rightarrow> bool" where
  "is_digit c \<longleftrightarrow> 48 \<le> code c \<and> code c \<le> 57"

lemma code_inject: "code c = code d \<longleftrightarrow> c = d"
  by (simp add: code_def)

lemma code_less: "code c < 256"
  by (simp add: code_def)

section \<open>Trimming, lines and fields\<close>

text \<open>
  \<open>trim_ascii\<close> advances over leading blanks and cuts trailing ones by writing a NUL; on the
  character list both are \<open>dropWhile\<close>.
\<close>

definition trim_ascii :: "cstring \<Rightarrow> cstring" where
  "trim_ascii s = rev (dropWhile is_blank (rev (dropWhile is_blank s)))"

text \<open>
  The loops \<open>separator = strchr(cursor, c); *separator = 0; cursor = separator + 1\<close> visit the
  pieces between the separators in order, the last one (possibly empty) included.
\<close>

fun split_on :: "char \<Rightarrow> cstring \<Rightarrow> cstring list" where
  "split_on d [] = [[]]"
| "split_on d (c # cs) =
     (if c = d then [] # split_on d cs
      else (case split_on d cs of [] \<Rightarrow> [[c]] | f # fs \<Rightarrow> (c # f) # fs))"

text \<open>One carriage return before the line feed is removed, then blanks are trimmed.\<close>

definition strip_cr :: "cstring \<Rightarrow> cstring" where
  "strip_cr l = (if l \<noteq> [] \<and> last l = CR then butlast l else l)"

definition response_line :: "cstring \<Rightarrow> cstring" where
  "response_line l = trim_ascii (strip_cr l)"

lemma trim_ascii_Nil [simp]: "trim_ascii [] = []"
  by (simp add: trim_ascii_def)

lemma trim_ascii_id:
  assumes "s = [] \<or> (\<not> is_blank (hd s) \<and> \<not> is_blank (last s))"
  shows "trim_ascii s = s"
proof (cases "s = []")
  case False
  with assms have "dropWhile is_blank s = s" "dropWhile is_blank (rev s) = rev s"
    by (auto intro!: dropWhile_id simp: hd_rev)
  then show ?thesis by (simp add: trim_ascii_def)
qed simp

lemma trim_ascii_set: "set (trim_ascii s) \<subseteq> set s"
proof -
  have "set (trim_ascii s) \<subseteq> set (dropWhile is_blank s)"
    unfolding trim_ascii_def by (rule set_rev_dropWhile_rev)
  then show ?thesis using set_dropWhileD by fastforce
qed

lemma trim_ascii_no_blank:
  assumes "\<not> (\<exists>c \<in> set s. is_blank c)"
  shows "trim_ascii s = s"
  using assms by (intro trim_ascii_id) (cases s, auto)

lemma response_line_plain:
  assumes "\<forall>c \<in> set l. \<not> is_blank c \<and> c \<noteq> CR"
  shows "response_line l = l"
proof -
  have "strip_cr l = l"
    using assms last_in_set [of l] unfolding strip_cr_def by metis
  moreover have "trim_ascii l = l" using assms by (intro trim_ascii_no_blank) blast
  ultimately show ?thesis by (simp add: response_line_def)
qed

lemma trim_ascii_ends:
  "trim_ascii s \<noteq> [] \<Longrightarrow> \<not> is_blank (hd (trim_ascii s)) \<and> \<not> is_blank (last (trim_ascii s))"
proof -
  let ?d = "dropWhile is_blank s"
  assume ne: "trim_ascii s \<noteq> []"
  then have l: "\<not> is_blank (last (trim_ascii s))"
    unfolding trim_ascii_def by (rule rev_dropWhile_rev_last)
  have pre: "prefix (trim_ascii s) ?d"
    unfolding trim_ascii_def
    by (metis rev_rev_ident suffix_dropWhile suffix_to_prefix)
  with ne have "hd (trim_ascii s) = hd ?d" and "?d \<noteq> []"
    by (auto simp: prefix_def hd_append simp del: dropWhile_eq_Nil_conv)
  moreover from \<open>?d \<noteq> []\<close> have "\<not> is_blank (hd ?d)" by (rule hd_dropWhile)
  ultimately show ?thesis using l by simp
qed

lemma split_on_not_Nil [simp]: "split_on d s \<noteq> []"
  by (induction s) (auto split: list.splits)

lemma split_on_no_sep: "d \<notin> set s \<Longrightarrow> split_on d s = [s]"
  by (induction s) auto

lemma split_on_append:
  "d \<notin> set s \<Longrightarrow> split_on d (s @ d # t) = s # split_on d t"
  by (induction s) auto

lemma split_on_sep_free: "f \<in> set (split_on d s) \<Longrightarrow> d \<notin> set f"
  by (induction s arbitrary: f) (auto split: list.splits if_splits)

lemma split_on_subset: "f \<in> set (split_on d s) \<Longrightarrow> set f \<subseteq> set s"
  by (induction s arbitrary: f) (fastforce split: list.splits if_splits)+

lemma length_split_on: "length (split_on d s) = Suc (count_list s d)"
  by (induction s) (auto split: list.splits)

section \<open>Digits and their value\<close>

text \<open>
  The digit of a character in base 10 or 16, as the \<open>if\<close> chains of \<open>parse_uint32\<close> and
  \<open>parse_int32\<close> compute it.
\<close>

definition digit_value :: "u32 \<Rightarrow> char \<Rightarrow> u32 option" where
  "digit_value base c =
     (if 48 \<le> code c \<and> code c \<le> 57 then Some (of_nat (code c - 48))
      else if base = 16 \<and> 97 \<le> code c \<and> code c \<le> 102 then Some (of_nat (code c - 97 + 10))
      else if base = 16 \<and> 65 \<le> code c \<and> code c \<le> 70 then Some (of_nat (code c - 65 + 10))
      else None)"

lemma unat_of_nat_small: "n < 16 \<Longrightarrow> unat (of_nat n :: u32) = n"
  by (simp add: unat_of_nat)

lemma digit_value_nat:
  "digit_value base c = Some d \<Longrightarrow> \<exists>n. d = of_nat n \<and> n < (if base = 16 then 16 else 10)"
  by (auto simp: digit_value_def split: if_splits simp del: of_nat_diff of_nat_add)

lemma digit_value_less:
  "digit_value base c = Some d \<Longrightarrow> base = 10 \<or> base = 16 \<Longrightarrow> unat d < unat base"
  using digit_value_nat [of base c d] by (auto simp: unat_of_nat_small)

text \<open>The number a digit string denotes, with no bound.\<close>

fun digits_value :: "(char \<Rightarrow> u32 option) \<Rightarrow> nat \<Rightarrow> nat \<Rightarrow> cstring \<Rightarrow> nat option" where
  "digits_value digit base n [] = Some n"
| "digits_value digit base n (c # cs) =
     (case digit c of
        None \<Rightarrow> None
      | Some d \<Rightarrow> digits_value digit base (n * base + unat d) cs)"

lemma digits_value_mono: "digits_value digit base n s = Some m \<Longrightarrow> 1 \<le> base \<Longrightarrow> n \<le> m"
proof (induction digit base n s rule: digits_value.induct)
  case (2 digit base n c cs)
  then obtain d where d: "digit c = Some d" "digits_value digit base (n * base + unat d) cs = Some m"
    by (auto split: option.splits)
  with "2.IH" "2.prems"(2) have "n * base + unat d \<le> m" by simp
  moreover have "n \<le> n * base" using "2.prems"(2) by simp
  ultimately show ?case by linarith
qed simp

text \<open>
  The shape all numeric loops share: read a digit, let the step check the overflow and
  accumulate, stop at the first failure.
\<close>

fun accumulate :: "('a \<Rightarrow> u32 \<Rightarrow> 'a option) \<Rightarrow> (char \<Rightarrow> u32 option) \<Rightarrow> 'a \<Rightarrow> cstring \<Rightarrow> 'a option" where
  "accumulate step digit a [] = Some a"
| "accumulate step digit a (c # cs) =
     (case digit c of
        None \<Rightarrow> None
      | Some d \<Rightarrow> (case step a d of None \<Rightarrow> None | Some a' \<Rightarrow> accumulate step digit a' cs))"

locale digit_accumulator =
  fixes step :: "'a \<Rightarrow> u32 \<Rightarrow> 'a option"
    and val :: "'a \<Rightarrow> nat"
    and digit :: "char \<Rightarrow> u32 option"
    and base :: nat
    and limit :: nat
  assumes base_pos: "1 \<le> base"
    and step_law: "val a \<le> limit \<Longrightarrow> digit c = Some d \<Longrightarrow>
      map_option val (step a d) =
        (if val a * base + unat d \<le> limit then Some (val a * base + unat d) else None)"
begin

lemma accumulate_correct:
  "val a \<le> limit \<Longrightarrow>
   map_option val (accumulate step digit a s) =
     (case digits_value digit base (val a) s of
        None \<Rightarrow> None | Some n \<Rightarrow> if n \<le> limit then Some n else None)"
proof (induction s arbitrary: a)
  case Nil
  then show ?case by simp
next
  case (Cons c cs)
  show ?case
  proof (cases "digit c")
    case None
    then show ?thesis by simp
  next
    case (Some d)
    let ?n = "val a * base + unat d"
    note law = step_law [OF Cons.prems Some]
    show ?thesis
    proof (cases "?n \<le> limit")
      case True
      with law obtain a' where a': "step a d = Some a'" "val a' = ?n" by auto
      with True Cons.IH [of a'] Some show ?thesis by simp
    next
      case False
      with law have "step a d = None" by simp
      moreover have "\<not> m \<le> limit" if "digits_value digit base ?n cs = Some m" for m
        using digits_value_mono [OF that base_pos] False by linarith
      ultimately show ?thesis using Some by (auto split: option.splits)
    qed
  qed
qed

lemma accumulate_Some:
  assumes "val a \<le> limit"
  shows "(\<exists>r. accumulate step digit a s = Some r \<and> val r = n) \<longleftrightarrow>
    digits_value digit base (val a) s = Some n \<and> n \<le> limit"
  using accumulate_correct [OF assms, of s]
  by (cases "accumulate step digit a s") (auto split: option.splits if_splits)

end

section \<open>Decimal printing\<close>

text \<open>The digits \<open>printf\<close> writes for \<open>%u\<close>.\<close>

definition digit_char :: "nat \<Rightarrow> char" where
  "digit_char d = char_of (48 + d)"

fun show_u :: "nat \<Rightarrow> cstring" where
  "show_u n = (if n < 10 then [digit_char n] else show_u (n div 10) @ [digit_char (n mod 10)])"

declare show_u.simps [simp del]

lemma code_digit_char: "d < 10 \<Longrightarrow> code (digit_char d) = 48 + d"
  by (simp add: code_def digit_char_def of_char_of)

lemma digit_value_digit_char:
  "d < 10 \<Longrightarrow> digit_value base (digit_char d) = Some (of_nat d)"
  by (simp add: digit_value_def code_digit_char)

lemma digits_value_append:
  "digits_value digit base n (s @ t) =
     (case digits_value digit base n s of None \<Rightarrow> None | Some m \<Rightarrow> digits_value digit base m t)"
  by (induction digit base n s rule: digits_value.induct) (auto split: option.splits)

lemma digits_value_show_u: "digits_value (digit_value b) 10 0 (show_u n) = Some n"
proof (induction n rule: show_u.induct)
  case (1 n)
  show ?case
  proof (cases "n < 10")
    case True
    then show ?thesis
      by (simp add: show_u.simps [of n] digit_value_digit_char unat_of_nat)
  next
    case False
    with 1 have "digits_value (digit_value b) 10 0 (show_u (n div 10)) = Some (n div 10)" by simp
    with False show ?thesis
      by (simp add: show_u.simps [of n] digits_value_append digit_value_digit_char unat_of_nat)
  qed
qed

lemma show_u_not_Nil [simp]: "show_u n \<noteq> []"
  by (simp add: show_u.simps [of n])

lemma show_u_digits: "c \<in> set (show_u n) \<Longrightarrow> is_digit c"
proof (induction n rule: show_u.induct)
  case (1 n)
  then show ?case
    by (cases "n < 10") (auto simp: show_u.simps [of n] is_digit_def code_digit_char)
qed

lemma show_u_inject: "show_u m = show_u n \<longleftrightarrow> m = n"
  by (metis digits_value_show_u option.inject)

lemma length_show_u: "n < 10 ^ k \<Longrightarrow> 0 < k \<Longrightarrow> length (show_u n) \<le> k"
proof (induction k arbitrary: n)
  case (Suc k)
  show ?case
  proof (cases "n < 10")
    case True
    then show ?thesis by (simp add: show_u.simps [of n])
  next
    case False
    with Suc.prems have "0 < k" by (cases k) auto
    moreover from Suc.prems have "n div 10 < 10 ^ k"
      by (simp add: less_mult_imp_div_less mult.commute)
    ultimately show ?thesis
      using Suc.IH [of "n div 10"] False by (simp add: show_u.simps [of n])
  qed
qed simp

lemma code_literals [ascii_simps]:
  "code (CHR '','') = 44" "code LF = 10" "code CR = 13" "code NUL = 0" "code (CHR ''='') = 61"
  "code QUOTE = 34" "code (CHR ''x'') = 120" "code (CHR ''X'') = 88" "code (CHR '' '') = 32"
  "code TAB = 9" "code (CHR ''-'') = 45" "code (CHR ''+'') = 43" "code (CHR '':'') = 58"
  "code (CHR ''/'') = 47" "code (CHR ''_'') = 95"
  by (simp_all add: code_def)

lemma is_digit_not_special:
  "is_digit c \<Longrightarrow> c \<noteq> CHR '','' \<and> c \<noteq> LF \<and> c \<noteq> CR \<and> c \<noteq> NUL \<and> c \<noteq> CHR ''='' \<and>
     c \<noteq> QUOTE \<and> c \<noteq> CHR ''x'' \<and> c \<noteq> CHR ''X'' \<and> \<not> is_blank c"
  unfolding is_digit_def is_blank_def
  by (intro conjI notI; (elim disjE)?; simp add: code_literals)

lemmas show_u_not_special = is_digit_not_special [OF show_u_digits]

lemma trim_show_u [simp]: "trim_ascii (show_u n) = show_u n"
  by (rule trim_ascii_no_blank) (use show_u_not_special in blast)

end
