(* ===== verification/Mutation_Policy.thy ===== *)
theory Mutation_Policy
  imports Prelude
begin

text \<open>
  The NVM verifier of \<open>l850_mutation_policy.c\<close>: how many consecutive matching reads of the
  modem's lock registers let the coordinator reset the modem (before the reset) or report
  success (after it), and which completions of the reset command lead to a reprobe.
\<close>

section \<open>Data\<close>

datatype nvm_verify_stage = VERIFY_PRE_RESET | VERIFY_POST_RESET

datatype nvm_observation = OBSERVATION_MATCH | OBSERVATION_MISMATCH | OBSERVATION_INVALID

datatype nvm_decision = DECISION_RETRY | DECISION_READY | DECISION_FAIL_INVALID

datatype reset_finish =
    FINISH_CLEAN
  | FINISH_UNCERTAIN
  | FINISH_UNCLASSIFIED_FAILURE
  | FINISH_DEFINITE_FAILURE

record nvm_verifier =
  stage :: nvm_verify_stage
  consecutive_matches :: u8

section \<open>Operations\<close>

fun required_matches :: "nvm_verify_stage \<Rightarrow> u8" where
  "required_matches VERIFY_PRE_RESET = 2"
| "required_matches VERIFY_POST_RESET = 1"

text \<open>The out parameter may be NULL: then nothing is written.\<close>

definition nvm_verifier_init ::
    "nvm_verifier option \<Rightarrow> nvm_verify_stage \<Rightarrow> nvm_verifier option" where
  "nvm_verifier_init v s =
     (case v of
        None \<Rightarrow> None
      | Some w \<Rightarrow> Some (w\<lparr>stage := s, consecutive_matches := 0\<rparr>))"

definition nvm_verifier_observe ::
    "nvm_verifier option \<Rightarrow> nvm_observation \<Rightarrow> nvm_decision \<times> nvm_verifier option" where
  "nvm_verifier_observe v obs =
     (case v of
        None \<Rightarrow> (DECISION_FAIL_INVALID, None)
      | Some w \<Rightarrow>
          (let required = required_matches (stage w) in
           if required = 0 \<or> obs = OBSERVATION_INVALID then
             (DECISION_FAIL_INVALID, Some (w\<lparr>consecutive_matches := 0\<rparr>))
           else if obs = OBSERVATION_MISMATCH then
             (DECISION_RETRY, Some (w\<lparr>consecutive_matches := 0\<rparr>))
           else if obs \<noteq> OBSERVATION_MATCH then
             (DECISION_FAIL_INVALID, Some (w\<lparr>consecutive_matches := 0\<rparr>))
           else
             (let n = (if consecutive_matches w < required
                       then consecutive_matches w + 1 else consecutive_matches w)
              in (if required \<le> n then DECISION_READY else DECISION_RETRY,
                  Some (w\<lparr>consecutive_matches := n\<rparr>)))))"

fun reset_finish_should_reprobe :: "reset_finish \<Rightarrow> bool" where
  "reset_finish_should_reprobe FINISH_CLEAN = True"
| "reset_finish_should_reprobe FINISH_UNCERTAIN = True"
| "reset_finish_should_reprobe FINISH_UNCLASSIFIED_FAILURE = True"
| "reset_finish_should_reprobe FINISH_DEFINITE_FAILURE = False"

text \<open>A run of the verifier over a sequence of observations.\<close>

fun observe_all ::
    "nvm_verifier option \<Rightarrow> nvm_observation list \<Rightarrow> nvm_decision list \<times> nvm_verifier option" where
  "observe_all v [] = ([], v)"
| "observe_all v (ob # obs) =
     (let (d, v') = nvm_verifier_observe v ob; (ds, v'') = observe_all v' obs in (d # ds, v''))"

section \<open>The counter is the saturated trailing run of matches\<close>

lemma required_matches_pos [simp]: "required_matches s \<noteq> 0"
  by (cases s) auto

lemma required_matches_range: "1 \<le> unat (required_matches s) \<and> unat (required_matches s) \<le> 2"
  by (cases s) auto

definition verifier_tracks :: "nvm_verifier \<Rightarrow> nvm_observation list \<Rightarrow> bool" where
  "verifier_tracks w obs \<longleftrightarrow>
     unat (consecutive_matches w) =
       min (unat (required_matches (stage w))) (trailing (\<lambda>ob. ob = OBSERVATION_MATCH) obs)"

lemma observe_tracks:
  assumes "verifier_tracks w obs" and "nvm_verifier_observe (Some w) ob = (d, v)"
  shows "\<exists>w'. v = Some w' \<and> stage w' = stage w \<and> verifier_tracks w' (obs @ [ob]) \<and>
    (ob \<noteq> OBSERVATION_INVALID \<longrightarrow>
      d = (if unat (required_matches (stage w)) \<le>
              trailing (\<lambda>ob. ob = OBSERVATION_MATCH) (obs @ [ob])
           then DECISION_READY else DECISION_RETRY))"
  using assms required_matches_range [of "stage w"]
    unat_plus1_less [of "consecutive_matches w" "required_matches (stage w)"]
  by (cases ob)
    (auto simp: nvm_verifier_observe_def verifier_tracks_def Let_def word_less_nat_alt
      word_le_nat_alt split: if_splits)

text \<open>
  What the verifier promises of a sequence of observations, without its counter: two consecutive
  matching reads before the reset, one after it.
\<close>

definition decision_spec :: "nvm_verify_stage \<Rightarrow> nvm_observation list \<Rightarrow> nvm_decision" where
  "decision_spec s obs =
     (if obs \<noteq> [] \<and> last obs = OBSERVATION_INVALID then DECISION_FAIL_INVALID
      else if (case s of VERIFY_PRE_RESET \<Rightarrow> 2 | VERIFY_POST_RESET \<Rightarrow> 1) \<le> trailing (\<lambda>ob. ob = OBSERVATION_MATCH) obs
      then DECISION_READY else DECISION_RETRY)"

lemma observe_invalid:
  "fst (nvm_verifier_observe (Some w) OBSERVATION_INVALID) = DECISION_FAIL_INVALID"
  by (simp add: nvm_verifier_observe_def)

lemma observe_decision:
  assumes "verifier_tracks w pre" and "nvm_verifier_observe (Some w) ob = (d, v)"
  shows "d = decision_spec (stage w) (pre @ [ob])"
  using observe_tracks [OF assms] assms(2) observe_invalid [of w]
  by (cases "ob = OBSERVATION_INVALID"; cases "stage w") (auto simp: decision_spec_def)

lemma observe_all_spec:
  "verifier_tracks w pre \<Longrightarrow>
   fst (observe_all (Some w) obs) =
     map (\<lambda>k. decision_spec (stage w) (pre @ take (Suc k) obs)) [0..<length obs]"
proof (induction obs arbitrary: w pre)
  case Nil
  then show ?case by simp
next
  case (Cons ob obs)
  obtain d v where step: "nvm_verifier_observe (Some w) ob = (d, v)"
    by (cases "nvm_verifier_observe (Some w) ob")
  from observe_tracks [OF Cons.prems step] obtain w' where
    w': "v = Some w'" "stage w' = stage w" "verifier_tracks w' (pre @ [ob])" by blast
  have tail: "fst (observe_all (Some w') obs) =
      map (\<lambda>k. decision_spec (stage w) (pre @ take (Suc (Suc k)) (ob # obs))) [0..<length obs]"
    using Cons.IH [OF w'(3)] w'(2) by simp
  have "[0..<length (ob # obs)] = 0 # map Suc [0..<length obs]"
    by (simp add: upt_conv_Cons map_Suc_upt del: upt_Suc)
  with step w'(1) tail observe_decision [OF Cons.prems step] show ?case
    by (simp add: Let_def case_prod_beta comp_def del: upt_Suc)
qed

section \<open>Properties\<close>

text \<open>C27: Over any sequence of observations the verifier decides, at every position, exactly what
  the observations so far call for: an invalid read fails, and otherwise it is ready if and
  only if the last two reads (before the reset) or the last read (after it) matched.\<close>

theorem nvm_verifier_refines_trailing_run:
  "fst (observe_all (nvm_verifier_init (Some w) s) obs) =
     map (\<lambda>k. decision_spec s (take (Suc k) obs)) [0..<length obs]"
proof -
  have "verifier_tracks (w\<lparr>stage := s, consecutive_matches := 0\<rparr>) []"
    by (simp add: verifier_tracks_def)
  from observe_all_spec [OF this, of obs] show ?thesis
    by (simp add: nvm_verifier_init_def)
qed

end
