(* ===== verification/Identity.thy ===== *)
theory Identity
  imports Ascii
begin

text \<open>
  Opaque identifiers (\<open>identity.c\<close>): a prefix followed by the lower case hexadecimal digits of
  sixteen random bytes. The kernel's \<open>getrandom\<close> is a script of its answers, so partial reads,
  interruptions and failures are branches of the loop; the locale \<open>random_source\<close> states what
  the generator relies on and is interpreted on that loop.
\<close>

section \<open>Constants\<close>

definition ID_PREFIX :: cstring where "ID_PREFIX = ''l850gl-''"
definition SMS_ID_PREFIX :: cstring where "SMS_ID_PREFIX = ''sms-''"
definition SMS_OP_PREFIX :: cstring where "SMS_OP_PREFIX = ''smsop-''"
definition ID_RANDOM_LEN :: nat where "ID_RANDOM_LEN = 16"
definition ID_HEX_LEN :: nat where "ID_HEX_LEN = ID_RANDOM_LEN * 2"
definition ID_BUFSIZE :: nat where "ID_BUFSIZE = length ID_PREFIX + ID_HEX_LEN + 1"
definition SMS_ID_BUFSIZE :: nat where "SMS_ID_BUFSIZE = length SMS_ID_PREFIX + ID_HEX_LEN + 1"
definition SMS_OP_BUFSIZE :: nat where "SMS_OP_BUFSIZE = length SMS_OP_PREFIX + ID_HEX_LEN + 1"

lemmas id_consts = ID_PREFIX_def SMS_ID_PREFIX_def SMS_OP_PREFIX_def ID_RANDOM_LEN_def
  ID_HEX_LEN_def ID_BUFSIZE_def SMS_ID_BUFSIZE_def SMS_OP_BUFSIZE_def

section \<open>Random bytes\<close>

text \<open>
  One answer of \<open>getrandom\<close>: the bytes it has (it copies at most as many as were asked for),
  an interruption, or another error. A call that copies nothing and a call that fails both end
  the loop with \<open>false\<close>.
\<close>

datatype getrandom_answer = Random_Bytes "u8 list" | Random_EINTR | Random_Error

text \<open>
  The loop of \<open>system_random_fill\<close>, driven by the answers; \<open>None\<close> is a loop that is still
  running when the answers are used up.
\<close>

fun system_random_fill :: "getrandom_answer list \<Rightarrow> u8 list \<Rightarrow> nat \<Rightarrow> (bool \<times> u8 list) option" where
  "system_random_fill script filled n =
     (if length filled < n then
        (case script of
           [] \<Rightarrow> None
         | Random_Bytes bs # rest \<Rightarrow>
             (let got = take (n - length filled) bs in
              if got \<noteq> [] then system_random_fill rest (filled @ got) n
              else Some (False, filled))
         | Random_EINTR # rest \<Rightarrow> system_random_fill rest filled n
         | Random_Error # rest \<Rightarrow> Some (False, filled))
      else Some (True, filled))"

declare system_random_fill.simps [simp del]

text \<open>The callback passed to the generators; a loop that has not ended has filled nothing.\<close>

definition kernel_fill :: "getrandom_answer list \<Rightarrow> nat \<Rightarrow> bool \<times> u8 list" where
  "kernel_fill script n =
     (case system_random_fill script [] n of None \<Rightarrow> (False, []) | Some r \<Rightarrow> r)"

section \<open>Tokens\<close>

definition hex_chars :: cstring where "hex_chars = ''0123456789abcdef''"

definition hex_digit :: "u8 \<Rightarrow> char" where
  "hex_digit n = hex_chars ! unat n"

definition hex_byte :: "u8 \<Rightarrow> cstring" where
  "hex_byte b = [hex_digit (drop_bit 4 b), hex_digit (b AND 15)]"

type_synonym random_fill = "nat \<Rightarrow> bool \<times> u8 list"

text \<open>
  The output buffer is the list of its bytes, its length the \<open>output_size\<close> argument; the
  result is the return value and the buffer afterwards.
\<close>

definition token_generate_with ::
    "char list option \<Rightarrow> cstring option \<Rightarrow> random_fill option \<Rightarrow> bool \<times> char list option" where
  "token_generate_with output pfx random_fill =
     (case (output, pfx, random_fill) of
        (Some out, Some p, Some fill) \<Rightarrow>
          if length out = 0 then (False, output)
          else
            (let out' = out[0 := NUL];
                 prefix_length = length p;
                 expected_size = prefix_length + ID_HEX_LEN + 1
             in if length out \<noteq> expected_size then (False, Some out')
                else
                  (let (ok, random_bytes) = fill ID_RANDOM_LEN in
                   if \<not> ok then (False, Some out')
                   else (True, Some (p @ concat (map hex_byte random_bytes) @ [NUL]))))
      | _ \<Rightarrow> (False, output))"

definition is_lower_hex :: "char \<Rightarrow> bool" where
  "is_lower_hex c \<longleftrightarrow> (48 \<le> code c \<and> code c \<le> 57) \<or> (97 \<le> code c \<and> code c \<le> 102)"

definition token_is_valid :: "cstring option \<Rightarrow> cstring option \<Rightarrow> nat \<Rightarrow> bool" where
  "token_is_valid value pfx expected_size =
     (case (value, pfx) of
        (Some v, Some p) \<Rightarrow>
          if length v \<noteq> expected_size - 1 \<or> take (length p) v \<noteq> p then False
          else list_all is_lower_hex (drop (length p) v)
      | _ \<Rightarrow> False)"

definition l850gl_identity_generate_with ::
    "char list option \<Rightarrow> random_fill option \<Rightarrow> bool \<times> char list option" where
  "l850gl_identity_generate_with output fill = token_generate_with output (Some ID_PREFIX) fill"

definition l850gl_sms_identity_generate_with ::
    "char list option \<Rightarrow> random_fill option \<Rightarrow> bool \<times> char list option" where
  "l850gl_sms_identity_generate_with output fill =
     token_generate_with output (Some SMS_ID_PREFIX) fill"

text \<open>
  The production generators read the kernel once, for \<open>ID_RANDOM_LEN\<close> bytes, and only when the
  buffer has the size of the token.
\<close>

definition l850gl_identity_generate ::
    "getrandom_answer list \<Rightarrow> char list option \<Rightarrow> (bool \<times> char list option) option" where
  "l850gl_identity_generate script output =
     (if map_option length output \<noteq> Some ID_BUFSIZE
      then Some (l850gl_identity_generate_with output (Some (\<lambda>_. (False, []))))
      else
        (case system_random_fill script [] ID_RANDOM_LEN of
           None \<Rightarrow> None
         | Some _ \<Rightarrow> Some (l850gl_identity_generate_with output (Some (kernel_fill script)))))"

definition l850gl_sms_identity_generate ::
    "getrandom_answer list \<Rightarrow> char list option \<Rightarrow> (bool \<times> char list option) option" where
  "l850gl_sms_identity_generate script output =
     (if map_option length output \<noteq> Some SMS_ID_BUFSIZE
      then Some (l850gl_sms_identity_generate_with output (Some (\<lambda>_. (False, []))))
      else
        (case system_random_fill script [] ID_RANDOM_LEN of
           None \<Rightarrow> None
         | Some _ \<Rightarrow> Some (l850gl_sms_identity_generate_with output (Some (kernel_fill script)))))"

definition l850gl_identity_is_valid :: "cstring option \<Rightarrow> bool" where
  "l850gl_identity_is_valid modem_id = token_is_valid modem_id (Some ID_PREFIX) ID_BUFSIZE"

definition l850gl_sms_identity_is_valid :: "cstring option \<Rightarrow> bool" where
  "l850gl_sms_identity_is_valid sms_id = token_is_valid sms_id (Some SMS_ID_PREFIX) SMS_ID_BUFSIZE"

definition l850gl_sms_operation_token_is_valid :: "cstring option \<Rightarrow> bool" where
  "l850gl_sms_operation_token_is_valid token =
     token_is_valid token (Some SMS_OP_PREFIX) SMS_OP_BUFSIZE"

section \<open>Hexadecimal encoding\<close>

definition hex_value :: "char \<Rightarrow> nat" where
  "hex_value c = (if code c \<le> 57 then code c - 48 else code c - 87)"

fun unhex :: "cstring \<Rightarrow> u8 list" where
  "unhex (c # d # cs) = of_nat (16 * hex_value c + hex_value d) # unhex cs"
| "unhex _ = []"

lemma less_16_cases: "(n :: nat) < 16 \<Longrightarrow> n \<in> set [0..<16]"
  by simp

lemma hex_chars_all:
  "list_all (\<lambda>n. hex_value (hex_chars ! n) = n \<and> is_lower_hex (hex_chars ! n)) [0..<16]"
  by code_simp

lemma hex_chars_nth:
  "n < 16 \<Longrightarrow> hex_value (hex_chars ! n) = n" "n < 16 \<Longrightarrow> is_lower_hex (hex_chars ! n)"
  using hex_chars_all by (auto simp: list_all_iff)

lemma hex_value_less: "is_lower_hex c \<Longrightarrow> hex_value c < 16"
  by (auto simp: is_lower_hex_def hex_value_def)

lemma char_of_code: "char_of (code c) = c"
  by (simp add: code_def)

lemma lower_hex_codes_all:
  "list_all (\<lambda>k. hex_chars ! hex_value (char_of k) = char_of k) ([48..<58] @ [97..<103])"
  by code_simp

lemma hex_chars_hex_value:
  assumes "is_lower_hex c"
  shows "hex_chars ! hex_value c = c"
proof -
  have "code c \<in> set ([48..<58] @ [97..<103])" using assms
    by (simp add: is_lower_hex_def del: upt_rec_numeral) arith
  with lower_hex_codes_all have "hex_chars ! hex_value (char_of (code c)) = char_of (code c)"
    unfolding list_all_iff by blast
  then show ?thesis by (simp only: char_of_code)
qed

lemma hex_byte_nat:
  "hex_byte b = [hex_chars ! (unat b div 16), hex_chars ! (unat b mod 16)]"
proof -
  have "unat (drop_bit 4 b) = unat b div 16"
    by (simp add: drop_bit_eq_div unat_div)
  moreover have "unat (b AND 15) = unat b mod 16"
  proof -
    have "b AND 15 = take_bit 4 b" by (simp add: take_bit_eq_mask mask_eq_exp_minus_1)
    then show ?thesis by (simp add: unsigned_take_bit_eq) (simp add: take_bit_eq_mod)
  qed
  ultimately show ?thesis by (simp add: hex_byte_def hex_digit_def)
qed

abbreviation encode :: "u8 list \<Rightarrow> cstring" where
  "encode bs \<equiv> concat (map hex_byte bs)"

lemma unhex_encode: "unhex (encode bs) = bs"
proof (induction bs)
  case (Cons b bs)
  have "unat b div 16 < 16" using unsigned_less [of b, where 'a = nat] by simp
  then show ?case using Cons by (simp add: hex_byte_nat hex_chars_nth)
qed simp

lemma length_encode [simp]: "length (encode bs) = 2 * length bs"
  by (induction bs) (simp_all add: hex_byte_def)

lemma encode_lower_hex: "list_all is_lower_hex (encode bs)"
proof (induction bs)
  case (Cons b bs)
  have "unat b div 16 < 16" using unsigned_less [of b, where 'a = nat] by simp
  then show ?case using Cons by (simp add: hex_byte_nat hex_chars_nth)
qed simp

lemma encode_unhex: "list_all is_lower_hex s \<Longrightarrow> even (length s) \<Longrightarrow> encode (unhex s) = s"
proof (induction s rule: unhex.induct)
  case (1 c d cs)
  then have "hex_value c < 16" "hex_value d < 16" by (auto dest: hex_value_less)
  then have "unat (of_nat (16 * hex_value c + hex_value d) :: u8) = 16 * hex_value c + hex_value d"
    by (subst unat_of_nat) simp
  with 1 \<open>hex_value d < 16\<close> show ?case
    by (simp add: hex_byte_nat hex_chars_hex_value)
qed simp_all

lemma length_unhex: "length (unhex s) = length s div 2"
  by (induction s rule: unhex.induct) simp_all

lemma token_valid_iff:
  "token_is_valid (Some t) (Some p) (length p + ID_HEX_LEN + 1) \<longleftrightarrow>
     (\<exists>bs. length bs = ID_RANDOM_LEN \<and> t = p @ encode bs)"
proof
  assume v: "token_is_valid (Some t) (Some p) (length p + ID_HEX_LEN + 1)"
  let ?s = "drop (length p) t"
  from v have len: "length t = length p + 32" and pre: "take (length p) t = p"
    and hex: "list_all is_lower_hex ?s"
    by (auto simp: token_is_valid_def id_consts split: if_splits)
  from len hex have "encode (unhex ?s) = ?s" by (intro encode_unhex) simp_all
  with pre have "t = p @ encode (unhex ?s)" by (metis append_take_drop_id)
  with len show "\<exists>bs. length bs = ID_RANDOM_LEN \<and> t = p @ encode bs"
    by (intro exI [of _ "unhex ?s"]) (simp add: length_unhex id_consts)
next
  assume "\<exists>bs. length bs = ID_RANDOM_LEN \<and> t = p @ encode bs"
  then show "token_is_valid (Some t) (Some p) (length p + ID_HEX_LEN + 1)"
    using encode_lower_hex by (auto simp: token_is_valid_def id_consts)
qed

section \<open>Sources of random bytes\<close>

text \<open>What the generators rely on: a fill that reports success has filled the whole request.\<close>

locale random_source =
  fixes fill :: random_fill
  assumes fills: "fst (fill n) \<Longrightarrow> length (snd (fill n)) = n"
begin

lemma generate_cases:
  assumes "length out = length p + ID_HEX_LEN + 1"
  shows "token_generate_with (Some out) (Some p) (Some fill) =
    (if fst (fill ID_RANDOM_LEN)
     then (True, Some (p @ encode (snd (fill ID_RANDOM_LEN)) @ [NUL]))
     else (False, Some (out[0 := NUL])))"
  using assms by (cases "fill ID_RANDOM_LEN") (auto simp: token_generate_with_def Let_def)

lemma generate_sound:
  assumes "length out = length p + ID_HEX_LEN + 1"
    and "token_generate_with (Some out) (Some p) (Some fill) = (ok, Some out')"
  shows "length out' = length out \<and>
    (if ok then last out' = NUL \<and>
        token_is_valid (Some (butlast out')) (Some p) (length p + ID_HEX_LEN + 1)
     else hd out' = NUL)"
proof (cases "fst (fill ID_RANDOM_LEN)")
  case True
  with fills have "length (snd (fill ID_RANDOM_LEN)) = ID_RANDOM_LEN" by blast
  with True assms generate_cases [OF assms(1)] show ?thesis
    using token_valid_iff [of "p @ encode (snd (fill ID_RANDOM_LEN))" p]
    by (auto simp: butlast_append id_consts)
next
  case False
  with assms generate_cases [OF assms(1)] show ?thesis
    by (cases out) auto
qed

end

lemma system_random_fill_sound:
  assumes "system_random_fill script filled n = Some (ok, bs)" and "length filled \<le> n"
  shows "length bs \<le> n \<and> (ok \<longleftrightarrow> length bs = n)"
  using assms
proof (induction script filled n rule: system_random_fill.induct)
  case (1 script filled n)
  show ?case
  proof (cases "length filled < n")
    case False
    with "1.prems" show ?thesis by (subst (asm) system_random_fill.simps) auto
  next
    case True
    note run = "1.prems"(1) [unfolded system_random_fill.simps [of script filled n]]
    show ?thesis
      using run True "1.IH"
      by (auto simp: Let_def split: list.splits getrandom_answer.splits if_splits)
  qed
qed

interpretation kernel: random_source "kernel_fill script" for script
proof
  fix n assume "fst (kernel_fill script n)"
  then show "length (snd (kernel_fill script n)) = n"
    using system_random_fill_sound [of script "[]" n]
    by (cases "system_random_fill script [] n") (auto simp: kernel_fill_def)
qed

text \<open>A kernel that keeps delivering bytes lets the loop end: the result is the first bytes.\<close>

fun delivered :: "getrandom_answer list \<Rightarrow> u8 list" where
  "delivered [] = []"
| "delivered (Random_Bytes bs # rest) = (if bs = [] then [] else bs @ delivered rest)"
| "delivered (Random_EINTR # rest) = delivered rest"
| "delivered (Random_Error # rest) = []"

lemma system_random_fill_delivers:
  assumes "n - length filled \<le> length (delivered script)" and "length filled \<le> n"
  shows "system_random_fill script filled n =
    Some (True, filled @ take (n - length filled) (delivered script))"
  using assms
proof (induction script arbitrary: filled)
  case Nil
  then show ?case by (simp add: system_random_fill.simps)
next
  case (Cons a script)
  show ?case
  proof (cases "length filled < n")
    case False
    with Cons.prems show ?thesis by (simp add: system_random_fill.simps)
  next
    case True
    then show ?thesis
    proof (cases a)
      case (Random_Bytes bs)
      with True Cons.prems have "bs \<noteq> []" by (auto split: if_splits)
      let ?got = "take (n - length filled) bs"
      have "system_random_fill script (filled @ ?got) n =
          Some (True, (filled @ ?got) @ take (n - length (filled @ ?got)) (delivered script))"
        using Cons.prems True \<open>bs \<noteq> []\<close> Random_Bytes
        by (intro Cons.IH) (auto simp: min_def)
      with True \<open>bs \<noteq> []\<close> Random_Bytes show ?thesis
        by (subst system_random_fill.simps) (auto simp: Let_def min_def)
    next
      case Random_EINTR
      with True Cons show ?thesis by (subst system_random_fill.simps) auto
    qed (use True Cons.prems in auto)
  qed
qed

section \<open>Fresh identifiers\<close>

text \<open>
  What the registries promise of the identifiers they draw: one that is returned is well formed
  and not among those already in use. Adding it keeps a list of identifiers free of repetitions.
\<close>

locale identifier_allocator =
  fixes allocate :: "'r \<Rightarrow> 's \<Rightarrow> cstring option \<times> 'r"
    and taken :: "'s \<Rightarrow> cstring set"
    and valid :: "cstring \<Rightarrow> bool"
  assumes allocate_fresh: "allocate r s = (Some i, r') \<Longrightarrow> i \<notin> taken s"
    and allocate_valid: "allocate r s = (Some i, r') \<Longrightarrow> valid i"
begin

lemma allocate_distinct:
  assumes "allocate r s = (Some i, r')" and "set ids \<subseteq> taken s" and "distinct ids"
  shows "distinct (ids @ [i])" and "distinct (i # ids)"
  using assms allocate_fresh by fastforce+

lemma allocate_all_valid:
  assumes "allocate r s = (Some i, r')" and "list_all valid ids"
  shows "list_all valid (ids @ [i])"
  using assms allocate_valid by simp

end

lemma generated_token_valid:
  assumes "token_generate_with (Some (replicate (length p + ID_HEX_LEN + 1) c)) (Some p)
      (Some (kernel_fill script)) = (True, Some out)"
  shows "token_is_valid (Some (butlast out)) (Some p) (length p + ID_HEX_LEN + 1)"
  using kernel.generate_sound [OF _ assms] by simp

section \<open>Properties\<close>

lemma identity_valid_iff_encode:
  "l850gl_identity_is_valid (Some t) \<longleftrightarrow>
     (\<exists>bs. length bs = ID_RANDOM_LEN \<and> t = ID_PREFIX @ encode bs)"
  unfolding l850gl_identity_is_valid_def ID_BUFSIZE_def by (rule token_valid_iff)

lemma generate_with_bytes:
  assumes "length out = ID_BUFSIZE"
  shows "l850gl_identity_generate_with (Some out) (Some (\<lambda>_. (True, bs))) =
    (True, Some (ID_PREFIX @ encode bs @ [NUL]))"
  using assms by (simp add: l850gl_identity_generate_with_def token_generate_with_def
    ID_BUFSIZE_def Let_def)

text \<open>C39: The validator accepts exactly the strings the generator can write: a string is a valid
  modem identifier if and only if some sixteen random bytes make the generator produce it.\<close>

theorem identity_valid_iff_generated:
  "l850gl_identity_is_valid (Some t) \<longleftrightarrow>
     (\<exists>bs. length bs = ID_RANDOM_LEN \<and>
       l850gl_identity_generate_with (Some (replicate ID_BUFSIZE c)) (Some (\<lambda>_. (True, bs))) =
         (True, Some (t @ [NUL])))"
  by (auto simp: identity_valid_iff_encode generate_with_bytes)

text \<open>Whatever the kernel answers (short reads, interruptions, errors), when the production
  generator returns, it has either written a valid identifier with its terminator, or reported
  failure and left the empty string in the buffer.\<close>

lemma identity_generate_fail_closed:
  "case l850gl_identity_generate script (Some (replicate ID_BUFSIZE c)) of
     None \<Rightarrow> system_random_fill script [] ID_RANDOM_LEN = None
   | Some (ok, None) \<Rightarrow> False
   | Some (ok, Some out) \<Rightarrow> length out = ID_BUFSIZE \<and>
       (if ok then last out = NUL \<and> l850gl_identity_is_valid (Some (butlast out))
        else hd out = NUL)"
proof (cases "system_random_fill script [] ID_RANDOM_LEN")
  case None
  then show ?thesis by (simp add: l850gl_identity_generate_def)
next
  case (Some r)
  let ?o = "replicate ID_BUFSIZE c"
  have len: "length ?o = length ID_PREFIX + ID_HEX_LEN + 1" by (simp add: ID_BUFSIZE_def)
  obtain ok out where run:
    "token_generate_with (Some ?o) (Some ID_PREFIX) (Some (kernel_fill script)) = (ok, Some out)"
    using kernel.generate_cases [OF len, of script] by (auto split: if_splits)
  from kernel.generate_sound [OF len run, folded ID_BUFSIZE_def] Some run show ?thesis
    by (simp add: l850gl_identity_generate_def l850gl_identity_generate_with_def
        l850gl_identity_is_valid_def)
qed

text \<open>When the kernel delivers at least sixteen bytes before an error, in whatever pieces and
  with whatever interruptions, the production generator returns and writes the identifier of
  the first sixteen of them.\<close>

lemma identity_generate_chunk_independent:
  assumes "ID_RANDOM_LEN \<le> length (delivered script)"
  shows "l850gl_identity_generate script (Some (replicate ID_BUFSIZE c)) =
    Some (True, Some (ID_PREFIX @ encode (take ID_RANDOM_LEN (delivered script)) @ [NUL]))"
  using system_random_fill_delivers [of ID_RANDOM_LEN "[]" script] assms
  by (simp add: l850gl_identity_generate_def l850gl_identity_generate_with_def
      kernel.generate_cases ID_BUFSIZE_def kernel_fill_def)

lemma sample_random_answers:
  "ID_RANDOM_LEN \<le> length (delivered
     [Random_Bytes [1, 2, 3], Random_EINTR, Random_Bytes (replicate 20 255)])"
  "ID_PREFIX @ encode (take ID_RANDOM_LEN (delivered
     [Random_Bytes [1, 2, 3], Random_EINTR, Random_Bytes (replicate 20 255)])) @ [NUL] =
   ''l850gl-010203ffffffffffffffffffffffffff'' @ [NUL]"
  by code_simp+

end
