(* ===== verification/Hardware.thy ===== *)
theory Hardware
  imports Ascii
begin

text \<open>
  Hardware attestation (\<open>hardware.c\<close>): the walk down a sysfs path one component at a time
  without following symbolic links, and the bounded read of the two USB identity attributes.
  The file system is a tree; a regular file is the script of the answers its \<open>read\<close> calls
  give (pieces of any size, interruptions, an error), end of file being the end of the script.
  Every operation also carries the number of open descriptors, so that leaks are visible.
\<close>

section \<open>The file system the code sees\<close>

datatype read_answer = Read_Bytes cstring | Read_EINTR | Read_Error

datatype fs_node =
    Dir "(cstring \<times> fs_node) list"
  | Regular "read_answer list"
  | Symlink cstring
  | Special
  | No_Stat
  | No_Access

text \<open>\<open>openat\<close> with \<open>O_DIRECTORY | O_NOFOLLOW\<close>: directories only.\<close>

definition openat_dir :: "fs_node \<Rightarrow> cstring \<Rightarrow> fs_node option" where
  "openat_dir dir name =
     (case dir of
        Dir es \<Rightarrow> (case map_of es name of Some (Dir fs) \<Rightarrow> Some (Dir fs) | _ \<Rightarrow> None)
      | _ \<Rightarrow> None)"

text \<open>\<open>openat\<close> with \<open>O_NOFOLLOW\<close> only: anything but a symbolic link.\<close>

definition openat_nofollow :: "fs_node \<Rightarrow> cstring \<Rightarrow> fs_node option" where
  "openat_nofollow dir name =
     (case dir of
        Dir es \<Rightarrow>
          (case map_of es name of
             None \<Rightarrow> None
           | Some (Symlink _) \<Rightarrow> None
           | Some No_Access \<Rightarrow> None
           | Some n \<Rightarrow> Some n)
      | _ \<Rightarrow> None)"

section \<open>The path\<close>

definition SYSFS_PREFIX :: cstring where "SYSFS_PREFIX = ''/sys/devices/''"
definition PHYSDEV_MAX :: nat where "PHYSDEV_MAX = 4096"
definition COMPONENT_MAX :: nat where "COMPONENT_MAX = 255"
definition USB_ID_LEN :: nat where "USB_ID_LEN = 4"

definition physdev_length :: "cstring option \<Rightarrow> nat option" where
  "physdev_length physdev =
     (case physdev of
        None \<Rightarrow> None
      | Some p \<Rightarrow> if p = [] \<or> PHYSDEV_MAX < length p then None else Some (length p))"

definition component_is_canonical :: "cstring \<Rightarrow> bool" where
  "component_is_canonical c \<longleftrightarrow>
     \<not> (c = [] \<or> COMPONENT_MAX < length c) \<and> \<not> c = ''.'' \<and> \<not> c = ''..''"

text \<open>
  The loop over the components. \<open>current\<close> is the directory opened last (\<open>None\<close> for the
  descriptor \<open>-1\<close>), \<open>fds\<close> the number of descriptors this call holds; the result is the opened
  directory and the number of descriptors held afterwards.
\<close>

function open_components ::
    "fs_node \<Rightarrow> fs_node option \<Rightarrow> nat \<Rightarrow> cstring \<Rightarrow> fs_node option \<times> nat" where
  "open_components root current fds rest =
     (if rest = [] then (current, fds)
      else
        (let component = takeWhile (\<lambda>c. c \<noteq> CHR ''/'') rest;
             after = dropWhile (\<lambda>c. c \<noteq> CHR ''/'') rest;
             closed = (if current \<noteq> None then fds - 1 else fds)
         in if \<not> component_is_canonical component then (None, closed)
            else
              (case openat_dir (case current of Some d \<Rightarrow> d | None \<Rightarrow> root) component of
                 None \<Rightarrow> (None, closed)
               | Some next_dir \<Rightarrow>
                   (if after = [] then (Some next_dir, closed + 1)
                    else open_components root (Some next_dir) (closed + 1) (tl after)))))"
  by pat_completeness auto
termination
proof (relation "measure (\<lambda>(root, current, fds, rest). length rest)", goal_cases)
  case (2 root current fds rest component after closed x2)
  then have "0 < length rest" by simp
  moreover have "length after \<le> length rest"
    unfolding 2(3) by (rule length_dropWhile_le)
  ultimately have "length after - 1 < length rest" by linarith
  then show ?case by simp
qed simp

declare open_components.simps [simp del]

definition open_physdev_at :: "fs_node option \<Rightarrow> cstring option \<Rightarrow> fs_node option \<times> nat" where
  "open_physdev_at sysfs_root physdev =
     (case sysfs_root of
        Some (Dir es) \<Rightarrow>
          (case (physdev_length physdev, physdev) of
             (Some path_length, Some p) \<Rightarrow>
               if path_length \<le> length SYSFS_PREFIX \<or>
                  take (length SYSFS_PREFIX) p \<noteq> SYSFS_PREFIX \<or>
                  p ! (path_length - 1) = CHR ''/''
               then (None, 0)
               else open_components (Dir es) None 0 (drop (length ''/sys/'') p)
           | _ \<Rightarrow> (None, 0))
      | _ \<Rightarrow> (None, 0))"

section \<open>The attributes\<close>

text \<open>The read loop on a buffer of \<open>USB_ID_LEN + 2\<close> bytes; \<open>None\<close> is a read error.\<close>

fun read_usb_value :: "cstring \<Rightarrow> read_answer list \<Rightarrow> cstring option" where
  "read_usb_value used [] = Some used"
| "read_usb_value used (a # script) =
     (if length used < USB_ID_LEN + 2 then
        (case a of
           Read_EINTR \<Rightarrow> read_usb_value used script
         | Read_Error \<Rightarrow> None
         | Read_Bytes bs \<Rightarrow>
             (let got = take (USB_ID_LEN + 2 - length used) bs in
              if got = [] then Some used else read_usb_value (used @ got) script))
      else Some used)"

text \<open>The result and the number of descriptors still open, the attribute's own included.\<close>

definition read_exact_usb_id :: "fs_node \<Rightarrow> cstring \<Rightarrow> cstring \<Rightarrow> nat \<Rightarrow> bool \<times> nat" where
  "read_exact_usb_id device attribute expected fds =
     (case openat_nofollow device attribute of
        None \<Rightarrow> (False, fds)
      | Some file \<Rightarrow>
          (let fds = fds + 1;
               matches =
                 (case file of
                    Regular script \<Rightarrow>
                      (case read_usb_value [] script of
                         None \<Rightarrow> False
                       | Some value \<Rightarrow>
                           (length value = USB_ID_LEN \<or>
                            (length value = USB_ID_LEN + 1 \<and> value ! USB_ID_LEN = LF)) \<and>
                           take USB_ID_LEN value = take USB_ID_LEN expected)
                  | _ \<Rightarrow> False)
           in (matches, fds - 1)))"

definition attest_l850_mbim_at :: "fs_node option \<Rightarrow> cstring option \<Rightarrow> bool \<times> nat" where
  "attest_l850_mbim_at sysfs_root physdev =
     (case open_physdev_at sysfs_root physdev of
        (None, fds) \<Rightarrow> (False, fds)
      | (Some device, fds) \<Rightarrow>
          (let (vendor, fds) = read_exact_usb_id device ''idVendor'' ''2cb7'' fds;
               (matches, fds) =
                 (if vendor then read_exact_usb_id device ''idProduct'' ''0007'' fds
                  else (False, fds))
           in (matches, fds - 1)))"

text \<open>
  The root descriptor is \<open>None\<close> when \<open>/sys\<close> cannot be opened as a directory; the second
  component of the result is the number of descriptors left open.
\<close>

definition l850gl_hardware_attest_l850_mbim :: "fs_node option \<Rightarrow> cstring option \<Rightarrow> bool \<times> nat" where
  "l850gl_hardware_attest_l850_mbim sysfs physdev =
     (case sysfs of
        None \<Rightarrow> (False, 0)
      | Some root \<Rightarrow>
          (let fds = 1; (matches, more) = attest_l850_mbim_at (Some root) physdev
           in (matches, fds + more - 1)))"

section \<open>Reading is independent of how the bytes arrive\<close>

text \<open>The bytes of a file up to end of file or to the first error, and whether it was an error.\<close>

fun file_content :: "read_answer list \<Rightarrow> cstring \<times> bool" where
  "file_content [] = ([], False)"
| "file_content (Read_EINTR # script) = file_content script"
| "file_content (Read_Error # script) = ([], True)"
| "file_content (Read_Bytes bs # script) =
     (if bs = [] then ([], False)
      else (let (c, e) = file_content script in (bs @ c, e)))"

lemma read_usb_value_content:
  "length used \<le> USB_ID_LEN + 2 \<Longrightarrow>
   read_usb_value used script =
     (let (c, e) = file_content script; room = USB_ID_LEN + 2 - length used in
      if e \<and> length c < room then None else Some (used @ take room c))"
proof (induction script arbitrary: used rule: file_content.induct)
  case (4 bs script)
  show ?case
  proof (cases "length used < USB_ID_LEN + 2 \<and> bs \<noteq> []")
    case True
    let ?room = "USB_ID_LEN + 2 - length used"
    obtain c e where ce: "file_content script = (c, e)" by fastforce
    have ih: "read_usb_value (used @ take ?room bs) script =
        (if e \<and> length c < ?room - length bs then None
         else Some (used @ take ?room bs @ take (?room - length bs) c))"
    proof -
      have le: "length (used @ take ?room bs) \<le> USB_ID_LEN + 2"
        using True unfolding length_append length_take by linarith
      have room: "USB_ID_LEN + 2 - length (used @ take ?room bs) = ?room - length bs" by simp
      from "4.IH" [OF _ le] True ce show ?thesis unfolding room by (simp add: Let_def)
    qed
    have "(length c < ?room - length bs) = (length bs + length c < ?room)" by linarith
    with ih True ce show ?thesis by (simp add: Let_def)
  qed (use "4.prems" in \<open>auto simp: Let_def split: prod.splits\<close>)
qed (auto simp: Let_def split: prod.splits)

definition attribute_is :: "fs_node \<Rightarrow> cstring \<Rightarrow> cstring \<Rightarrow> bool" where
  "attribute_is device attribute expected \<longleftrightarrow>
     (case openat_nofollow device attribute of
        Some (Regular script) \<Rightarrow>
          file_content script = (expected, False) \<or> file_content script = (expected @ [LF], False)
      | _ \<Rightarrow> False)"

lemma four_or_five:
  "length e = 4 \<Longrightarrow>
   ((length v = 4 \<or> length v = Suc 4 \<and> v ! 4 = x) \<and> take 4 v = e) \<longleftrightarrow> v = e \<or> v = e @ [x]"
proof -
  assume e: "length e = 4"
  have "v = take 4 v @ drop 4 v" by simp
  moreover have "drop 4 v = [v ! 4]" if "length v = Suc 4"
    using that by (simp add: Cons_nth_drop_Suc [symmetric])
  ultimately have "v = take 4 v @ [v ! 4]" if "length v = Suc 4" using that by metis
  then show ?thesis using e by (auto simp: nth_append)
qed

lemma usb_id_value:
  assumes "length e = USB_ID_LEN"
  shows "((length v = USB_ID_LEN \<or> length v = USB_ID_LEN + 1 \<and> v ! USB_ID_LEN = LF) \<and>
    take USB_ID_LEN v = take USB_ID_LEN e) \<longleftrightarrow> v = e \<or> v = e @ [LF]"
  using four_or_five [of e v LF] assms by (simp add: USB_ID_LEN_def)

lemma read_usb_id_content:
  assumes "length e = USB_ID_LEN"
  shows "(\<exists>v. read_usb_value [] script = Some v \<and> (v = e \<or> v = e @ [LF])) \<longleftrightarrow>
    file_content script = (e, False) \<or> file_content script = (e @ [LF], False)"
proof -
  obtain c err where ce: "file_content script = (c, err)" by fastforce
  have short: "take (USB_ID_LEN + 2) c = x \<longleftrightarrow> c = x" if "length x < USB_ID_LEN + 2" for x
    using that by (metis append_take_drop_id length_take min_def nat_less_le take_all_iff
        linorder_not_less)
  show ?thesis
    using read_usb_value_content [of "[]" script] ce assms short [of e] short [of "e @ [LF]"]
    by (auto simp: Let_def)
qed

lemma read_exact_usb_id_spec:
  assumes "length expected = USB_ID_LEN"
  shows "read_exact_usb_id device attribute expected fds =
    (attribute_is device attribute expected, fds)"
proof -
  note v = usb_id_value [OF assms] and c = read_usb_id_content [OF assms]
  have "(case read_usb_value [] script of None \<Rightarrow> False
      | Some v \<Rightarrow> v = expected \<or> v = expected @ [LF]) \<longleftrightarrow>
    file_content script = (expected, False) \<or> file_content script = (expected @ [LF], False)"
    for script
    using c [of script] by (cases "read_usb_value [] script") auto
  then show ?thesis
    unfolding read_exact_usb_id_def attribute_is_def Let_def v
    by (cases "openat_nofollow device attribute") (simp_all split: fs_node.split)
qed

section \<open>The walk resolves the path without links\<close>

fun resolve :: "fs_node \<Rightarrow> cstring list \<Rightarrow> fs_node option" where
  "resolve dir [] = Some dir"
| "resolve dir (c # cs) =
     (if component_is_canonical c
      then (case openat_dir dir c of None \<Rightarrow> None | Some d \<Rightarrow> resolve d cs) else None)"

lemma split_on_takeWhile:
  "split_on d s = takeWhile (\<lambda>c. c \<noteq> d) s #
     (case dropWhile (\<lambda>c. c \<noteq> d) s of [] \<Rightarrow> [] | _ # r \<Rightarrow> split_on d r)"
  by (induction s) auto

lemma open_components_resolve:
  assumes "rest \<noteq> []" and "last rest \<noteq> CHR ''/''" and "fds = (if current = None then 0 else 1)"
  shows "open_components root current fds rest =
    (let r = resolve (case current of Some d \<Rightarrow> d | None \<Rightarrow> root) (split_on (CHR ''/'') rest)
     in (r, if r = None then 0 else 1))"
  using assms
proof (induction root current fds rest rule: open_components.induct)
  case (1 root current fds rest)
  let ?t = "takeWhile (\<lambda>c. c \<noteq> CHR ''/'') rest" and ?a = "dropWhile (\<lambda>c. c \<noteq> CHR ''/'') rest"
  show ?case
  proof (cases ?a)
    case Nil
    with "1.prems" show ?thesis
      by (subst open_components.simps, subst split_on_takeWhile)
        (auto simp: Let_def simp del: dropWhile_eq_Nil_conv split: option.splits)
  next
    case (Cons x r)
    have tl: "tl ?a = r" using Cons by simp
    have "last rest = last (?t @ ?a)" by (simp only: takeWhile_dropWhile_id)
    then have "last rest = (if r = [] then x else last r)" using Cons by simp
    moreover have "x = CHR ''/''" using Cons hd_dropWhile [of "\<lambda>c. c \<noteq> CHR ''/''" rest] by simp
    ultimately have r: "r \<noteq> []" "last r \<noteq> CHR ''/''" using "1.prems"(2) by (auto split: if_splits)
    have ih: "open_components root (Some d) 1 r =
        (let q = resolve d (split_on (CHR ''/'') r) in (q, if q = None then 0 else 1))"
      if "component_is_canonical ?t"
        "openat_dir (case current of Some d \<Rightarrow> d | None \<Rightarrow> root) ?t = Some d" for d
      using "1.IH" [OF "1.prems"(1) refl refl refl _ that(2)] that r Cons "1.prems"(3)
      by (cases current) (simp_all add: tl)
    note unfold = open_components.simps [of root current fds rest]
      split_on_takeWhile [of "CHR ''/''" rest]
    let ?dir = "case current of Some d \<Rightarrow> d | None \<Rightarrow> root"
    have fds: "(if current \<noteq> None then fds - 1 else fds) = 0" using "1.prems"(3) by auto
    show ?thesis
    proof (cases "component_is_canonical ?t \<and> openat_dir ?dir ?t \<noteq> None")
      case True
      then obtain d where "openat_dir ?dir ?t = Some d" by auto
      with True ih [of d] Cons "1.prems"(1) fds show ?thesis
        unfolding unfold by (simp add: Let_def)
    next
      case False
      with Cons "1.prems"(1) fds show ?thesis
        unfolding unfold by (auto simp: Let_def split: option.splits)
    qed
  qed
qed

section \<open>Properties\<close>

text \<open>A device that attests, read in two pieces with an interruption.\<close>

lemma attest_sample:
  "l850gl_hardware_attest_l850_mbim
     (Some (Dir [(''devices'', Dir [(''usb1'', Dir
        [(''idVendor'', Regular [Read_Bytes ''2c'', Read_EINTR, Read_Bytes (''b7'' @ [LF])]),
         (''idProduct'', Regular [Read_Bytes ''0007''])])])]))
     (Some ''/sys/devices/usb1'') = (True, 0)"
  by code_simp

text \<open>What the attestation promises, without descriptors, buffers and read pieces.\<close>

definition attest_spec :: "fs_node option \<Rightarrow> cstring option \<Rightarrow> bool" where
  "attest_spec sysfs physdev \<longleftrightarrow>
     (case (sysfs, physdev) of
        (Some (Dir es), Some p) \<Rightarrow>
          length p \<le> PHYSDEV_MAX \<and> take 5 p = ''/sys/'' \<and>
          (let comps = split_on (CHR ''/'') (drop 5 p) in
             hd comps = ''devices'' \<and> 2 \<le> length comps \<and>
             (case resolve (Dir es) comps of
                None \<Rightarrow> False
              | Some device \<Rightarrow> attribute_is device ''idVendor'' ''2cb7'' \<and>
                  attribute_is device ''idProduct'' ''0007''))
      | _ \<Rightarrow> False)"

lemma resolve_canonical: "resolve d cs = Some e \<Longrightarrow> c \<in> set cs \<Longrightarrow> component_is_canonical c"
  by (induction cs arbitrary: d) (auto split: if_splits option.splits)

lemma split_on_snoc: "split_on d (s @ [d]) = split_on d s @ [[]]"
  by (induction s) (auto split: list.splits)

lemma last_split_on:
  assumes "s \<noteq> []" and "last s = d"
  shows "[] \<in> set (split_on d s)"
proof -
  from assms have "s = butlast s @ [d]" by (metis append_butlast_last_id)
  then have "split_on d s = split_on d (butlast s) @ [[]]" by (metis split_on_snoc)
  then show ?thesis by simp
qed

lemma take_eq_append: "take n p = a \<Longrightarrow> p = a @ drop n p"
  by (metis append_take_drop_id)

lemma physdev_prefix_split:
  assumes "p = ''/sys/'' @ q"
  shows "take (length SYSFS_PREFIX) p = SYSFS_PREFIX \<longleftrightarrow>
    hd (split_on (CHR ''/'') q) = ''devices'' \<and> 2 \<le> length (split_on (CHR ''/'') q)"
    (is "?l \<longleftrightarrow> ?r")
proof
  assume ?l
  then have "take 8 q = ''devices/''" using assms
    by (simp add: SYSFS_PREFIX_def eval_nat_numeral)
  then obtain r where "q = ''devices'' @ CHR ''/'' # r" using take_eq_append by fastforce
  then show ?r
    using split_on_append [of "CHR ''/''" "''devices''" r]
    by (cases "split_on (CHR ''/'') r") (auto simp del: append_Cons)
next
  let ?t = "takeWhile (\<lambda>c. c \<noteq> CHR ''/'') q" and ?a = "dropWhile (\<lambda>c. c \<noteq> CHR ''/'') q"
  assume ?r
  then have t: "?t = ''devices''" and a: "?a \<noteq> []"
    unfolding split_on_takeWhile [of _ q]
    by (auto split: list.splits simp del: dropWhile_eq_Nil_conv)
  then obtain x r where r: "?a = x # r" by (cases ?a) auto
  then have "x = CHR ''/''" using hd_dropWhile [OF a] by simp
  moreover have "?t @ ?a = q" by (rule takeWhile_dropWhile_id)
  ultimately have "''devices'' @ CHR ''/'' # r = q" unfolding t r by simp
  then show ?l using assms by (auto simp: SYSFS_PREFIX_def)
qed

lemma resolve_last_slash:
  assumes "resolve d (split_on (CHR ''/'') q) \<noteq> None" and "q \<noteq> []"
  shows "last q \<noteq> CHR ''/''"
proof
  assume "last q = CHR ''/''"
  with assms(2) have "[] \<in> set (split_on (CHR ''/'') q)" by (rule last_split_on)
  with assms(1) have "component_is_canonical []" by (auto intro: resolve_canonical)
  then show False by (simp add: component_is_canonical_def)
qed

text \<open>The checks on the string before the walk, given that the path starts with \<open>/sys/\<close>.\<close>

lemma open_physdev_at_sys:
  assumes "length (''/sys/'' @ q) \<le> PHYSDEV_MAX"
  shows "open_physdev_at (Some (Dir es)) (Some (''/sys/'' @ q)) =
    (let comps = split_on (CHR ''/'') q;
         r = (if hd comps = ''devices'' \<and> 2 \<le> length comps
              then resolve (Dir es) comps else None)
     in (r, if r = None then 0 else 1))"
proof (cases "hd (split_on (CHR ''/'') q) = ''devices'' \<and> 2 \<le> length (split_on (CHR ''/'') q)")
  case False
  with physdev_prefix_split [OF refl, of q] show ?thesis
    using assms by (auto simp: open_physdev_at_def physdev_length_def Let_def)
next
  case True
  let ?p = "''/sys/'' @ q"
  from True have q: "q \<noteq> []" by auto
  have pre: "take (length SYSFS_PREFIX) ?p = SYSFS_PREFIX"
    using True physdev_prefix_split [OF refl, of q] by simp
  have last: "?p ! (length ?p - 1) = last q"
    using q by (metis append_is_Nil_conv last_appendR last_conv_nth)
  have len: "length SYSFS_PREFIX < length ?p" if "last q \<noteq> CHR ''/''"
  proof (rule ccontr)
    assume "\<not> length SYSFS_PREFIX < length ?p"
    with pre have "?p = SYSFS_PREFIX" by simp
    then have "last ?p = CHR ''/''" by (simp add: SYSFS_PREFIX_def)
    with q that show False by (simp del: append_Cons)
  qed
  show ?thesis
  proof (cases "last q = CHR ''/''")
    case slash: True
    with resolve_last_slash [of "Dir es" q] q
    have "resolve (Dir es) (split_on (CHR ''/'') q) = None" by blast
    moreover have "open_physdev_at (Some (Dir es)) (Some ?p) = (None, 0)"
      using slash last by (simp add: open_physdev_at_def physdev_length_def)
    ultimately show ?thesis by (simp add: Let_def)
  next
    case False
    have "open_physdev_at (Some (Dir es)) (Some ?p) = open_components (Dir es) None 0 q"
      using assms False pre last len [OF False] q
      by (simp add: open_physdev_at_def physdev_length_def)
    then show ?thesis
      using True False q open_components_resolve [of q 0 None "Dir es"] by simp
  qed
qed

lemma open_physdev_at_other:
  assumes "\<not> (length p \<le> PHYSDEV_MAX \<and> take 5 p = ''/sys/'')"
  shows "open_physdev_at root (Some p) = (None, 0)"
proof -
  have "take (length SYSFS_PREFIX) p \<noteq> SYSFS_PREFIX" if "take 5 p \<noteq> ''/sys/''"
  proof
    assume "take (length SYSFS_PREFIX) p = SYSFS_PREFIX"
    then have "take 5 (take (length SYSFS_PREFIX) p) = ''/sys/''" by (simp add: SYSFS_PREFIX_def)
    then have "take 5 p = ''/sys/''" by (simp add: SYSFS_PREFIX_def eval_nat_numeral)
    with that show False ..
  qed
  with assms show ?thesis
    by (auto simp: open_physdev_at_def physdev_length_def split: option.split fs_node.split)
qed

lemma attest_after_open:
  "attest_l850_mbim_at root p =
     (case open_physdev_at root p of
        (None, fds) \<Rightarrow> (False, fds)
      | (Some device, fds) \<Rightarrow>
          (attribute_is device ''idVendor'' ''2cb7'' \<and> attribute_is device ''idProduct'' ''0007'',
           fds - 1))"
  by (auto simp: attest_l850_mbim_at_def read_exact_usb_id_spec USB_ID_LEN_def Let_def
      split: option.splits prod.splits)

text \<open>C33: The attestation succeeds exactly when the device path is a bounded, link-free path of
  canonical components below /sys/devices whose idVendor is 2cb7 and idProduct is 0007 (with
  at most one line feed after the four digits), however the reads are cut into pieces; and
  every descriptor it opens is closed again on every path.\<close>

theorem attest_l850_mbim_exact:
  "l850gl_hardware_attest_l850_mbim sysfs physdev = (attest_spec sysfs physdev, 0)"
proof (cases "\<exists>es p. sysfs = Some (Dir es) \<and> physdev = Some p")
  case False
  then show ?thesis
    by (auto simp: l850gl_hardware_attest_l850_mbim_def attest_spec_def attest_after_open
        open_physdev_at_def physdev_length_def split: option.splits fs_node.splits)
next
  case True
  then obtain es p where sp: "sysfs = Some (Dir es)" "physdev = Some p" by blast
  show ?thesis
  proof (cases "length p \<le> PHYSDEV_MAX \<and> take 5 p = ''/sys/''")
    case False
    then show ?thesis
      by (auto simp: sp l850gl_hardware_attest_l850_mbim_def attest_spec_def attest_after_open
          open_physdev_at_other [OF False])
  next
    case ok: True
    then obtain q where p: "p = ''/sys/'' @ q" and q: "drop 5 p = q"
      using take_eq_append by blast
    from ok have "length (''/sys/'' @ q) \<le> PHYSDEV_MAX" unfolding p by blast
    note opened = open_physdev_at_sys [OF this, of es, folded p]
    show ?thesis
      using ok
      by (auto simp: sp l850gl_hardware_attest_l850_mbim_def attest_spec_def attest_after_open
          opened q Let_def split: option.split)
  qed
qed

end
