(* ===== verification/Radio_Policy.thy ===== *)
theory Radio_Policy
  imports Ascii
begin

text \<open>
  The band selection policy (\<open>radio_policy.c\<close>): canonical band names and their cellular
  family, the expansion of an LTE selection to a request for every allowed family, and the
  resolution of a request through the bands the modem advertises.
\<close>

section \<open>Data\<close>

definition RADIO_BAND_NAME_MAX :: nat where "RADIO_BAND_NAME_MAX = 48"
definition RADIO_REQUEST_BANDS_MAX :: nat where "RADIO_REQUEST_BANDS_MAX = 64"

definition RADIO_FAMILY_NONE :: u32 where "RADIO_FAMILY_NONE = 0"
definition RADIO_FAMILY_2G :: u32 where "RADIO_FAMILY_2G = 1"
definition RADIO_FAMILY_3G :: u32 where "RADIO_FAMILY_3G = 2"
definition RADIO_FAMILY_4G :: u32 where "RADIO_FAMILY_4G = 4"
definition RADIO_FAMILY_5G :: u32 where "RADIO_FAMILY_5G = 8"

lemmas family_defs = RADIO_FAMILY_NONE_def RADIO_FAMILY_2G_def RADIO_FAMILY_3G_def
  RADIO_FAMILY_4G_def RADIO_FAMILY_5G_def

datatype radio_policy_result =
    POLICY_OK
  | POLICY_INVALID_ARGUMENT
  | POLICY_UNSUPPORTED_BAND
  | POLICY_MODES_UNKNOWN
  | POLICY_FAMILY_MISMATCH

record radio_band =
  band_name :: "cstring option"
  band_value :: u32
  family :: u32

section \<open>Names and families\<close>

definition bounded_length :: "cstring option \<Rightarrow> nat \<Rightarrow> nat option" where
  "bounded_length value maximum =
     (case value of
        None \<Rightarrow> None
      | Some v \<Rightarrow> if length v \<le> maximum then Some (length v) else None)"

text \<open>The loop over the characters; \<open>index\<close> is the position of the first one left.\<close>

fun band_chars_ok :: "nat \<Rightarrow> cstring \<Rightarrow> bool" where
  "band_chars_ok index [] = True"
| "band_chars_ok index (c # cs) =
     (((97 \<le> code c \<and> code c \<le> 122) \<or> (48 \<le> code c \<and> code c \<le> 57) \<or>
       (0 < index \<and> c = CHR ''-'')) \<and> band_chars_ok (index + 1) cs)"

definition radio_band_name_is_canonical :: "cstring option \<Rightarrow> bool" where
  "radio_band_name_is_canonical name =
     (case (bounded_length name RADIO_BAND_NAME_MAX, name) of
        (Some len, Some n) \<Rightarrow>
          if len = 0 then False
          else if \<not> band_chars_ok 0 n then False
          else n ! (len - 1) \<noteq> CHR ''-''
      | _ \<Rightarrow> False)"

definition is_gsm_band :: "cstring \<Rightarrow> bool" where
  "is_gsm_band name \<longleftrightarrow>
     name \<in> set [''egsm'', ''dcs'', ''pcs'', ''g850'', ''g450'', ''g480'', ''g750'',
       ''g380'', ''g410'', ''g710'', ''g810'']"

definition radio_band_family :: "cstring option \<Rightarrow> u32" where
  "radio_band_family name =
     (case name of
        None \<Rightarrow> RADIO_FAMILY_NONE
      | Some n \<Rightarrow>
          if \<not> radio_band_name_is_canonical name \<or> n = ''any'' then RADIO_FAMILY_NONE
          else if is_gsm_band n then RADIO_FAMILY_2G
          else if take 6 n = ''utran-'' then RADIO_FAMILY_3G
          else if take 7 n = ''eutran-'' then RADIO_FAMILY_4G
          else if take 6 n = ''ngran-'' then RADIO_FAMILY_5G
          else RADIO_FAMILY_NONE)"

fun find_supported :: "radio_band list \<Rightarrow> cstring \<Rightarrow> radio_band option" where
  "find_supported [] name = None"
| "find_supported (b # bs) name =
     (if band_name b = Some name then Some b else find_supported bs name)"

section \<open>Expansion of an LTE selection\<close>

text \<open>
  The entries written to \<open>effective\<close> are returned in order, also when the call fails after
  having written some; \<open>effective_count\<close> is \<open>None\<close> while it has not been written. The array
  \<open>supported\<close> has at least \<open>supported_count\<close> elements.
\<close>

fun expand_requested ::
    "cstring option list \<Rightarrow> cstring option list \<Rightarrow> radio_policy_result \<times> cstring option list" where
  "expand_requested [] effective = (POLICY_OK, effective)"
| "expand_requested (r # rs) effective =
     (if radio_band_family r \<noteq> RADIO_FAMILY_4G then (POLICY_INVALID_ARGUMENT, effective)
      else expand_requested rs (effective @ [r]))"

fun expand_supported ::
    "radio_band list \<Rightarrow> u32 \<Rightarrow> cstring option list \<Rightarrow> radio_policy_result \<times> cstring option list" where
  "expand_supported [] allowed effective = (POLICY_OK, effective)"
| "expand_supported (b # bs) allowed effective =
     (if family b = RADIO_FAMILY_4G \<or> family b = RADIO_FAMILY_NONE \<or> family b AND allowed = 0
      then expand_supported bs allowed effective
      else if RADIO_REQUEST_BANDS_MAX \<le> length effective
      then (POLICY_INVALID_ARGUMENT, effective)
      else expand_supported bs allowed (effective @ [band_name b]))"

definition radio_expand_lte_selection ::
    "cstring option list option \<Rightarrow> radio_band list option \<Rightarrow> nat \<Rightarrow> u32 \<Rightarrow>
     radio_policy_result \<times> cstring option list \<times> nat option" where
  "radio_expand_lte_selection requested supported supported_count allowed_families =
     (case (requested, supported) of
        (Some req, Some avail) \<Rightarrow>
          if req = [] \<or> RADIO_REQUEST_BANDS_MAX < length req \<or> supported_count = 0
          then (POLICY_INVALID_ARGUMENT, [], None)
          else if req = [Some ''any''] then (POLICY_OK, req, Some 1)
          else if allowed_families AND RADIO_FAMILY_4G = 0 then (POLICY_FAMILY_MISMATCH, [], None)
          else
            (case expand_requested req [] of
               (POLICY_OK, effective) \<Rightarrow>
                 (case expand_supported (take supported_count avail) allowed_families effective of
                    (POLICY_OK, effective) \<Rightarrow> (POLICY_OK, effective, Some (length effective))
                  | (r, effective) \<Rightarrow> (r, effective, None))
             | (r, effective) \<Rightarrow> (r, effective, None))
      | _ \<Rightarrow> (POLICY_INVALID_ARGUMENT, [], None))"

section \<open>Resolution of a request\<close>

text \<open>\<open>previous\<close> holds the names already accepted, \<open>resolved\<close> the values already written.\<close>

fun resolve_requested ::
    "radio_band list \<Rightarrow> u32 \<Rightarrow> cstring list \<Rightarrow> u32 \<Rightarrow> u32 list \<Rightarrow> cstring option list \<Rightarrow>
     radio_policy_result \<times> u32 list" where
  "resolve_requested supported allowed previous families resolved [] =
     (if families \<noteq> allowed then (POLICY_FAMILY_MISMATCH, resolved) else (POLICY_OK, resolved))"
| "resolve_requested supported allowed previous families resolved (r # rs) =
     (case r of
        None \<Rightarrow> (POLICY_INVALID_ARGUMENT, resolved)
      | Some name \<Rightarrow>
          if \<not> radio_band_name_is_canonical r \<or> name = ''any''
          then (POLICY_INVALID_ARGUMENT, resolved)
          else if name \<in> set previous then (POLICY_INVALID_ARGUMENT, resolved)
          else
            (case find_supported supported name of
               None \<Rightarrow> (POLICY_UNSUPPORTED_BAND, resolved)
             | Some b \<Rightarrow>
                 if family b = RADIO_FAMILY_NONE \<or> family b AND allowed = 0
                 then (POLICY_FAMILY_MISMATCH, resolved)
                 else resolve_requested supported allowed (previous @ [name])
                        (families OR family b) (resolved @ [band_value b]) rs))"

definition radio_resolve_bands ::
    "cstring option list option \<Rightarrow> radio_band list option \<Rightarrow> nat \<Rightarrow> bool \<Rightarrow> u32 \<Rightarrow> u32 \<Rightarrow>
     radio_policy_result \<times> u32 list" where
  "radio_resolve_bands requested supported supported_count current_modes_known allowed_families any_value =
     (case requested of
        None \<Rightarrow> (POLICY_INVALID_ARGUMENT, [])
      | Some req \<Rightarrow>
          (let avail = (case supported of None \<Rightarrow> [] | Some s \<Rightarrow> take supported_count s) in
           if req = [] \<or> RADIO_REQUEST_BANDS_MAX < length req \<or>
              (supported = None \<and> supported_count \<noteq> 0)
           then (POLICY_INVALID_ARGUMENT, [])
           else if \<not> current_modes_known \<or> allowed_families = RADIO_FAMILY_NONE
           then (POLICY_MODES_UNKNOWN, [])
           else if supported_count = 0 then (POLICY_UNSUPPORTED_BAND, [])
           else if req = [Some ''any''] then (POLICY_OK, [any_value])
           else resolve_requested avail allowed_families [] RADIO_FAMILY_NONE [] req))"

section \<open>Families of a list of bands\<close>

definition families_of :: "radio_band list \<Rightarrow> u32" where
  "families_of bs = foldr (\<lambda>b f. family b OR f) bs 0"

lemma families_of_simps [simp]:
  "families_of [] = 0" "families_of (b # bs) = family b OR families_of bs"
  by (simp_all add: families_of_def)

lemma bit_families_of: "bit (families_of bs) n \<longleftrightarrow> (\<exists>b \<in> set bs. bit (family b) n)"
  by (induction bs) (auto simp: bit_or_iff)

lemma families_of_cong: "family ` set bs = family ` set cs \<Longrightarrow> families_of bs = families_of cs"
proof (rule bit_eqI)
  fix n assume eq: "family ` set bs = family ` set cs"
  have "bit (families_of xs) n \<longleftrightarrow> (\<exists>f \<in> family ` set xs. bit f n)" for xs
    by (auto simp: bit_families_of)
  from this [of bs] this [of cs] show "bit (families_of bs) n = bit (families_of cs) n"
    unfolding eq by (rule trans [OF _ sym])
qed

section \<open>Resolution, characterised\<close>

definition resolves_to :: "radio_band list \<Rightarrow> u32 \<Rightarrow> cstring option \<Rightarrow> radio_band \<Rightarrow> bool" where
  "resolves_to supported allowed r b \<longleftrightarrow>
     (\<exists>name. r = Some name \<and> name \<noteq> ''any'' \<and> radio_band_name_is_canonical r \<and>
        find_supported supported name = Some b \<and>
        family b \<noteq> RADIO_FAMILY_NONE \<and> family b AND allowed \<noteq> 0)"

lemma resolve_requested_ok:
  "resolve_requested supported allowed previous families resolved rs = (POLICY_OK, out) \<longleftrightarrow>
     (\<exists>bs. list_all2 (resolves_to supported allowed) rs bs \<and> distinct rs \<and>
        set rs \<inter> Some ` set previous = {} \<and> families OR families_of bs = allowed \<and>
        out = resolved @ map band_value bs)"
  (is "?run \<longleftrightarrow> ?spec rs previous families resolved")
proof (induction rs arbitrary: previous families resolved)
  case Nil
  then show ?case by auto
next
  case (Cons r rs)
  show ?case
  proof (cases "\<exists>b. resolves_to supported allowed r b \<and> the r \<notin> set previous")
    case False
    then show ?thesis
      by (force simp: resolves_to_def list_all2_Cons1 split: option.splits)
  next
    case True
    then obtain b name where b: "resolves_to supported allowed r b" "r = Some name"
      "name \<notin> set previous" "find_supported supported name = Some b"
      by (auto simp: resolves_to_def)
    then have "resolve_requested supported allowed previous families resolved (r # rs) =
      resolve_requested supported allowed (previous @ [name]) (families OR family b)
        (resolved @ [band_value b]) rs"
      by (auto simp: resolves_to_def)
    moreover have "resolves_to supported allowed r c \<longleftrightarrow> c = b" for c
      using b by (auto simp: resolves_to_def)
    ultimately show ?thesis
      using Cons [of "previous @ [name]" "families OR family b" "resolved @ [band_value b]"] b
      by (auto simp: list_all2_Cons1 or.assoc)
  qed
qed

lemma resolve_requested_run:
  assumes "list_all2 (resolves_to supported allowed) rs bs" and "distinct rs"
    and "set rs \<inter> Some ` set previous = {}"
  shows "resolve_requested supported allowed previous families resolved rs =
    (if families OR families_of bs = allowed then POLICY_OK else POLICY_FAMILY_MISMATCH,
     resolved @ map band_value bs)"
  using assms
proof (induction rs bs arbitrary: previous families resolved rule: list_all2_induct)
  case (Cons r rs b bs)
  then obtain name where "r = Some name" by (auto simp: resolves_to_def)
  with Cons.hyps(1) Cons.prems
    Cons.IH [of "previous @ [name]" "families OR family b" "resolved @ [band_value b]"]
  show ?case by (auto simp: resolves_to_def or.assoc)
qed simp

section \<open>Expansion\<close>

definition other_family :: "u32 \<Rightarrow> radio_band \<Rightarrow> bool" where
  "other_family allowed b \<longleftrightarrow> family b \<noteq> RADIO_FAMILY_4G \<and> family b \<noteq> RADIO_FAMILY_NONE \<and>
     family b AND allowed \<noteq> 0"

lemma expand_requested_eq:
  "expand_requested rs eff =
     (if \<forall>r \<in> set rs. radio_band_family r = RADIO_FAMILY_4G then (POLICY_OK, eff @ rs)
      else (POLICY_INVALID_ARGUMENT,
        eff @ takeWhile (\<lambda>r. radio_band_family r = RADIO_FAMILY_4G) rs))"
  by (induction rs arbitrary: eff) auto

lemma expand_supported_eq:
  "length eff \<le> RADIO_REQUEST_BANDS_MAX \<Longrightarrow>
   expand_supported bs allowed eff =
     (let full = eff @ map band_name (filter (other_family allowed) bs) in
      if length full \<le> RADIO_REQUEST_BANDS_MAX then (POLICY_OK, full)
      else (POLICY_INVALID_ARGUMENT, take RADIO_REQUEST_BANDS_MAX full))"
  by (induction bs arbitrary: eff) (auto simp: other_family_def Let_def)

lemma expand_ok:
  "radio_expand_lte_selection (Some req) (Some avail) (length avail) allowed = (POLICY_OK, eff, n) \<longleftrightarrow>
     req \<noteq> [] \<and> avail \<noteq> [] \<and> length req \<le> RADIO_REQUEST_BANDS_MAX \<and>
     (if req = [Some ''any''] then eff = req \<and> n = Some 1
      else allowed AND RADIO_FAMILY_4G \<noteq> 0 \<and>
        (\<forall>r \<in> set req. radio_band_family r = RADIO_FAMILY_4G) \<and>
        eff = req @ map band_name (filter (other_family allowed) avail) \<and>
        length eff \<le> RADIO_REQUEST_BANDS_MAX \<and> n = Some (length eff))"
  by (auto simp: radio_expand_lte_selection_def expand_requested_eq expand_supported_eq Let_def)

text \<open>What ModemManager advertises, once the code has named it: named bands, each once.\<close>

definition advertised :: "radio_band list \<Rightarrow> bool" where
  "advertised avail \<longleftrightarrow> distinct (map band_name avail) \<and>
     list_all (\<lambda>b. band_name b \<noteq> None \<and> family b = radio_band_family (band_name b)) avail"

lemma find_supported_advertised:
  "distinct (map band_name avail) \<Longrightarrow> b \<in> set avail \<Longrightarrow> band_name b = Some name \<Longrightarrow>
   find_supported avail name = Some b"
  by (induction avail) (auto simp: image_iff)

lemma radio_band_family_named:
  "radio_band_family r \<noteq> RADIO_FAMILY_NONE \<Longrightarrow>
   r \<noteq> Some ''any'' \<and> radio_band_name_is_canonical r"
  by (auto simp: radio_band_family_def split: option.splits if_splits)

lemma advertised_resolves:
  assumes "advertised avail" and "b \<in> set avail" and "family b \<noteq> RADIO_FAMILY_NONE"
    and "family b AND allowed \<noteq> 0"
  shows "resolves_to avail allowed (band_name b) b"
proof -
  from assms(1,2) obtain name where name: "band_name b = Some name" "family b = radio_band_family (Some name)"
    by (auto simp: advertised_def list_all_iff)
  with assms find_supported_advertised [of avail b name] radio_band_family_named [of "Some name"]
  show ?thesis by (auto simp: resolves_to_def advertised_def)
qed

section \<open>Properties\<close>

text \<open>C38: A band request is accepted exactly when the modes are known, its size is bounded, and it
  is the single word any, or distinct canonical names, each advertised in an allowed family,
  that together cover exactly the allowed families; the values written are those of the
  advertised bands, in order.\<close>

theorem radio_resolve_bands_exact:
  "radio_resolve_bands (Some req) (Some avail) (length avail) known allowed any_value =
       (POLICY_OK, out) \<longleftrightarrow>
     known \<and> allowed \<noteq> 0 \<and> avail \<noteq> [] \<and> req \<noteq> [] \<and> length req \<le> RADIO_REQUEST_BANDS_MAX \<and>
     (if req = [Some ''any''] then out = [any_value]
      else \<exists>bs. list_all2 (resolves_to avail allowed) req bs \<and> distinct req \<and>
        families_of bs = allowed \<and> out = map band_value bs)"
  using resolve_requested_ok [of avail allowed "[]" 0 "[]" req out]
  by (auto simp: radio_resolve_bands_def RADIO_FAMILY_NONE_def)

text \<open>An LTE selection of advertised bands, once expanded, passes the full-family validator
  exactly when the modem advertises bands covering every allowed family; otherwise the
  validator reports a family mismatch and no other error, and the expanded request fits the
  request buffer.\<close>

lemma radio_expand_then_resolve:
  assumes "advertised avail" and "set req \<subseteq> band_name ` set avail" and "distinct req"
    and "req \<noteq> [Some ''any'']"
    and "radio_expand_lte_selection (Some req) (Some avail) (length avail) allowed =
      (POLICY_OK, eff, n)"
  shows "n = Some (length eff) \<and> length eff \<le> RADIO_REQUEST_BANDS_MAX \<and>
    fst (radio_resolve_bands (Some eff) (Some avail) (length avail) True allowed any_value) =
      (if families_of (filter (\<lambda>b. family b AND allowed \<noteq> 0) avail) = allowed
       then POLICY_OK else POLICY_FAMILY_MISMATCH)"
proof -
  let ?others = "filter (other_family allowed) avail"
  from assms(4,5) have ne: "req \<noteq> []" "avail \<noteq> []" and al: "allowed AND RADIO_FAMILY_4G \<noteq> 0"
    and lte: "\<forall>r \<in> set req. radio_band_family r = RADIO_FAMILY_4G"
    and eff: "eff = req @ map band_name ?others" and len: "length eff \<le> RADIO_REQUEST_BANDS_MAX"
    and n: "n = Some (length eff)"
    by (auto simp: expand_ok)
  have "\<forall>r \<in> set req. \<exists>b. b \<in> set avail \<and> band_name b = r"
    using assms(2) by auto
  then obtain f where f: "\<forall>r \<in> set req. f r \<in> set avail \<and> band_name (f r) = r" by metis
  have fam: "family (f r) = RADIO_FAMILY_4G" if "r \<in> set req" for r
    using that f lte assms(1) by (fastforce simp: advertised_def list_all_iff)
  have req: "list_all2 (resolves_to avail allowed) req (map f req)"
    using f fam al advertised_resolves [OF assms(1)]
    by (fastforce simp: list.rel_map list.rel_refl_strong family_defs and.commute
        intro!: list.rel_refl_strong)
  have oth: "list_all2 (resolves_to avail allowed) (map band_name ?others) ?others"
    using advertised_resolves [OF assms(1)]
    by (auto simp: list.rel_map other_family_def intro!: list.rel_refl_strong)
  have dist: "distinct eff"
    using assms(1,3) lte
    by (fastforce simp: eff advertised_def list_all_iff other_family_def distinct_map
        intro: inj_on_subset)
  let ?allowed = "filter (\<lambda>b. family b AND allowed \<noteq> 0) avail"
  have "family ` set (map f req @ ?others) = family ` set ?allowed" (is "?l = ?r")
  proof
    show "?l \<subseteq> ?r"
      using f fam al by (auto simp: other_family_def and.commute)
    have "family b \<in> ?l" if "b \<in> set ?allowed" for b
    proof (cases "family b = RADIO_FAMILY_4G")
      case True
      with fam [of "hd req"] ne show ?thesis by (cases req) force+
    next
      case False
      with that show ?thesis by (auto simp: other_family_def RADIO_FAMILY_NONE_def)
    qed
    then show "?r \<subseteq> ?l" by blast
  qed
  then have fams: "families_of (map f req @ ?others) = families_of ?allowed"
    by (rule families_of_cong)
  have "eff \<noteq> [Some ''any'']"
    using lte ne radio_band_family_named [of "Some ''any''"]
    by (cases req) (auto simp: eff family_defs)
  moreover have "allowed \<noteq> 0" using al by auto
  ultimately show ?thesis
    using resolve_requested_run [OF list_all2_appendI [OF req oth], of "[]" 0 "[]"]
      dist fams ne len n
    by (simp add: radio_resolve_bands_def eff [symmetric] RADIO_FAMILY_NONE_def)
      (simp add: eff)
qed

end
