(* ===== verification/Sms_Policy.thy ===== *)
theory Sms_Policy
  imports Ascii
begin

text \<open>
  Validation of outgoing messages and the digest that binds a client token to one request
  (\<open>sms_policy.c\<close>). GLib's UTF-8 functions and SHA-256 are parameters; what is proved of the
  digest is the injectivity of the byte string that is hashed.
\<close>

section \<open>Validation\<close>

definition SMS_RECIPIENT_DIGITS_MAX :: nat where "SMS_RECIPIENT_DIGITS_MAX = 20"
definition SMS_OUTBOUND_CHARS_MAX :: nat where "SMS_OUTBOUND_CHARS_MAX = 1600"
definition SMS_OUTBOUND_BYTES_MAX :: nat where "SMS_OUTBOUND_BYTES_MAX = 6400"
definition SMS_SHA256_DIGEST_LEN :: nat where "SMS_SHA256_DIGEST_LEN = 32"

text \<open>The loop counts the digits it has seen.\<close>

fun count_digits :: "nat \<Rightarrow> cstring \<Rightarrow> nat option" where
  "count_digits digits [] = Some digits"
| "count_digits digits (c # cs) = (if \<not> is_digit c then None else count_digits (digits + 1) cs)"

definition sms_recipient_is_valid :: "cstring option \<Rightarrow> bool" where
  "sms_recipient_is_valid recipient =
     (case recipient of
        None \<Rightarrow> False
      | Some r \<Rightarrow>
          if length r = 0 \<or> SMS_RECIPIENT_DIGITS_MAX + 1 < length r then False
          else
            (case count_digits 0 (if r ! 0 = CHR ''+'' then drop 1 r else r) of
               None \<Rightarrow> False
             | Some digits \<Rightarrow> 1 \<le> digits \<and> digits \<le> SMS_RECIPIENT_DIGITS_MAX))"

text \<open>
  GLib's UTF-8 view of a string is a record of parameters: whether \<open>g_utf8_validate\<close> accepts
  it, the code points \<open>g_utf8_get_char\<close> and \<open>g_utf8_next_char\<close> visit (their number is
  \<open>g_utf8_strlen\<close>), and \<open>g_unichar_iscntrl\<close>.
\<close>

record glib_utf8 =
  utf8_validate :: "cstring \<Rightarrow> bool"
  utf8_chars :: "cstring \<Rightarrow> nat list"
  unichar_iscntrl :: "nat \<Rightarrow> bool"

definition sms_outbound_text_is_valid :: "glib_utf8 \<Rightarrow> cstring option \<Rightarrow> bool" where
  "sms_outbound_text_is_valid glib value =
     (case value of
        None \<Rightarrow> False
      | Some v \<Rightarrow>
          if length v = 0 \<or> SMS_OUTBOUND_BYTES_MAX < length v \<or> \<not> utf8_validate glib v then False
          else if length (utf8_chars glib v) = 0 \<or>
                  SMS_OUTBOUND_CHARS_MAX < length (utf8_chars glib v) then False
          else list_all
            (\<lambda>ch. \<not> (unichar_iscntrl glib ch \<and> ch \<noteq> code LF \<and> ch \<noteq> code CR \<and> ch \<noteq> code TAB))
            (utf8_chars glib v))"

section \<open>The request digest\<close>

text \<open>The checksum state is the bytes it has been fed.\<close>

definition bytes_of :: "cstring \<Rightarrow> u8 list" where
  "bytes_of s = map (\<lambda>c. of_nat (code c)) s"

definition encoded_length :: "u64 \<Rightarrow> u8 list" where
  "encoded_length len = rev (map (\<lambda>i. ucast (drop_bit (i * 8) len)) [0..<8])"

definition checksum_add_field :: "u8 list \<Rightarrow> cstring \<Rightarrow> u8 list" where
  "checksum_add_field checksum value =
     checksum @ encoded_length (of_nat (length value)) @ bytes_of value"

definition digest_domain :: cstring where
  "digest_domain = ''l850gl-mm-send-sms-v1''"

definition sms_request_message :: "cstring \<Rightarrow> cstring \<Rightarrow> u8 list" where
  "sms_request_message recipient message_text =
     checksum_add_field
       (checksum_add_field (bytes_of (digest_domain @ [NUL])) recipient) message_text"

text \<open>
  \<open>sha256\<close> is the parameter for GLib's checksum and \<open>allocated\<close> says whether
  \<open>g_checksum_new\<close> returned one; the digest is written only when it did.
\<close>

definition sms_request_digest ::
    "(u8 list \<Rightarrow> u8 list) \<Rightarrow> bool \<Rightarrow> cstring option \<Rightarrow> cstring option \<Rightarrow> bool \<times> u8 list option" where
  "sms_request_digest sha256 allocated recipient message_text =
     (case (recipient, message_text) of
        (Some r, Some t) \<Rightarrow>
          if \<not> allocated then (False, None)
          else (let digest = sha256 (sms_request_message r t) in
                (length digest = SMS_SHA256_DIGEST_LEN, Some digest))
      | _ \<Rightarrow> (False, None))"

definition sms_digest_equal :: "u8 list option \<Rightarrow> u8 list option \<Rightarrow> bool" where
  "sms_digest_equal left right =
     (case (left, right) of
        (Some l, Some r) \<Rightarrow> take SMS_SHA256_DIGEST_LEN l = take SMS_SHA256_DIGEST_LEN r
      | _ \<Rightarrow> False)"

section \<open>The framing is injective\<close>

lemma bytes_of_inject: "bytes_of s = bytes_of t \<longleftrightarrow> s = t"
proof -
  have "inj (\<lambda>c. of_nat (code c) :: u8)"
  proof (rule injI)
    fix c d assume "(of_nat (code c) :: u8) = of_nat (code d)"
    then have "code c = code d"
      using of_nat_word_inject [of "code c" "code d", where 'a = 8] code_less [of c] code_less [of d]
      by simp
    then show "c = d" by (simp add: code_inject)
  qed
  then show ?thesis by (simp add: bytes_of_def inj_map_eq_map)
qed

lemma length_encoded_length [simp]: "length (encoded_length n) = 8"
  by (simp add: encoded_length_def)

lemma encoded_length_inject: "encoded_length m = encoded_length n \<longleftrightarrow> m = n"
proof
  assume "encoded_length m = encoded_length n"
  then have eq: "\<forall>i < 8. (ucast (drop_bit (i * 8) m) :: u8) = ucast (drop_bit (i * 8) n)"
    by (auto simp: encoded_length_def)
  show "m = n"
  proof (rule bit_word_eqI)
    fix k :: nat assume k: "k < LENGTH(64)"
    have "bit x k \<longleftrightarrow> bit (ucast (drop_bit (k div 8 * 8) x) :: u8) (k mod 8)" for x :: u64
      using k by (simp add: bit_ucast_iff bit_drop_bit_eq)
    moreover from k have "k div 8 < 8" by (simp add: div_less_iff_less_mult)
    ultimately show "bit m k \<longleftrightarrow> bit n k" using eq by metis
  qed
qed simp

lemma field_prefix:
  assumes "encoded_length (of_nat (length s)) @ bytes_of s @ x =
      encoded_length (of_nat (length t)) @ bytes_of t @ y"
    and "length s < 2 ^ 64" and "length t < 2 ^ 64"
  shows "s = t \<and> x = y"
proof -
  from assms(1) have "encoded_length (of_nat (length s)) = encoded_length (of_nat (length t))"
    and rest: "bytes_of s @ x = bytes_of t @ y" by simp_all
  then have "(of_nat (length s) :: u64) = of_nat (length t)" by (simp add: encoded_length_inject)
  then have "length s = length t"
    using of_nat_word_inject [of "length s" "length t", where 'a = 64] assms(2,3) by simp
  with rest have "bytes_of s = bytes_of t" "x = y" by (simp_all add: bytes_of_def)
  then show ?thesis by (simp add: bytes_of_inject)
qed

section \<open>Properties\<close>

lemma count_digits_eq:
  "count_digits n s = (if list_all is_digit s then Some (n + length s) else None)"
  by (induction s arbitrary: n) auto

text \<open>A recipient is accepted exactly when it is one to twenty decimal digits, with at most one
  plus sign, in front of them.\<close>

lemma sms_recipient_valid_exact:
  "sms_recipient_is_valid (Some r) \<longleftrightarrow>
     (\<exists>plus digits. r = plus @ digits \<and> (plus = [] \<or> plus = ''+'') \<and> digits \<noteq> [] \<and>
        length digits \<le> 20 \<and> list_all is_digit digits)"
  (is "_ \<longleftrightarrow> ?spec")
proof -
  have plus: "\<not> is_digit (CHR ''+'')" by code_simp
  have "?spec \<longleftrightarrow> (r \<noteq> [] \<and> length r \<le> 20 \<and> list_all is_digit r) \<or>
      (\<exists>ds. r = CHR ''+'' # ds \<and> ds \<noteq> [] \<and> length ds \<le> 20 \<and> list_all is_digit ds)" (is "_ \<longleftrightarrow> ?bare \<or> ?signed")
  proof
    assume "?bare \<or> ?signed"
    then show ?spec
    proof
      assume ?bare
      then show ?spec by (intro exI [of _ "[]"] exI [of _ r]) simp
    next
      assume ?signed
      then obtain ds where "r = CHR ''+'' # ds" "ds \<noteq> []" "length ds \<le> 20" "list_all is_digit ds"
        by blast
      then show ?spec by (intro exI [of _ "''+''"] exI [of _ ds]) simp
    qed
  qed auto
  then show ?thesis
    using plus
    by (cases r) (auto simp: sms_recipient_is_valid_def SMS_RECIPIENT_DIGITS_MAX_def
        count_digits_eq Suc_le_eq)
qed

text \<open>C37: The byte string hashed for a request determines the recipient and the text: two requests
  with the same hashed bytes are the same request, whatever bytes they contain.\<close>

theorem sms_request_message_inject:
  assumes "length r < 2 ^ 64" "length t < 2 ^ 64" "length r' < 2 ^ 64" "length t' < 2 ^ 64"
  shows "sms_request_message r t = sms_request_message r' t' \<longleftrightarrow> r = r' \<and> t = t'"
proof
  assume "sms_request_message r t = sms_request_message r' t'"
  then have eq: "encoded_length (of_nat (length r)) @ bytes_of r @
      encoded_length (of_nat (length t)) @ bytes_of t @ [] =
    encoded_length (of_nat (length r')) @ bytes_of r' @
      encoded_length (of_nat (length t')) @ bytes_of t' @ []"
    by (simp add: sms_request_message_def checksum_add_field_def)
  from field_prefix [OF eq assms(1,3)] field_prefix [of t "[]" t' "[]"] assms(2,4)
  show "r = r' \<and> t = t'" by simp
qed simp

theorem sms_request_message_inject_witness:
  "sms_request_message ''12'' ''3'' \<noteq> sms_request_message ''1'' ''23''"
  using sms_request_message_inject [of "''12''" "''3''" "''1''" "''23''"] by simp

end
