(* ===== verification/Sms_Dedupe.thy ===== *)
theory Sms_Dedupe
  imports Sms_Policy
begin

text \<open>
  The per-modem memory of finished SMS operations: the pure rules of \<open>sms_dedupe_policy.c\<close> and
  the queue operations \<open>sms_dedupe_*\<close> of \<open>ubus_glib.c\<close>. The queue is a list, head first. Each
  reading of the monotonic clock is an argument of its own.
\<close>

section \<open>Policy\<close>

definition SMS_DEDUPE_SECONDS :: nat where "SMS_DEDUPE_SECONDS = 300"
definition SMS_DEDUPE_MAX :: nat where "SMS_DEDUPE_MAX = 64"
definition MICROSECONDS_PER_SECOND :: int where "MICROSECONDS_PER_SECOND = 1000000"

definition sms_dedupe_window :: int where
  "sms_dedupe_window = int SMS_DEDUPE_SECONDS * MICROSECONDS_PER_SECOND"

definition sms_dedupe_expiry :: "int \<Rightarrow> int" where
  "sms_dedupe_expiry now_us =
     (if now_us < 0 then 0
      else if INT64_MAX - sms_dedupe_window < now_us then INT64_MAX
      else now_us + sms_dedupe_window)"

definition sms_dedupe_is_expired :: "int \<Rightarrow> int \<Rightarrow> bool" where
  "sms_dedupe_is_expired expires_at_us now_us \<longleftrightarrow> expires_at_us \<le> now_us"

definition sms_dedupe_evictions_required :: "nat \<Rightarrow> nat" where
  "sms_dedupe_evictions_required current_length =
     (if current_length < SMS_DEDUPE_MAX then 0 else current_length - SMS_DEDUPE_MAX + 1)"

section \<open>The queue\<close>

record sms_dedupe =
  client_token :: cstring
  dedupe_sms_id :: "cstring option"
  dedupe_state :: "cstring option"
  error_code :: "cstring option"
  dedupe_ok :: bool
  retryable :: bool
  has_request_digest :: bool
  request_digest :: "u8 list"
  expires_at :: int

text \<open>The part of a stored operation that the caller provides.\<close>

record sms_outcome =
  out_digest :: "u8 list option"
  out_ok :: bool
  out_sms_id :: "cstring option"
  out_state :: "cstring option"
  out_error_code :: "cstring option"
  out_retryable :: bool

definition sms_dedupe_prune :: "int \<Rightarrow> sms_dedupe list \<Rightarrow> sms_dedupe list" where
  "sms_dedupe_prune now q = filter (\<lambda>e. \<not> sms_dedupe_is_expired (expires_at e) now) q"

definition sms_dedupe_digest_matches :: "sms_dedupe option \<Rightarrow> u8 list option \<Rightarrow> bool" where
  "sms_dedupe_digest_matches entry digest =
     (case (entry, digest) of
        (Some e, Some d) \<Rightarrow> has_request_digest e \<and> sms_digest_equal (Some (request_digest e)) (Some d)
      | _ \<Rightarrow> False)"

text \<open>Lookup prunes first, so it also changes the queue.\<close>

definition sms_dedupe_find ::
    "int \<Rightarrow> sms_dedupe list \<Rightarrow> cstring \<Rightarrow> sms_dedupe option \<times> sms_dedupe list" where
  "sms_dedupe_find now q token =
     (let q' = sms_dedupe_prune now q in (List.find (\<lambda>e. client_token e = token) q', q'))"

definition sms_dedupe_remove :: "int \<Rightarrow> sms_dedupe list \<Rightarrow> cstring \<Rightarrow> sms_dedupe list" where
  "sms_dedupe_remove now q token =
     (case sms_dedupe_find now q token of
        (None, q') \<Rightarrow> q'
      | (Some e, q') \<Rightarrow> remove1 e q')"

text \<open>The eviction loop pops the head while the queue is full.\<close>

function sms_dedupe_evict :: "sms_dedupe list \<Rightarrow> sms_dedupe list" where
  "sms_dedupe_evict q =
     (if 0 < sms_dedupe_evictions_required (length q) then sms_dedupe_evict (tl q) else q)"
  by pat_completeness auto
termination
  by (relation "measure length")
    (auto simp: sms_dedupe_evictions_required_def SMS_DEDUPE_MAX_def split: if_splits)

declare sms_dedupe_evict.simps [simp del]

definition fresh_entry :: "cstring \<Rightarrow> sms_dedupe" where
  "fresh_entry token =
     \<lparr>client_token = token, dedupe_sms_id = None, dedupe_state = None, error_code = None,
      dedupe_ok = False, retryable = False, has_request_digest = False,
      request_digest = replicate SMS_SHA256_DIGEST_LEN 0, expires_at = 0\<rparr>"

definition fill_entry :: "sms_outcome \<Rightarrow> int \<Rightarrow> sms_dedupe \<Rightarrow> sms_dedupe" where
  "fill_entry out now e =
     e\<lparr>dedupe_ok := out_ok out, dedupe_sms_id := out_sms_id out, dedupe_state := out_state out,
       error_code := out_error_code out, retryable := out_retryable out,
       has_request_digest := (out_digest out \<noteq> None),
       request_digest :=
         (case out_digest out of None \<Rightarrow> request_digest e | Some d \<Rightarrow> take SMS_SHA256_DIGEST_LEN d),
       expires_at := sms_dedupe_expiry now\<rparr>"

text \<open>Overwrite the entry the pointer returned by the lookup refers to: the first with the token.\<close>

fun update_first :: "cstring \<Rightarrow> (sms_dedupe \<Rightarrow> sms_dedupe) \<Rightarrow> sms_dedupe list \<Rightarrow> sms_dedupe list" where
  "update_first token f [] = []"
| "update_first token f (e # q) =
     (if client_token e = token then f e # q else e # update_first token f q)"

definition sms_dedupe_store ::
    "int \<Rightarrow> int \<Rightarrow> int \<Rightarrow> sms_dedupe list option \<Rightarrow> cstring option \<Rightarrow> sms_outcome \<Rightarrow>
     sms_dedupe list option" where
  "sms_dedupe_store now1 now2 now3 queue token out =
     (case (queue, token) of
        (Some q, Some t) \<Rightarrow>
          (let q1 = sms_dedupe_prune now1 q;
               (found, q2) = sms_dedupe_find now2 q1 t;
               q3 = (if found = None then sms_dedupe_evict q2 @ [fresh_entry t] else q2)
           in Some (update_first t (fill_entry out now3) q3))
      | _ \<Rightarrow> queue)"

section \<open>Invariant\<close>

definition dedupe_inv :: "sms_dedupe list \<Rightarrow> bool" where
  "dedupe_inv q \<longleftrightarrow> length q \<le> SMS_DEDUPE_MAX \<and> distinct (map client_token q)"

lemma prune_inv: "dedupe_inv q \<Longrightarrow> dedupe_inv (sms_dedupe_prune now q)"
  using length_filter_le [of "\<lambda>e. \<not> sms_dedupe_is_expired (expires_at e) now" q]
  by (auto simp: dedupe_inv_def sms_dedupe_prune_def distinct_map_filter simp del: length_filter_le)

lemma find_inv: "dedupe_inv q \<Longrightarrow> dedupe_inv (snd (sms_dedupe_find now q t))"
  by (simp add: sms_dedupe_find_def Let_def prune_inv)

lemma distinct_map_remove1: "distinct (map f q) \<Longrightarrow> distinct (map f (remove1 e q))"
  by (induction q) (auto dest: set_remove1_subset [THEN subsetD])

lemma remove_inv: "dedupe_inv q \<Longrightarrow> dedupe_inv (sms_dedupe_remove now q t)"
  using find_inv [of q now t]
  by (auto simp: sms_dedupe_remove_def dedupe_inv_def distinct_map_remove1 length_remove1
      split: prod.splits option.splits)

lemma evict_drop: "sms_dedupe_evict q = drop (sms_dedupe_evictions_required (length q)) q"
proof (induction q rule: sms_dedupe_evict.induct)
  case (1 q)
  show ?case
  proof (cases "0 < sms_dedupe_evictions_required (length q)")
    case True
    then have ge: "SMS_DEDUPE_MAX \<le> length q" by (simp add: sms_dedupe_evictions_required_def split: if_splits)
    then have "sms_dedupe_evictions_required (length q) =
        Suc (sms_dedupe_evictions_required (length (tl q)))"
      unfolding sms_dedupe_evictions_required_def SMS_DEDUPE_MAX_def length_tl by auto
    with True 1 show ?thesis by (simp add: sms_dedupe_evict.simps [of q] drop_Suc)
  next
    case False
    then show ?thesis by (simp add: sms_dedupe_evict.simps [of q])
  qed
qed

lemma evict_room: "length (sms_dedupe_evict q) < SMS_DEDUPE_MAX"
  by (simp add: evict_drop sms_dedupe_evictions_required_def SMS_DEDUPE_MAX_def)

lemma length_update_first [simp]: "length (update_first t f q) = length q"
  by (induction q) auto

lemma update_first_tokens:
  "(\<And>e. client_token (f e) = client_token e) \<Longrightarrow>
   map client_token (update_first t f q) = map client_token q"
  by (induction q) auto

lemma fill_token [simp]: "client_token (fill_entry out now e) = client_token e"
  by (simp add: fill_entry_def)

lemma fresh_token [simp]: "client_token (fresh_entry t) = t"
  by (simp add: fresh_entry_def)

lemma find_None: "List.find (\<lambda>e. client_token e = t) q = None \<longleftrightarrow> t \<notin> client_token ` set q"
  by (auto simp: find_None_iff)

lemma store_inv:
  assumes "dedupe_inv q"
  shows "\<exists>q'. sms_dedupe_store now1 now2 now3 (Some q) t out = Some q' \<and> dedupe_inv q'"
proof (cases t)
  case None
  with assms show ?thesis by (simp add: sms_dedupe_store_def)
next
  case (Some tok)
  let ?q2 = "sms_dedupe_prune now2 (sms_dedupe_prune now1 q)"
  have inv: "dedupe_inv ?q2" using assms by (intro prune_inv)
  have evict: "dedupe_inv (sms_dedupe_evict ?q2 @ [fresh_entry tok])"
    if "tok \<notin> client_token ` set ?q2"
    using that inv evict_room [of ?q2] set_drop_subset
    by (auto simp: dedupe_inv_def evict_drop drop_map [symmetric] dest: in_set_dropD)
  have upd: "dedupe_inv (update_first tok (fill_entry out now3) p) \<longleftrightarrow> dedupe_inv p" for p
    by (simp add: dedupe_inv_def update_first_tokens)
  from Some inv evict show ?thesis
    by (simp add: sms_dedupe_store_def sms_dedupe_find_def Let_def upd find_None)
qed

section \<open>A memory with expiry, as its clients see it\<close>

text \<open>
  The interface the SMS operations rely on: what is held and unexpired is found, and looking up
  any token forgets nothing that is unexpired.
\<close>

locale replay_memory =
  fixes inv :: "'q \<Rightarrow> bool"
    and holds :: "'q \<Rightarrow> 'key \<Rightarrow> 'entry \<Rightarrow> bool"
    and expiry :: "'entry \<Rightarrow> int"
    and lookup :: "int \<Rightarrow> 'q \<Rightarrow> 'key \<Rightarrow> 'entry option \<times> 'q"
  assumes lookup_inv: "inv q \<Longrightarrow> inv (snd (lookup now q k))"
    and lookup_holds: "inv q \<Longrightarrow> holds q k e \<Longrightarrow> now < expiry e \<Longrightarrow> fst (lookup now q k) = Some e"
    and lookup_keeps: "inv q \<Longrightarrow> holds q k e \<Longrightarrow> now < expiry e \<Longrightarrow>
      holds (snd (lookup now q j)) k e"
    and lookup_fresh: "inv q \<Longrightarrow> fst (lookup now q k) = Some e \<Longrightarrow> now < expiry e"
begin

definition lookups :: "(int \<times> 'key) list \<Rightarrow> 'q \<Rightarrow> 'q" where
  "lookups ops q = fold (\<lambda>(now, k) q. snd (lookup now q k)) ops q"

lemma lookups_keep:
  "inv q \<Longrightarrow> holds q k e \<Longrightarrow> list_all (\<lambda>(now, j). now < expiry e) ops \<Longrightarrow>
   inv (lookups ops q) \<and> holds (lookups ops q) k e"
proof (induction ops arbitrary: q)
  case (Cons op ops)
  then show ?case
    by (cases op) (simp add: lookups_def lookup_inv lookup_keeps)
qed (simp add: lookups_def)

lemma replay_stable:
  assumes "inv q" and "holds q k e" and "list_all (\<lambda>(now, j). now < expiry e) ops"
    and "now < expiry e"
  shows "fst (lookup now (lookups ops q) k) = Some e"
  using lookups_keep [OF assms(1,2,3)] assms(4) lookup_holds by blast

end

definition dedupe_holds :: "sms_dedupe list \<Rightarrow> cstring \<Rightarrow> sms_dedupe \<Rightarrow> bool" where
  "dedupe_holds q t e \<longleftrightarrow> e \<in> set q \<and> client_token e = t"

lemma find_distinct:
  "distinct (map client_token q) \<Longrightarrow> e \<in> set q \<Longrightarrow>
   List.find (\<lambda>x. client_token x = client_token e) q = Some e"
  by (induction q) (auto simp: image_iff)

lemma find_found: "List.find P q = Some e \<Longrightarrow> e \<in> set q \<and> P e"
  by (auto simp: find_Some_iff)

lemma prune_mem: "e \<in> set (sms_dedupe_prune now q) \<longleftrightarrow> e \<in> set q \<and> now < expires_at e"
  by (auto simp: sms_dedupe_prune_def sms_dedupe_is_expired_def)

lemma find_holds:
  assumes "dedupe_inv q" and "e \<in> set q" and "now < expires_at e"
  shows "fst (sms_dedupe_find now q (client_token e)) = Some e"
  using find_distinct [of "sms_dedupe_prune now q" e] prune_inv [OF assms(1), of now] assms(2,3)
  by (simp add: sms_dedupe_find_def Let_def dedupe_inv_def prune_mem)

interpretation dedupe: replay_memory dedupe_inv dedupe_holds expires_at sms_dedupe_find
proof
  fix q now k e assume "fst (sms_dedupe_find now q k) = Some e"
  then show "now < expires_at e"
    using find_found [of _ "sms_dedupe_prune now q" e]
    by (auto simp: sms_dedupe_find_def Let_def prune_mem)
qed (auto simp: find_inv find_holds dedupe_holds_def, auto simp: sms_dedupe_find_def Let_def prune_mem)

section \<open>Storing\<close>

definition stored_entry :: "sms_outcome \<Rightarrow> int \<Rightarrow> cstring \<Rightarrow> sms_dedupe \<Rightarrow> bool" where
  "stored_entry out now t e \<longleftrightarrow>
     client_token e = t \<and> dedupe_ok e = out_ok out \<and> dedupe_sms_id e = out_sms_id out \<and>
     dedupe_state e = out_state out \<and> error_code e = out_error_code out \<and>
     retryable e = out_retryable out \<and> expires_at e = sms_dedupe_expiry now \<and>
     (if out_digest out = None then \<not> has_request_digest e
      else has_request_digest e \<and> request_digest e = take SMS_SHA256_DIGEST_LEN (the (out_digest out)))"

lemma stored_fill: "client_token e = t \<Longrightarrow> stored_entry out now t (fill_entry out now e)"
  by (auto simp: stored_entry_def fill_entry_def)

lemma update_first_stored:
  "t \<in> client_token ` set q \<Longrightarrow>
   \<exists>e \<in> set (update_first t (fill_entry out now) q). stored_entry out now t e"
  by (induction q) (auto simp: stored_fill)

lemma store_holds:
  assumes "dedupe_inv q"
  shows "\<exists>q' e. sms_dedupe_store now1 now2 now3 (Some q) (Some t) out = Some q' \<and>
    dedupe_inv q' \<and> dedupe_holds q' t e \<and> stored_entry out now3 t e"
proof -
  let ?q2 = "sms_dedupe_prune now2 (sms_dedupe_prune now1 q)"
  let ?q3 = "if t \<notin> client_token ` set ?q2 then sms_dedupe_evict ?q2 @ [fresh_entry t] else ?q2"
  have run: "sms_dedupe_store now1 now2 now3 (Some q) (Some t) out =
      Some (update_first t (fill_entry out now3) ?q3)"
    by (simp add: sms_dedupe_store_def sms_dedupe_find_def Let_def find_None)
  have "t \<in> client_token ` set ?q3" by auto
  from update_first_stored [OF this, of out now3] obtain e where
    "e \<in> set (update_first t (fill_entry out now3) ?q3)" "stored_entry out now3 t e" by blast
  with run store_inv [OF assms, of now1 now2 now3 "Some t" out] show ?thesis
    by (auto simp: dedupe_holds_def stored_entry_def)
qed

section \<open>Properties\<close>

text \<open>Every operation on the memory of SMS operations keeps at most 64 entries and one entry per
  client token, from any memory that has this shape.\<close>

lemma sms_dedupe_invariant:
  assumes "dedupe_inv q"
  shows "dedupe_inv (sms_dedupe_prune now q) \<and> dedupe_inv (snd (sms_dedupe_find now q t)) \<and>
    dedupe_inv (sms_dedupe_remove now q t) \<and>
    (\<exists>q'. sms_dedupe_store now1 now2 now3 (Some q) tok out = Some q' \<and> dedupe_inv q')"
  using assms prune_inv find_inv remove_inv store_inv by blast

text \<open>Once an outcome has been stored under a client token, every lookup of that token before the
  outcome expires returns exactly that outcome, whatever other tokens have been looked up in
  between; and no lookup ever returns an expired entry.\<close>

lemma sms_dedupe_replay:
  assumes "dedupe_inv q" and "now < sms_dedupe_expiry now3"
    and "list_all (\<lambda>(u, j). u < sms_dedupe_expiry now3) ops"
  shows "\<exists>q' e. sms_dedupe_store now1 now2 now3 (Some q) (Some t) out = Some q' \<and>
    stored_entry out now3 t e \<and>
    fst (sms_dedupe_find now (fold (\<lambda>(u, j) p. snd (sms_dedupe_find u p j)) ops q') t) = Some e"
proof -
  from store_holds [OF assms(1), of now1 now2 now3 t out] obtain q' e where
    st: "sms_dedupe_store now1 now2 now3 (Some q) (Some t) out = Some q'"
    "dedupe_inv q'" "dedupe_holds q' t e" "stored_entry out now3 t e" by blast
  from st(4) have "expires_at e = sms_dedupe_expiry now3" by (simp add: stored_entry_def)
  with dedupe.replay_stable [OF st(2,3), of ops now] assms(2,3) st show ?thesis
    by (auto simp: dedupe.lookups_def)
qed

text \<open>The expiry of an entry never overflows: for a clock in range it lies in the range of a
  64-bit integer, is never before the clock, and is the clock plus 300 seconds unless that
  would pass the largest 64-bit value.\<close>

lemma sms_dedupe_expiry_saturates:
  assumes "0 \<le> now" and "now \<le> INT64_MAX"
  shows "int64 (sms_dedupe_expiry now) \<and> now \<le> sms_dedupe_expiry now \<and>
    sms_dedupe_expiry now = min INT64_MAX (now + 300000000)"
  using assms
  by (auto simp: sms_dedupe_expiry_def sms_dedupe_window_def SMS_DEDUPE_SECONDS_def
      MICROSECONDS_PER_SECOND_def INT64_MAX_def INT64_MIN_def int64_def)

end
