(* ===== verification/Numbers.thy ===== *)
theory Numbers
  imports Ascii
begin

text \<open>
  The numeric parsers of the three response grammars. \<open>l850_cell.c\<close> and \<open>l850_ca.c\<close>
  accumulate in 64 bits, \<open>l850_voltage.c\<close> in 32 bits; each checks before it multiplies. Each
  loop is an interpretation of \<open>digit_accumulator\<close>, which gives its exact meaning.
\<close>

section \<open>One step of each loop\<close>

definition uint32_step64 :: "u32 \<Rightarrow> u64 \<Rightarrow> u32 \<Rightarrow> u64 option" where
  "uint32_step64 base result digit =
     (if ucast ((UINT32_MAX - digit) div base) < result then None
      else Some (result * ucast base + ucast digit))"

definition int32_step64 :: "u64 \<Rightarrow> u32 \<Rightarrow> u64 \<Rightarrow> u32 \<Rightarrow> u64 option" where
  "int32_step64 limit base result digit =
     (if (limit - ucast digit) div ucast base < result then None
      else Some (result * ucast base + ucast digit))"

definition uint32_step32 :: "u32 \<Rightarrow> u32 \<Rightarrow> u32 option" where
  "uint32_step32 result digit =
     (if (UINT32_MAX - digit) div 10 < result then None else Some (result * 10 + digit))"

section \<open>The parsers of \<open>l850_cell.c\<close>\<close>

text \<open>The optional 0x or 0X in front selects base 16; the rest are the digits.\<close>

definition has_hex_prefix :: "cstring \<Rightarrow> bool" where
  "has_hex_prefix v \<longleftrightarrow> 2 \<le> length v \<and> v ! 0 = CHR ''0'' \<and> (v ! 1 = CHR ''x'' \<or> v ! 1 = CHR ''X'')"

definition parse_uint32 :: "cstring option \<Rightarrow> u32 option" where
  "parse_uint32 value =
     (case value of
        None \<Rightarrow> None
      | Some v \<Rightarrow>
          if v = [] then None
          else if has_hex_prefix v then
            (if drop 2 v = [] then None
             else map_option ucast (accumulate (uint32_step64 16) (digit_value 16) 0 (drop 2 v)))
          else map_option ucast (accumulate (uint32_step64 10) (digit_value 10) 0 v))"

definition INT32_MAX_64 :: u64 where "INT32_MAX_64 = 2147483647"

text \<open>The signed result of the two's complement conversions at the end of \<open>parse_int32\<close>.\<close>

definition signed_result :: "bool \<Rightarrow> u64 \<Rightarrow> int" where
  "signed_result negative result =
     (if negative \<and> result = INT32_MAX_64 + 1 then - (2 ^ 31)
      else if negative then - (sint (ucast result :: u32)) else sint (ucast result :: u32))"

definition parse_int32 :: "cstring option \<Rightarrow> int option" where
  "parse_int32 value =
     (case value of
        None \<Rightarrow> None
      | Some v \<Rightarrow>
          if v = [] then None
          else
            (let negative = (v ! 0 = CHR ''-''); rest = (if negative then drop 1 v else v);
                 limit = (if negative then INT32_MAX_64 + 1 else INT32_MAX_64)
             in if negative \<and> rest = [] then None
                else if has_hex_prefix rest then
                  (if drop 2 rest = [] then None
                   else map_option (signed_result negative)
                     (accumulate (int32_step64 limit 16) (digit_value 16) 0 (drop 2 rest)))
                else map_option (signed_result negative)
                  (accumulate (int32_step64 limit 10) (digit_value 10) 0 rest)))"

section \<open>The parsers of \<open>l850_ca.c\<close> and \<open>l850_voltage.c\<close>\<close>

definition parse_uint32_decimal :: "cstring option \<Rightarrow> u32 option" where
  "parse_uint32_decimal value =
     (case value of
        None \<Rightarrow> None
      | Some v \<Rightarrow>
          if v = [] then None
          else map_option ucast (accumulate (uint32_step64 10) (digit_value 10) 0 v))"

definition parse_int32_decimal :: "cstring option \<Rightarrow> int option" where
  "parse_int32_decimal value =
     (case value of
        None \<Rightarrow> None
      | Some v \<Rightarrow>
          if v = [] then None
          else
            (let negative = (v ! 0 = CHR ''-''); rest = (if negative then drop 1 v else v);
                 limit = (if negative then INT32_MAX_64 + 1 else INT32_MAX_64)
             in if negative \<and> rest = [] then None
                else map_option (signed_result negative)
                  (accumulate (int32_step64 limit 10) (digit_value 10) 0 rest)))"

definition voltage_parse_uint32_decimal :: "cstring option \<Rightarrow> u32 option" where
  "voltage_parse_uint32_decimal value =
     (case value of
        None \<Rightarrow> None
      | Some v \<Rightarrow> if v = [] then None else accumulate uint32_step32 (digit_value 10) 0 v)"

section \<open>The checks are exact\<close>

lemma checked_le:
  assumes "0 < (b :: nat)" and "d \<le> l"
  shows "r \<le> (l - d) div b \<longleftrightarrow> r * b + d \<le> l"
  using assms by (auto simp: less_eq_div_iff_mult_less_eq)

lemma digit_16: "digit_value base c = Some d \<Longrightarrow> unat d < 16"
  using digit_value_nat [of base c d] by (auto simp: unat_of_nat_small split: if_splits)

lemma UINT32_MAX_minus:
  "unat d < 16 \<Longrightarrow> unat (UINT32_MAX - d) = 4294967295 - unat d"
  by (subst unat_sub_no_underflow) (simp_all add: UINT32_MAX_def)

lemma unat_ucast_64: "unat (ucast (x :: u32) :: u64) = unat x"
  by (simp add: unsigned_ucast_eq take_bit_nat_eq_self less_trans [OF unsigned_less])

lemma step64_law:
  fixes r :: u64 and d base :: u32 and limit :: nat
  assumes "unat r \<le> limit" and "unat d < 16" and "0 < unat base" and "unat base \<le> 16"
    and "16 \<le> limit" and "limit < 2 ^ 33" and "q = (limit - unat d) div unat base"
  shows "map_option unat (if q < unat r then None else Some (r * ucast base + ucast d)) =
    (if unat r * unat base + unat d \<le> limit then Some (unat r * unat base + unat d) else None)"
proof -
  have iff: "q < unat r \<longleftrightarrow> \<not> unat r * unat base + unat d \<le> limit"
    using checked_le [of "unat base" "unat d" limit "unat r"] assms by auto
  have "unat (r * ucast base + ucast d) = unat r * unat base + unat d"
    if "unat r * unat base + unat d \<le> limit"
  proof -
    have lt: "unat r * unat base + unat d < 2 ^ 64" using that assms(6) by simp
    then have "unat (r * ucast base) = unat r * unat base"
      using unat_mult_no_overflow [of r "ucast base"] by (simp add: unat_ucast_64)
    with lt show ?thesis
      using unat_add_no_overflow [of "r * ucast base" "ucast d"] by (simp add: unat_ucast_64)
  qed
  with iff show ?thesis by simp
qed

lemma uint32_step64_law:
  assumes "unat r \<le> 4294967295" and "unat d < 16" and "base = 10 \<or> base = 16"
  shows "map_option unat (uint32_step64 base r d) =
    (if unat r * unat base + unat d \<le> 4294967295 then Some (unat r * unat base + unat d) else None)"
proof -
  have "unat (ucast ((UINT32_MAX - d) div base) :: u64) = (4294967295 - unat d) div unat base"
    using assms(2) by (simp add: unat_ucast_64 unat_div UINT32_MAX_minus)
  with step64_law [of r 4294967295 d base] assms show ?thesis
    by (auto simp: uint32_step64_def word_less_nat_alt)
qed

lemma int32_step64_law:
  assumes "unat r \<le> unat limit" and "unat d < 16" and "base = 10 \<or> base = 16"
    and "limit = INT32_MAX_64 \<or> limit = INT32_MAX_64 + 1"
  shows "map_option unat (int32_step64 limit base r d) =
    (if unat r * unat base + unat d \<le> unat limit then Some (unat r * unat base + unat d) else None)"
proof -
  have l: "16 \<le> unat limit" "unat limit < 2 ^ 33" using assms(4) by (auto simp: INT32_MAX_64_def)
  then have "unat (limit - ucast d) = unat limit - unat d"
    using assms(2) by (subst unat_sub_no_underflow) (simp_all add: unat_ucast_64)
  then have "unat ((limit - ucast d) div ucast base) = (unat limit - unat d) div unat base"
    by (simp add: unat_div unat_ucast_64)
  with step64_law [of r "unat limit" d base] assms l show ?thesis
    by (auto simp: int32_step64_def word_less_nat_alt)
qed

lemma uint32_step32_law:
  assumes "unat d < 16"
  shows "map_option unat (uint32_step32 r d) =
    (if unat r * 10 + unat d \<le> 4294967295 then Some (unat r * 10 + unat d) else None)"
proof -
  have q: "unat ((UINT32_MAX - d) div 10) = (4294967295 - unat d) div 10"
    using assms by (simp add: unat_div UINT32_MAX_minus)
  have iff: "(UINT32_MAX - d) div 10 < r \<longleftrightarrow> \<not> unat r * 10 + unat d \<le> 4294967295"
    using checked_le [of 10 "unat d" 4294967295 "unat r"] assms
    unfolding word_less_nat_alt q by linarith
  have "unat (r * 10 + d) = unat r * 10 + unat d" if le: "unat r * 10 + unat d \<le> 4294967295"
  proof -
    from le have "unat (r * 10) = unat r * 10"
      using unat_mult_no_overflow [of r 10] by simp
    with le show ?thesis using unat_add_no_overflow [of "r * 10" d] by simp
  qed
  with iff show ?thesis by (simp add: uint32_step32_def)
qed

interpretation dec64: digit_accumulator "uint32_step64 10" unat "digit_value 10" 10 4294967295
  by unfold_locales (use uint32_step64_law digit_16 in force)+

interpretation hex64: digit_accumulator "uint32_step64 16" unat "digit_value 16" 16 4294967295
  by unfold_locales (use uint32_step64_law digit_16 in force)+

interpretation dec32: digit_accumulator uint32_step32 unat "digit_value 10" 10 4294967295
  by unfold_locales (use uint32_step32_law digit_16 in force)+

interpretation pos10: digit_accumulator "int32_step64 INT32_MAX_64 10" unat "digit_value 10" 10
  "unat INT32_MAX_64"
  by unfold_locales (use int32_step64_law digit_16 in force)+

interpretation pos16: digit_accumulator "int32_step64 INT32_MAX_64 16" unat "digit_value 16" 16
  "unat INT32_MAX_64"
  by unfold_locales (use int32_step64_law digit_16 in force)+

interpretation neg10: digit_accumulator "int32_step64 (INT32_MAX_64 + 1) 10" unat "digit_value 10" 10
  "unat (INT32_MAX_64 + 1)"
  by unfold_locales (use int32_step64_law digit_16 in force)+

interpretation neg16: digit_accumulator "int32_step64 (INT32_MAX_64 + 1) 16" unat "digit_value 16" 16
  "unat (INT32_MAX_64 + 1)"
  by unfold_locales (use int32_step64_law digit_16 in force)+

section \<open>The numbers denoted\<close>

text \<open>The unbounded meaning of a numeral, the reference the parsers are compared with.\<close>

definition decimal_number :: "cstring \<Rightarrow> nat option" where
  "decimal_number s = (if s = [] then None else digits_value (digit_value 10) 10 0 s)"

definition c_number :: "cstring \<Rightarrow> nat option" where
  "c_number s =
     (if has_hex_prefix s then
        (if drop 2 s = [] then None else digits_value (digit_value 16) 16 0 (drop 2 s))
      else decimal_number s)"

definition signed_number :: "(cstring \<Rightarrow> nat option) \<Rightarrow> cstring \<Rightarrow> int option" where
  "signed_number magnitude s =
     (if s \<noteq> [] \<and> hd s = CHR ''-'' then map_option (\<lambda>n. - int n) (magnitude (tl s))
      else map_option int (magnitude s))"

definition within :: "nat \<Rightarrow> nat option \<Rightarrow> nat option" where
  "within limit n = (case n of None \<Rightarrow> None | Some k \<Rightarrow> if k \<le> limit then Some k else None)"

definition within_int32 :: "int option \<Rightarrow> int option" where
  "within_int32 n =
     (case n of None \<Rightarrow> None
      | Some k \<Rightarrow> if - (2 ^ 31) \<le> k \<and> k \<le> 2 ^ 31 - 1 then Some k else None)"

lemma int32_limits:
  "unat INT32_MAX_64 = 2147483647" "unat (INT32_MAX_64 + 1) = 2147483648"
  by (simp_all add: INT32_MAX_64_def)

lemma accumulators:
  "map_option unat (accumulate (uint32_step64 10) (digit_value 10) 0 s) =
     within 4294967295 (digits_value (digit_value 10) 10 0 s)"
  "map_option unat (accumulate (uint32_step64 16) (digit_value 16) 0 s) =
     within 4294967295 (digits_value (digit_value 16) 16 0 s)"
  "map_option unat (accumulate uint32_step32 (digit_value 10) 0 s) =
     within 4294967295 (digits_value (digit_value 10) 10 0 s)"
  "map_option unat (accumulate (int32_step64 INT32_MAX_64 10) (digit_value 10) 0 s) =
     within 2147483647 (digits_value (digit_value 10) 10 0 s)"
  "map_option unat (accumulate (int32_step64 INT32_MAX_64 16) (digit_value 16) 0 s) =
     within 2147483647 (digits_value (digit_value 16) 16 0 s)"
  "map_option unat (accumulate (int32_step64 (INT32_MAX_64 + 1) 10) (digit_value 10) 0 s) =
     within 2147483648 (digits_value (digit_value 10) 10 0 s)"
  "map_option unat (accumulate (int32_step64 (INT32_MAX_64 + 1) 16) (digit_value 16) 0 s) =
     within 2147483648 (digits_value (digit_value 16) 16 0 s)"
  using dec64.accumulate_correct [of 0 s] hex64.accumulate_correct [of 0 s]
    dec32.accumulate_correct [of 0 s] pos10.accumulate_correct [of 0 s]
    pos16.accumulate_correct [of 0 s] neg10.accumulate_correct [of 0 s]
    neg16.accumulate_correct [of 0 s]
  unfolding int32_limits by (simp_all add: within_def)

lemma unat_ucast_32: "unat (x :: u64) \<le> 4294967295 \<Longrightarrow> unat (ucast x :: u32) = unat x"
  by (simp add: unsigned_ucast_eq take_bit_nat_eq_self)

lemma map_unat_ucast:
  assumes "map_option unat (r :: u64 option) = within 4294967295 n"
  shows "map_option unat (map_option ucast r :: u32 option) = within 4294967295 n"
  using assms by (cases r) (auto simp: within_def unat_ucast_32 split: option.splits if_splits)

lemma sint_ucast_small:
  assumes "unat (x :: u64) \<le> 2147483647"
  shows "sint (ucast x :: u32) = int (unat x)"
proof -
  from assms have "unat (ucast x :: u32) = unat x" by (simp add: unat_ucast_32)
  then have "uint (ucast x :: u32) = int (unat x)" by (metis uint_nat)
  with assms show ?thesis
    unfolding sint_uint by (subst signed_take_bit_int_eq_self) (simp_all del: of_nat_unat)
qed

lemma signed_result_pos:
  assumes "map_option unat r = within 2147483647 n"
  shows "map_option (signed_result False) r = within_int32 (map_option int n)"
proof (cases r)
  case (Some x)
  then have "n = Some (unat x)" "unat x \<le> 2147483647"
    using assms by (auto simp: within_def split: option.splits if_splits)
  then show ?thesis
    using Some by (simp add: signed_result_def within_int32_def sint_ucast_small del: of_nat_unat)
qed (use assms in \<open>auto simp: within_def within_int32_def split: option.splits if_splits\<close>)

lemma signed_result_neg:
  assumes "map_option unat r = within 2147483648 n"
  shows "map_option (signed_result True) r = within_int32 (map_option (\<lambda>k. - int k) n)"
proof (cases r)
  case (Some x)
  then have n: "n = Some (unat x)" "unat x \<le> 2147483648"
    using assms by (auto simp: within_def split: option.splits if_splits)
  have top: "x = INT32_MAX_64 + 1 \<longleftrightarrow> unat x = 2147483648"
    by (auto simp: INT32_MAX_64_def word_unat_eq_iff)
  show ?thesis
  proof (cases "unat x = 2147483648")
    case True
    with n top Some show ?thesis by (simp add: signed_result_def within_int32_def)
  next
    case False
    with n top Some show ?thesis
      by (simp add: signed_result_def within_int32_def sint_ucast_small del: of_nat_unat)
  qed
qed (use assms in \<open>auto simp: within_def within_int32_def split: option.splits if_splits\<close>)

lemma parse_uint32_decimal_exact:
  "map_option unat (parse_uint32_decimal (Some s)) = within 4294967295 (decimal_number s)"
  using map_unat_ucast [OF accumulators(1)]
  by (simp add: parse_uint32_decimal_def decimal_number_def within_def)

section \<open>Properties\<close>

text \<open>The numeric fields of cell and NVM responses are read exactly: a string is accepted if and
  only if it is a non-empty decimal or 0x-prefixed hexadecimal numeral whose value fits 32
  bits, and the result is that value; nothing wraps.\<close>

lemma parse_uint32_exact:
  "map_option unat (parse_uint32 (Some s)) = within 4294967295 (c_number s)"
proof -
  have "s = [] \<Longrightarrow> \<not> has_hex_prefix s" by (simp add: has_hex_prefix_def)
  then show ?thesis
    using map_unat_ucast [OF accumulators(1)] map_unat_ucast [OF accumulators(2)]
    by (auto simp: parse_uint32_def c_number_def decimal_number_def within_def)
qed

text \<open>The signed field is read exactly: the parser returns the value of an optionally negative
  decimal or hexadecimal numeral if it lies between -2147483648 and 2147483647, and rejects
  everything else.\<close>

lemma parse_int32_exact:
  "parse_int32 (Some s) = within_int32 (signed_number c_number s)"
proof (cases "s = []")
  case False
  then have hd: "s ! 0 = hd s" by (simp add: hd_conv_nth)
  have "tl s = [] \<Longrightarrow> \<not> has_hex_prefix (tl s)" by (simp add: has_hex_prefix_def)
  moreover note signed_result_pos [OF accumulators(4)] signed_result_pos [OF accumulators(5)]
    signed_result_neg [OF accumulators(6)] signed_result_neg [OF accumulators(7)]
  ultimately show ?thesis
    using False hd
    by (auto simp: parse_int32_def signed_number_def c_number_def decimal_number_def Let_def
        drop_Suc within_int32_def)
qed (simp add: parse_int32_def signed_number_def c_number_def decimal_number_def
    has_hex_prefix_def within_int32_def)

text \<open>The 32-bit accumulator of the voltage parser and the 64-bit accumulator of the
  carrier parser compute the same function on every string: the narrower one never wraps.\<close>

lemma voltage_parser_equals_64bit:
  "voltage_parse_uint32_decimal v = parse_uint32_decimal v"
proof (cases v)
  case (Some s)
  have "map_option unat (voltage_parse_uint32_decimal v) = map_option unat (parse_uint32_decimal v)"
    using accumulators(3) map_unat_ucast [OF accumulators(1)]
    by (simp add: Some voltage_parse_uint32_decimal_def parse_uint32_decimal_def)
  then show ?thesis
    by (cases "voltage_parse_uint32_decimal v"; cases "parse_uint32_decimal v")
      (auto simp: word_unat_eq_iff)
qed (simp add: voltage_parse_uint32_decimal_def parse_uint32_decimal_def)

end
