(* ===== verification/Cell.thy ===== *)
theory Cell
  imports Numbers
begin

text \<open>
  The cell scan and frequency lock grammar of the modem (\<open>l850_cell.c\<close>): parsing of the
  \<open>+XMCI\<close> scan and of the NVM lock registers, the commands that set and clear the lock, the
  comparison of a lock with a request, and the scan cool-down. A failed allocation is the
  argument \<open>allocated\<close>; an out parameter is passed in and returned, so that a call which leaves
  it alone can be told from one that clears it.
\<close>

section \<open>Constants and data\<close>

definition LTE_FIELD_COUNT :: nat where "LTE_FIELD_COUNT = 14"
definition CELL_MAX_RESPONSE :: nat where "CELL_MAX_RESPONSE = 16384"
definition CELL_MAX_RESULTS :: nat where "CELL_MAX_RESULTS = 64"
definition CELL_SCAN_COOLDOWN_SECONDS :: nat where "CELL_SCAN_COOLDOWN_SECONDS = 5"
definition NVM_MAX_RESPONSE :: nat where "NVM_MAX_RESPONSE = 512"
definition COMMAND_MAX :: nat where "COMMAND_MAX = 96"
definition PCI_WILDCARD :: u16 where "PCI_WILDCARD = 65535"
definition CLEAR_FREQUENCY :: u32 where "CLEAR_FREQUENCY = 65535"

datatype cell_parse_result =
    CELL_OK | CELL_EMPTY | CELL_OVERSIZED | CELL_MALFORMED | CELL_UNSUPPORTED_TYPE
  | CELL_SENTINEL | CELL_RANGE | CELL_TOO_MANY

datatype l850_state =
    STATE_AVAILABLE | STATE_UNSUPPORTED_BUILD | STATE_UNSUPPORTED_PROTOCOL | STATE_SCAN_READY
  | STATE_LOCK_APPLIED_RESET_REQUIRED | STATE_RESETTING | STATE_APPLIED_VERIFIED
  | STATE_CLEARED_VERIFIED | STATE_REPROBE_TIMEOUT | STATE_REGISTRATION_TIMEOUT
  | STATE_VERIFICATION_MISMATCH | STATE_OUTCOME_UNKNOWN

record cell =
  cell_type :: u8
  serving :: bool
  cell_earfcn :: u32
  cell_pci :: u16
  cell_band :: u16
  rsrp_dbm :: int
  rsrq_tenths_db :: int

text \<open>The first \<open>length\<close> entries of the array; the rest is zero.\<close>

type_synonym cell_scan = "cell list"

record lock_state =
  enabled :: bool
  has_pci :: bool
  lock_earfcn :: u32
  lock_pci :: u16
  lock_band :: u16

definition zero_lock :: lock_state where
  "zero_lock = \<lparr>enabled = False, has_pci = False, lock_earfcn = 0, lock_pci = 0, lock_band = 0\<rparr>"

section \<open>Bands\<close>

definition earfcn_ranges :: "(u32 \<times> u32 \<times> u16) list" where
  "earfcn_ranges = [
    (0, 599, 1), (600, 1199, 2), (1200, 1949, 3), (1950, 2399, 4), (2400, 2649, 5),
    (2650, 2749, 6), (2750, 3449, 7), (3450, 3799, 8), (3800, 4149, 9), (4150, 4749, 10),
    (4750, 4949, 11), (5010, 5179, 12), (5180, 5279, 13), (5280, 5379, 14), (5730, 5849, 17),
    (5850, 5999, 18), (6000, 6149, 19), (6150, 6449, 20), (6450, 6599, 21), (6600, 7399, 22),
    (7500, 7699, 23), (7700, 8039, 24), (8040, 8689, 25), (8690, 9039, 26), (9040, 9209, 27),
    (9210, 9659, 28), (9660, 9769, 29), (9770, 9869, 30), (9870, 9919, 31), (9920, 10359, 32),
    (36000, 36199, 33), (36200, 36349, 34), (36350, 36949, 35), (36950, 37549, 36),
    (37550, 37749, 37), (37750, 38249, 38), (38250, 38649, 39), (38650, 39649, 40),
    (39650, 41589, 41), (41590, 43589, 42), (43590, 45589, 43), (45590, 46589, 44),
    (46590, 46789, 45), (46790, 54539, 46), (54540, 55239, 47), (55240, 56739, 48),
    (65536, 66435, 65), (66436, 67335, 66), (67336, 67535, 67), (67536, 67835, 68),
    (67836, 68335, 69), (68336, 68585, 70), (68586, 68935, 71), (68936, 68985, 72),
    (68986, 69035, 73), (69036, 69465, 74), (69466, 70315, 75), (70316, 70365, 76),
    (70366, 70545, 85)
  ]"

fun range_lookup :: "(u32 \<times> u32 \<times> u16) list \<Rightarrow> u32 \<Rightarrow> u16 option" where
  "range_lookup [] earfcn = None"
| "range_lookup ((lo, hi, band) # rs) earfcn =
     (if lo \<le> earfcn \<and> earfcn \<le> hi then Some band else range_lookup rs earfcn)"

definition earfcn_to_band :: "u32 \<Rightarrow> u16 option" where
  "earfcn_to_band earfcn = range_lookup earfcn_ranges earfcn"

text \<open>\<open>"eutran-%u"\<close> of a 16-bit number always fits the 24 bytes of the buffer.\<close>

definition band_is_supported :: "u16 \<Rightarrow> cstring option list option \<Rightarrow> bool" where
  "band_is_supported band supported_bands =
     (case supported_bands of
        None \<Rightarrow> False
      | Some bands \<Rightarrow> Some (''eutran-'' @ show_u (unat band)) \<in> set bands)"

section \<open>One line of a scan\<close>

definition unquote_numeric_token :: "cstring \<Rightarrow> cstring option" where
  "unquote_numeric_token value =
     (let v = trim_ascii value in
      if v = [] then None
      else if v ! 0 \<noteq> QUOTE then (if QUOTE \<in> set v then None else Some v)
      else if length v < 3 \<or> last v \<noteq> QUOTE then None
      else
        (let w = tl (butlast v) in
         if w = [] \<or> QUOTE \<in> set w \<or> is_blank (hd w) \<or> is_blank (last w) then None else Some w))"

text \<open>The loop over the comma separated fields; \<open>count\<close> is the number already stored.\<close>

fun collect_fields :: "nat \<Rightarrow> nat \<Rightarrow> cstring list \<Rightarrow> cstring list option" where
  "collect_fields limit count [] = Some []"
| "collect_fields limit count (piece # pieces) =
     (if limit \<le> count then None
      else
        (let f = trim_ascii piece in
         if f = [] then None
         else map_option (\<lambda>fs. f # fs) (collect_fields limit (count + 1) pieces)))"

fun unquote_all :: "cstring list \<Rightarrow> cstring list option" where
  "unquote_all [] = Some []"
| "unquote_all (f # fs) =
     (case unquote_numeric_token f of
        None \<Rightarrow> None
      | Some g \<Rightarrow> map_option (\<lambda>gs. g # gs) (unquote_all fs))"

text \<open>Every field but the one at \<open>skip\<close> is an unsigned number; its place holds zero.\<close>

fun parse_values ::
    "(cstring option \<Rightarrow> u32 option) \<Rightarrow> nat \<Rightarrow> nat \<Rightarrow> cstring list \<Rightarrow> u32 list option" where
  "parse_values parse skip index [] = Some []"
| "parse_values parse skip index (f # fs) =
     (if index = skip then map_option (\<lambda>vs. 0 # vs) (parse_values parse skip (index + 1) fs)
      else
        (case parse (Some f) of
           None \<Rightarrow> None
         | Some v \<Rightarrow> map_option (\<lambda>vs. v # vs) (parse_values parse skip (index + 1) fs)))"

text \<open>The checks on the fourteen numbers of a line, and the cell they describe.\<close>

definition cell_in_range :: "u32 list \<Rightarrow> int \<Rightarrow> bool" where
  "cell_in_range values rssnr \<longleftrightarrow>
     \<not> (999 < values ! 1 \<or> 999 < values ! 2 \<or> 65535 < values ! 3 \<or>
        (0x0fffffff < values ! 4 \<and> values ! 4 \<noteq> UINT32_MAX) \<or>
        (262143 < values ! 7 \<and> values ! 7 \<noteq> UINT32_MAX) \<or>
        (254 < values ! 8 \<and> values ! 8 \<noteq> UINT32_MAX) \<or>
        97 < values ! 9 \<or> 34 < values ! 10 \<or>
        (rssnr < -255 \<or> 255 < rssnr) \<or>
        (1282 < values ! 12 \<and> values ! 12 \<noteq> 2147483647) \<or>
        15 < values ! 13)"

definition cell_of_values :: "u32 list \<Rightarrow> int \<Rightarrow> cell_parse_result \<times> cell option" where
  "cell_of_values values rssnr =
     (let type = values ! 0; pci = values ! 5 in
      if type \<noteq> 4 \<and> type \<noteq> 5 then (CELL_UNSUPPORTED_TYPE, None)
      else if pci = UINT32_MAX \<or> values ! 6 = UINT32_MAX \<or>
        values ! 9 = 255 \<or> values ! 10 = 255 then (CELL_SENTINEL, None)
      else if 503 < pci then (CELL_RANGE, None)
      else
        (case earfcn_to_band (values ! 6) of
           None \<Rightarrow> (CELL_RANGE, None)
         | Some band \<Rightarrow>
             if \<not> cell_in_range values rssnr then (CELL_RANGE, None)
             else (CELL_OK, Some
               \<lparr>cell_type = ucast type, serving = (type = 4), cell_earfcn = values ! 6,
                cell_pci = ucast pci, cell_band = band,
                rsrp_dbm = int (unat (values ! 9)) - 141,
                rsrq_tenths_db = int (unat (values ! 10)) * 5 - 195\<rparr>)))"

definition parse_cell_line :: "cstring \<Rightarrow> cell_parse_result \<times> cell option" where
  "parse_cell_line line =
     (if take 6 line \<noteq> ''+XMCI:'' then (CELL_MALFORMED, None)
      else
        (case collect_fields LTE_FIELD_COUNT 0 (split_on (CHR '','') (trim_ascii (drop 6 line))) of
           None \<Rightarrow> (CELL_MALFORMED, None)
         | Some parts \<Rightarrow>
             if length parts \<noteq> LTE_FIELD_COUNT then (CELL_MALFORMED, None)
             else
               (case unquote_all parts of
                  None \<Rightarrow> (CELL_MALFORMED, None)
                | Some tokens \<Rightarrow>
                    (case (parse_values parse_uint32 11 0 tokens, parse_int32 (Some (tokens ! 11))) of
                       (Some values, Some rssnr) \<Rightarrow> cell_of_values values rssnr
                     | _ \<Rightarrow> (CELL_MALFORMED, None)))))"

section \<open>The scan\<close>

record scan_loop =
  ok_seen :: bool
  serving_seen :: bool
  scanned :: cell_scan

text \<open>The body of the loop over the lines; the second component says whether it goes on.\<close>

definition scan_line :: "scan_loop \<Rightarrow> cstring \<Rightarrow> cell_parse_result \<times> scan_loop" where
  "scan_line s line =
     (let current = response_line line in
      if current = [] then (CELL_OK, s)
      else if current = ''OK'' then
        (if ok_seen s then (CELL_MALFORMED, s) else (CELL_OK, s\<lparr>ok_seen := True\<rparr>))
      else if ok_seen s \<or> CELL_MAX_RESULTS \<le> length (scanned s) then
        (if CELL_MAX_RESULTS \<le> length (scanned s) then CELL_TOO_MANY else CELL_MALFORMED, s)
      else
        (case parse_cell_line current of
           (CELL_OK, Some c) \<Rightarrow>
             if serving c \<and> serving_seen s then (CELL_MALFORMED, s)
             else (CELL_OK, s\<lparr>serving_seen := serving_seen s \<or> serving c,
                              scanned := scanned s @ [c]\<rparr>)
         | (r, _) \<Rightarrow> (r, s)))"

fun scan_lines :: "scan_loop \<Rightarrow> cstring list \<Rightarrow> cell_parse_result \<times> scan_loop" where
  "scan_lines s [] = (CELL_OK, s)"
| "scan_lines s (line # rest) =
     (case scan_line s line of
        (CELL_OK, s') \<Rightarrow> scan_lines s' rest
      | (r, s') \<Rightarrow> (r, s'))"

definition cell_parse ::
    "bool \<Rightarrow> buffer \<Rightarrow> cell_scan option \<Rightarrow> cell_parse_result \<times> cell_scan option" where
  "cell_parse allocated response scan =
     (case (response, scan) of
        (Some bytes, Some _) \<Rightarrow>
          if bytes = [] then (CELL_EMPTY, scan)
          else if CELL_MAX_RESPONSE < length bytes then (CELL_OVERSIZED, scan)
          else if \<not> allocated then (CELL_MALFORMED, Some [])
          else if NUL \<in> set bytes then (CELL_MALFORMED, Some [])
          else
            (case scan_lines \<lparr>ok_seen = False, serving_seen = False, scanned = []\<rparr>
                    (split_on LF bytes) of
               (CELL_OK, s) \<Rightarrow>
                 if length (scanned s) = 0 then (CELL_EMPTY, Some []) else (CELL_OK, Some (scanned s))
             | (r, _) \<Rightarrow> (r, Some []))
      | _ \<Rightarrow> (CELL_EMPTY, scan))"

section \<open>The lock registers\<close>

definition nvm_keys :: "cstring list" where
  "nvm_keys = [''frequency'', ''rat'', ''psc_or_pci'', ''band_info'', ''inter_freq_lock_support'']"

definition NVM_FIELD_COUNT :: nat where "NVM_FIELD_COUNT = 5"

record nvm_loop =
  nvm_values :: "u32 list"
  nvm_seen :: "bool list"
  parsed_count :: nat

fun key_index :: "cstring list \<Rightarrow> cstring \<Rightarrow> nat" where
  "key_index [] key = 0"
| "key_index (k # ks) key = (if key = k then 0 else Suc (key_index ks key))"

definition nvm_line :: "nvm_loop \<Rightarrow> cstring \<Rightarrow> nvm_loop option" where
  "nvm_line s raw =
     (let line = response_line raw in
      if line = [] then Some s
      else
        (case split_on (CHR ''='') line of
           [left, right] \<Rightarrow>
             (let key = trim_ascii left; value = trim_ascii right; index = key_index nvm_keys key in
              if index = NVM_FIELD_COUNT \<or> nvm_seen s ! index then None
              else
                (case parse_uint32 (Some value) of
                   None \<Rightarrow> None
                 | Some v \<Rightarrow>
                     Some (s\<lparr>nvm_values := (nvm_values s)[index := v],
                             nvm_seen := (nvm_seen s)[index := True],
                             parsed_count := parsed_count s + 1\<rparr>)))
         | _ \<Rightarrow> None))"

fun nvm_lines :: "nvm_loop \<Rightarrow> cstring list \<Rightarrow> nvm_loop option" where
  "nvm_lines s [] = Some s"
| "nvm_lines s (line # rest) =
     (case nvm_line s line of None \<Rightarrow> None | Some s' \<Rightarrow> nvm_lines s' rest)"

text \<open>The checks after the loop, on the five register values.\<close>

definition nvm_decide :: "u32 list \<Rightarrow> cell_parse_result \<times> lock_state" where
  "nvm_decide values =
     (let frequency = values ! 0; rat = values ! 1; pci = values ! 2; band_info = values ! 3;
          inter_frequency = values ! 4
      in if 65535 < pci \<or> 1 < inter_frequency then (CELL_RANGE, zero_lock)
         else if inter_frequency = 0 then
           (if frequency \<noteq> CLEAR_FREQUENCY \<or> pci \<noteq> 65535 \<or> (rat \<noteq> 3 \<and> rat \<noteq> 255) \<or>
               (band_info \<noteq> 0 \<and> band_info \<noteq> 255)
            then (CELL_MALFORMED, zero_lock)
            else (CELL_OK, zero_lock\<lparr>enabled := False, lock_earfcn := CLEAR_FREQUENCY,
                                     lock_pci := PCI_WILDCARD\<rparr>))
         else
           (case earfcn_to_band frequency of
              Some band \<Rightarrow>
                if rat \<noteq> 3 \<or> (503 < pci \<and> pci \<noteq> 65535)
                then (if frequency = CLEAR_FREQUENCY \<or> pci = UINT32_MAX
                      then CELL_SENTINEL else CELL_RANGE, zero_lock)
                else if band_info \<noteq> 0 \<and> band_info \<noteq> 255 \<and> band_info \<noteq> ucast band
                then (CELL_RANGE, zero_lock)
                else (CELL_OK, \<lparr>enabled = True, has_pci = (ucast pci \<noteq> PCI_WILDCARD),
                                lock_earfcn = frequency, lock_pci = ucast pci,
                                lock_band = band\<rparr>)
            | None \<Rightarrow>
                (if frequency = CLEAR_FREQUENCY \<or> pci = UINT32_MAX
                 then CELL_SENTINEL else CELL_RANGE, zero_lock)))"

definition nvm_parse ::
    "bool \<Rightarrow> buffer \<Rightarrow> lock_state option \<Rightarrow> cell_parse_result \<times> lock_state option" where
  "nvm_parse allocated response state =
     (case (response, state) of
        (Some bytes, Some _) \<Rightarrow>
          if bytes = [] then (CELL_EMPTY, state)
          else if NVM_MAX_RESPONSE < length bytes then (CELL_OVERSIZED, state)
          else if \<not> allocated then (CELL_MALFORMED, Some zero_lock)
          else if NUL \<in> set bytes then (CELL_MALFORMED, Some zero_lock)
          else
            (case nvm_lines \<lparr>nvm_values = replicate NVM_FIELD_COUNT 0,
                             nvm_seen = replicate NVM_FIELD_COUNT False, parsed_count = 0\<rparr>
                    (split_on LF bytes) of
               None \<Rightarrow> (CELL_MALFORMED, Some zero_lock)
             | Some s \<Rightarrow>
                 if parsed_count s \<noteq> NVM_FIELD_COUNT
                 then (if parsed_count s = 0 then CELL_EMPTY else CELL_MALFORMED, Some zero_lock)
                 else
                   (case nvm_decide (nvm_values s) of
                      (CELL_OK, st) \<Rightarrow> (CELL_OK, Some st)
                    | (r, _) \<Rightarrow> (r, Some zero_lock)))
      | _ \<Rightarrow> (CELL_EMPTY, state))"

section \<open>Names, transitions, commands\<close>

fun cell_parse_result_name :: "cell_parse_result \<Rightarrow> cstring" where
  "cell_parse_result_name CELL_OK = ''ok''"
| "cell_parse_result_name CELL_EMPTY = ''empty''"
| "cell_parse_result_name CELL_OVERSIZED = ''oversized''"
| "cell_parse_result_name CELL_MALFORMED = ''malformed''"
| "cell_parse_result_name CELL_UNSUPPORTED_TYPE = ''unsupported_type''"
| "cell_parse_result_name CELL_SENTINEL = ''sentinel''"
| "cell_parse_result_name CELL_RANGE = ''range''"
| "cell_parse_result_name CELL_TOO_MANY = ''too_many''"

fun l850_state_name :: "l850_state \<Rightarrow> cstring" where
  "l850_state_name STATE_AVAILABLE = ''available''"
| "l850_state_name STATE_UNSUPPORTED_BUILD = ''unsupported_build''"
| "l850_state_name STATE_UNSUPPORTED_PROTOCOL = ''unsupported_protocol''"
| "l850_state_name STATE_SCAN_READY = ''scan_ready''"
| "l850_state_name STATE_LOCK_APPLIED_RESET_REQUIRED = ''lock_applied_reset_required''"
| "l850_state_name STATE_RESETTING = ''resetting''"
| "l850_state_name STATE_APPLIED_VERIFIED = ''applied_verified''"
| "l850_state_name STATE_CLEARED_VERIFIED = ''cleared_verified''"
| "l850_state_name STATE_REPROBE_TIMEOUT = ''reprobe_timeout''"
| "l850_state_name STATE_REGISTRATION_TIMEOUT = ''registration_timeout''"
| "l850_state_name STATE_VERIFICATION_MISMATCH = ''verification_mismatch''"
| "l850_state_name STATE_OUTCOME_UNKNOWN = ''outcome_unknown''"

definition state_transition_is_valid :: "l850_state \<Rightarrow> l850_state \<Rightarrow> bool" where
  "state_transition_is_valid from to =
     (if from = STATE_AVAILABLE then to = STATE_SCAN_READY
      else if from = STATE_SCAN_READY then
        to = STATE_LOCK_APPLIED_RESET_REQUIRED \<or> to = STATE_OUTCOME_UNKNOWN
      else if from = STATE_LOCK_APPLIED_RESET_REQUIRED then
        to = STATE_RESETTING \<or> to = STATE_OUTCOME_UNKNOWN
      else if from = STATE_RESETTING then
        to = STATE_APPLIED_VERIFIED \<or> to = STATE_CLEARED_VERIFIED \<or>
        to = STATE_REPROBE_TIMEOUT \<or> to = STATE_REGISTRATION_TIMEOUT \<or>
        to = STATE_VERIFICATION_MISMATCH \<or> to = STATE_OUTCOME_UNKNOWN
      else False)"

text \<open>
  \<open>snprintf\<close> writes the text and its terminator when they fit; otherwise the code empties the
  buffer. The result is the return value and the string in the buffer, \<open>None\<close> while untouched.
\<close>

definition set_command_text :: "u16 \<Rightarrow> u32 \<Rightarrow> u16 \<Rightarrow> cstring" where
  "set_command_text band earfcn pci =
     ''AT@SIC:FREQ_LOCK(0,3,'' @ show_u (unat band) @ '',1,'' @ show_u (unat earfcn) @ '','' @
     show_u (unat pci) @ '')''"

definition build_set_command ::
    "u32 \<Rightarrow> bool \<Rightarrow> u16 \<Rightarrow> nat option \<Rightarrow> bool \<times> cstring option" where
  "build_set_command earfcn with_pci pci command_size =
     (case (command_size, earfcn_to_band earfcn) of
        (Some room, Some band) \<Rightarrow>
          if room = 0 \<or> (with_pci \<and> 503 < pci) then (False, None)
          else
            (let full = set_command_text band earfcn (if with_pci then pci else PCI_WILDCARD)
             in if room \<le> length full then (False, Some []) else (True, Some full))
      | _ \<Rightarrow> (False, None))"

definition clear_command :: cstring where
  "clear_command = ''AT@SIC:FREQ_LOCK(0,3,255,0,65535,65535)''"

definition reset_command :: cstring where
  "reset_command = ''AT+CFUN=15''"

definition scan_command :: cstring where
  "scan_command = ''AT+XMCI=1''"

definition nvm_query_command :: cstring where
  "nvm_query_command = ''AT@NVM:DYN_CPS.NAS_ASM.FREQ_LOCK_PARAMS.*??''"

definition L850_SET_SUCCESS :: cstring where
  "L850_SET_SUCCESS = ''Frequency Lock Configuration Success CPS_MSG_TYPE_ASM_EM_CTRL_CNF''"

definition set_response_is_success :: "buffer \<Rightarrow> bool" where
  "set_response_is_success response =
     (case response of
        None \<Rightarrow> False
      | Some r \<Rightarrow> length r = length L850_SET_SUCCESS \<and> r = L850_SET_SUCCESS)"

definition lock_state_matches :: "lock_state option \<Rightarrow> bool \<Rightarrow> u32 \<Rightarrow> bool \<Rightarrow> u16 \<Rightarrow> bool" where
  "lock_state_matches state clear earfcn with_pci pci =
     (case state of
        None \<Rightarrow> False
      | Some s \<Rightarrow>
          if clear then
            \<not> enabled s \<and> lock_earfcn s = CLEAR_FREQUENCY \<and> lock_pci s = PCI_WILDCARD
          else
            enabled s \<and> lock_earfcn s = earfcn \<and> has_pci s = with_pci \<and>
            lock_pci s = (if with_pci then pci else PCI_WILDCARD))"

text \<open>The cool-down of the scan and of the carrier query: 64-bit times in, milliseconds out.\<close>

definition cooldown_retry_after_ms :: "nat \<Rightarrow> int \<Rightarrow> int \<Rightarrow> u32" where
  "cooldown_retry_after_ms seconds now_us last_us =
     (let interval = int seconds * 1000000 in
      if now_us < 0 \<or> last_us \<le> 0 then 0
      else if now_us < last_us then of_nat (seconds * 1000)
      else
        (let elapsed = now_us - last_us in
         if interval \<le> elapsed then 0
         else
           (let remaining = (interval - elapsed + 999) div 1000 in
            if int (unat UINT32_MAX) < remaining then UINT32_MAX else of_int remaining)))"

definition scan_retry_after_ms :: "int \<Rightarrow> int \<Rightarrow> u32" where
  "scan_retry_after_ms now_us last_scan_completed_us =
     cooldown_retry_after_ms CELL_SCAN_COOLDOWN_SECONDS now_us last_scan_completed_us"


section \<open>The band table\<close>

definition disjoint_ranges :: "(u32 \<times> u32 \<times> u16) list \<Rightarrow> bool" where
  "disjoint_ranges rs \<longleftrightarrow> sorted_wrt (\<lambda>(a, b, x) (c, d, y). b < c \<and> x < y) rs \<and>
     list_all (\<lambda>(a, b, x). a \<le> b \<and> 0 < x) rs"

lemma earfcn_ranges_disjoint: "disjoint_ranges earfcn_ranges"
  by code_simp

lemma range_lookup_exact:
  assumes "disjoint_ranges rs"
  shows "range_lookup rs e = Some b \<longleftrightarrow> (\<exists>lo hi. (lo, hi, b) \<in> set rs \<and> lo \<le> e \<and> e \<le> hi)"
  using assms
proof (induction rs)
  case (Cons r rs)
  obtain lo hi x where r: "r = (lo, hi, x)" by (cases r) auto
  with Cons.prems have later: "hi < c" if "(c, d, y) \<in> set rs" for c d y
    using that by (auto simp: disjoint_ranges_def)
  show ?case
  proof (cases "lo \<le> e \<and> e \<le> hi")
    case True
    then show ?thesis using r later by (auto dest: later)
  next
    case False
    with Cons r show ?thesis by (auto simp: disjoint_ranges_def)
  qed
qed simp

lemma earfcn_to_band_exact:
  "earfcn_to_band e = Some b \<longleftrightarrow> (\<exists>lo hi. (lo, hi, b) \<in> set earfcn_ranges \<and> lo \<le> e \<and> e \<le> hi)"
  unfolding earfcn_to_band_def by (rule range_lookup_exact [OF earfcn_ranges_disjoint])

lemma earfcn_ranges_bounds:
  "list_all (\<lambda>(lo, hi, b). hi < 100000 \<and> \<not> (lo \<le> CLEAR_FREQUENCY \<and> CLEAR_FREQUENCY \<le> hi) \<and> 0 < b \<and> b \<le> 85)
     earfcn_ranges"
  by code_simp

lemma earfcn_to_band_bounds:
  assumes "earfcn_to_band e = Some b"
  shows "unat e < 100000 \<and> e \<noteq> CLEAR_FREQUENCY \<and> 1 \<le> unat b \<and> unat b \<le> 85"
proof -
  from assms obtain lo hi where "(lo, hi, b) \<in> set earfcn_ranges" "lo \<le> e" "e \<le> hi"
    by (auto simp: earfcn_to_band_exact)
  with earfcn_ranges_bounds have "e < 100000" "e \<noteq> CLEAR_FREQUENCY" "0 < b" "b \<le> 85"
    by (auto simp: list_all_iff)
  then show ?thesis by (simp add: word_less_nat_alt word_le_nat_alt Suc_le_eq)
qed

section \<open>Well-formed cells\<close>

definition cell_wf :: "cell \<Rightarrow> bool" where
  "cell_wf c \<longleftrightarrow>
     cell_type c = (if serving c then 4 else 5) \<and> cell_pci c \<le> 503 \<and>
     earfcn_to_band (cell_earfcn c) = Some (cell_band c) \<and>
     -141 \<le> rsrp_dbm c \<and> rsrp_dbm c \<le> -44 \<and> -195 \<le> rsrq_tenths_db c \<and> rsrq_tenths_db c \<le> -25"

lemma ucast_le_503: "\<not> 503 < (p :: u32) \<Longrightarrow> (ucast p :: u16) \<le> 503"
proof -
  assume "\<not> 503 < p"
  then have "unat p \<le> 503" by (simp add: word_less_nat_alt)
  then show ?thesis by (simp add: word_le_nat_alt unat_ucast_16)
qed

lemma in_range_signal:
  assumes "cell_in_range v rssnr"
  shows "int (unat (v ! 9)) \<le> 97" and "int (unat (v ! 10)) \<le> 34"
proof -
  from assms have "v ! 9 \<le> 97" "v ! 10 \<le> 34" by (simp_all add: cell_in_range_def not_less)
  then have "unat (v ! 9) \<le> 97" "unat (v ! 10) \<le> 34" by (simp_all add: word_le_nat_alt)
  then show "int (unat (v ! 9)) \<le> 97" "int (unat (v ! 10)) \<le> 34" by linarith+
qed

lemma cell_built_wf:
  assumes "t = 4 \<or> t = 5" and "\<not> 503 < p" and "earfcn_to_band e = Some b" and "cell_in_range v rssnr"
  shows "cell_wf \<lparr>cell_type = ucast (t :: u32), serving = (t = 4), cell_earfcn = e,
    cell_pci = ucast (p :: u32), cell_band = b, rsrp_dbm = int (unat (v ! 9)) - 141,
    rsrq_tenths_db = int (unat (v ! 10)) * 5 - 195\<rparr>"
  using in_range_signal [OF assms(4)] assms(1,2,3) ucast_le_503
  by (auto simp: cell_wf_def simp del: of_nat_unat)

lemma cell_of_values_cases:
  assumes "cell_of_values values rssnr = (r, c)"
  shows "(r = CELL_OK \<and> (\<exists>w. c = Some w \<and> cell_wf w)) \<or> (r \<noteq> CELL_OK \<and> c = None)"
proof (cases "r = CELL_OK")
  case True
  with assms obtain b where "earfcn_to_band (values ! 6) = Some b"
    "values ! 0 = 4 \<or> values ! 0 = 5" "\<not> 503 < values ! 5" "cell_in_range values rssnr"
    and "c = Some \<lparr>cell_type = ucast (values ! 0), serving = (values ! 0 = 4),
      cell_earfcn = values ! 6, cell_pci = ucast (values ! 5), cell_band = b,
      rsrp_dbm = int (unat (values ! 9)) - 141,
      rsrq_tenths_db = int (unat (values ! 10)) * 5 - 195\<rparr>"
    unfolding cell_of_values_def Let_def
    by (simp split: if_split_asm option.split_asm)
  with True cell_built_wf show ?thesis by blast
next
  case False
  with assms show ?thesis
    unfolding cell_of_values_def Let_def by (simp split: if_split_asm option.split_asm)
qed

lemma parse_cell_line_cases:
  "parse_cell_line line = (r, c) \<Longrightarrow>
   (r = CELL_OK \<and> (\<exists>w. c = Some w \<and> cell_wf w)) \<or> (r \<noteq> CELL_OK \<and> c = None)"
  unfolding parse_cell_line_def
  by (auto dest: cell_of_values_cases split: if_splits option.splits)

definition scan_inv :: "scan_loop \<Rightarrow> bool" where
  "scan_inv s \<longleftrightarrow> length (scanned s) \<le> CELL_MAX_RESULTS \<and> list_all cell_wf (scanned s) \<and>
     length (filter serving (scanned s)) = (if serving_seen s then 1 else 0)"

lemma scan_line_inv: "scan_inv s \<Longrightarrow> scan_line s line = (r, s') \<Longrightarrow> scan_inv s'"
  using parse_cell_line_cases [of "response_line line"]
  by (auto simp: scan_line_def Let_def scan_inv_def
      split: if_splits prod.splits cell_parse_result.splits option.splits)

lemma scan_lines_inv: "scan_inv s \<Longrightarrow> scan_lines s ls = (r, s') \<Longrightarrow> scan_inv s'"
proof (induction ls arbitrary: s)
  case (Cons l ls)
  obtain r1 s1 where step: "scan_line s l = (r1, s1)" by fastforce
  with Cons.prems have "scan_inv s1" by (auto intro: scan_line_inv)
  with step Cons show ?case by (auto split: cell_parse_result.splits)
qed simp


section \<open>Well-formed locks\<close>

definition lock_wf :: "lock_state \<Rightarrow> bool" where
  "lock_wf l \<longleftrightarrow>
     (if enabled l
      then earfcn_to_band (lock_earfcn l) = Some (lock_band l) \<and>
        (if has_pci l then lock_pci l \<le> 503 else lock_pci l = PCI_WILDCARD)
      else l = zero_lock\<lparr>lock_earfcn := CLEAR_FREQUENCY, lock_pci := PCI_WILDCARD\<rparr>)"

lemma nvm_decide_ok:
  assumes "nvm_decide values = (CELL_OK, l)"
  shows "lock_wf l"
proof (cases "values ! 4 = 0")
  case True
  with assms show ?thesis
    by (auto simp: nvm_decide_def Let_def lock_wf_def zero_lock_def split: if_splits)
next
  case False
  with assms obtain b where b: "earfcn_to_band (values ! 0) = Some b"
    "\<not> (503 < values ! 2 \<and> values ! 2 \<noteq> 65535)"
    "l = \<lparr>enabled = True, has_pci = (ucast (values ! 2) \<noteq> PCI_WILDCARD),
      lock_earfcn = values ! 0, lock_pci = ucast (values ! 2), lock_band = b\<rparr>"
    unfolding nvm_decide_def Let_def by (simp split: if_split_asm option.split_asm)
  then show ?thesis
    using ucast_le_503 [of "values ! 2"] by (auto simp: lock_wf_def PCI_WILDCARD_def)
qed

section \<open>Reports of the lock registers\<close>

text \<open>The lines a modem writes for its five registers, in a given order.\<close>

definition nvm_register_line :: "nat \<Rightarrow> u32 \<Rightarrow> cstring" where
  "nvm_register_line i v = nvm_keys ! i @ ''='' @ show_u (unat v)"

fun join_lines :: "cstring list \<Rightarrow> cstring" where
  "join_lines [] = []"
| "join_lines [l] = l"
| "join_lines (l # ls) = l @ LF # join_lines ls"

definition nvm_report :: "nat list \<Rightarrow> u32 list \<Rightarrow> cstring" where
  "nvm_report order values = join_lines (map (\<lambda>i. nvm_register_line i (values ! i)) order)"

lemma split_on_join_lines:
  "ls \<noteq> [] \<Longrightarrow> \<forall>l \<in> set ls. LF \<notin> set l \<Longrightarrow> split_on LF (join_lines ls) = ls"
  by (induction ls rule: join_lines.induct) (auto simp: split_on_no_sep split_on_append)

definition plain_key :: "cstring \<Rightarrow> bool" where
  "plain_key k \<longleftrightarrow> k \<noteq> [] \<and>
     list_all (\<lambda>c. \<not> is_blank c \<and> c \<noteq> CHR ''='' \<and> c \<noteq> LF \<and> c \<noteq> CR \<and> c \<noteq> NUL) k \<and> length k \<le> 23"

lemma nvm_keys_plain: "list_all plain_key nvm_keys"
  by code_simp

lemma nvm_key_plain: "i < 5 \<Longrightarrow> plain_key (nvm_keys ! i)"
  using nvm_keys_plain by (auto simp: list_all_nth nvm_keys_def)

lemma key_index_nth: "distinct ks \<Longrightarrow> i < length ks \<Longrightarrow> key_index ks (ks ! i) = i"
  by (induction ks arbitrary: i) (auto simp: nth_Cons split: nat.splits)

lemma nvm_key_index: "i < 5 \<Longrightarrow> key_index nvm_keys (nvm_keys ! i) = i"
  by (rule key_index_nth) (simp_all add: nvm_keys_def)

lemma register_line_chars:
  assumes "i < 5" and "c \<in> set (nvm_register_line i v)"
  shows "\<not> is_blank c \<and> c \<noteq> LF \<and> c \<noteq> CR \<and> c \<noteq> NUL"
proof -
  consider "c \<in> set (nvm_keys ! i)" | "c = CHR ''=''" | "c \<in> set (show_u (unat v))"
    using assms(2) by (auto simp: nvm_register_line_def)
  then show ?thesis
  proof cases
    case 1
    with nvm_key_plain [OF assms(1)] show ?thesis by (simp add: plain_key_def list_all_iff)
  next
    case 2
    then show ?thesis by (simp add: is_blank_def)
  next
    case 3
    from show_u_not_special [OF 3] show ?thesis by simp
  qed
qed

lemma parse_uint32_show_u: "parse_uint32 (Some (show_u (unat v))) = Some v"
proof -
  let ?s = "show_u (unat (v :: u32))"
  have "\<not> has_hex_prefix ?s"
  proof
    assume hex: "has_hex_prefix ?s"
    then have "?s ! 1 \<in> set ?s" by (auto simp: has_hex_prefix_def intro: nth_mem)
    with hex show_u_not_special [of "?s ! 1" "unat v"] show False by (auto simp: has_hex_prefix_def)
  qed
  moreover have "digits_value (digit_value 10) 10 0 ?s = Some (unat v)"
    by (rule digits_value_show_u)
  moreover have "unat v \<le> 4294967295" by (rule unat_le_max32)
  ultimately have "map_option unat (map_option ucast
      (accumulate (uint32_step64 10) (digit_value 10) 0 ?s) :: u32 option) = Some (unat v)"
    using map_unat_ucast [OF accumulators(1), of ?s] by (simp add: within_def)
  with \<open>\<not> has_hex_prefix ?s\<close> show ?thesis by (auto simp: parse_uint32_def word_unat_eq_iff)
qed

lemma nvm_line_register:
  assumes "i < 5" and "\<not> nvm_seen s ! i"
  shows "nvm_line s (nvm_register_line i v) =
    Some (s\<lparr>nvm_values := (nvm_values s)[i := v], nvm_seen := (nvm_seen s)[i := True],
            parsed_count := parsed_count s + 1\<rparr>)"
proof -
  let ?k = "nvm_keys ! i" and ?l = "nvm_register_line i v"
  have rl: "response_line ?l = ?l"
    using register_line_chars [OF assms(1)] by (intro response_line_plain) blast
  have k: "CHR ''='' \<notin> set ?k" "trim_ascii ?k = ?k"
    using nvm_key_plain [OF assms(1)]
    by (auto simp: plain_key_def list_all_iff intro!: trim_ascii_no_blank)
  have "split_on (CHR ''='') ?l = [?k, show_u (unat v)]"
  proof -
    have "CHR ''='' \<notin> set (show_u (unat v))"
      using show_u_not_special [of "CHR ''=''" "unat v"] by blast
    with k split_on_append [of "CHR ''=''" ?k "show_u (unat v)"] show ?thesis
      by (simp add: nvm_register_line_def split_on_no_sep)
  qed
  with assms k rl nvm_key_index [OF assms(1)] show ?thesis
    by (auto simp: nvm_line_def nvm_register_line_def NVM_FIELD_COUNT_def parse_uint32_show_u)
qed


text \<open>Lines for distinct registers, none seen yet, store their values and are all counted.\<close>

lemma nvm_lines_registers:
  assumes "distinct order" and "set order \<subseteq> {0..<5}" and "\<forall>i \<in> set order. \<not> nvm_seen s ! i"
    and "length (nvm_seen s) = 5" and "length (nvm_values s) = 5"
  shows "\<exists>t. nvm_lines s (map (\<lambda>i. nvm_register_line i (vs ! i)) order) = Some t \<and>
    parsed_count t = parsed_count s + length order \<and> length (nvm_values t) = 5 \<and>
    (\<forall>i < 5. nvm_values t ! i = (if i \<in> set order then vs ! i else nvm_values s ! i))"
  using assms
proof (induction order arbitrary: s)
  case (Cons i order)
  let ?s = "s\<lparr>nvm_values := (nvm_values s)[i := vs ! i], nvm_seen := (nvm_seen s)[i := True],
    parsed_count := parsed_count s + 1\<rparr>"
  have step: "nvm_line s (nvm_register_line i (vs ! i)) = Some ?s"
    using Cons.prems by (intro nvm_line_register) auto
  have "\<exists>t. nvm_lines ?s (map (\<lambda>i. nvm_register_line i (vs ! i)) order) = Some t \<and>
      parsed_count t = parsed_count ?s + length order \<and> length (nvm_values t) = 5 \<and>
      (\<forall>j < 5. nvm_values t ! j = (if j \<in> set order then vs ! j else nvm_values ?s ! j))"
    using Cons.prems by (intro Cons.IH) (auto simp: nth_list_update)
  with step Cons.prems show ?case by (auto simp: nth_list_update)
qed simp

lemma register_line_length: "i < 5 \<Longrightarrow> length (nvm_register_line i v) \<le> 34"
proof -
  assume i: "i < 5"
  have "length (show_u (unat v)) \<le> 10"
    using unat_le_max32 [of v] by (intro length_show_u) simp_all
  with nvm_key_plain [OF i] show ?thesis by (simp add: nvm_register_line_def plain_key_def)
qed

lemma join_lines_length:
  "\<forall>l \<in> set ls. length l \<le> n \<Longrightarrow> length (join_lines ls) \<le> length ls * (n + 1)"
  by (induction ls rule: join_lines.induct) auto

lemma join_lines_chars: "c \<in> set (join_lines ls) \<Longrightarrow> c = LF \<or> (\<exists>l \<in> set ls. c \<in> set l)"
  by (induction ls rule: join_lines.induct) auto

lemma nvm_report_shape:
  assumes "set order = {0..<5}" and "distinct order"
  shows "nvm_report order vs \<noteq> []" and "length (nvm_report order vs) \<le> NVM_MAX_RESPONSE"
    and "NUL \<notin> set (nvm_report order vs)"
    and "split_on LF (nvm_report order vs) = map (\<lambda>i. nvm_register_line i (vs ! i)) order"
proof -
  let ?ls = "map (\<lambda>i. nvm_register_line i (vs ! i)) order"
  have len: "length order = 5" using distinct_card [OF assms(2)] assms(1) by simp
  then have ne: "?ls \<noteq> []" by auto
  have small: "\<forall>l \<in> set ?ls. length l \<le> 34" using assms(1) register_line_length by auto
  from join_lines_length [OF small] len
  show "length (nvm_report order vs) \<le> NVM_MAX_RESPONSE"
    by (simp add: nvm_report_def NVM_MAX_RESPONSE_def)
  have chars: "\<forall>l \<in> set ?ls. \<forall>c \<in> set l. c \<noteq> LF \<and> c \<noteq> NUL"
    using assms(1) register_line_chars by fastforce
  show "NUL \<notin> set (nvm_report order vs)"
    using chars join_lines_chars [of NUL ?ls] by (auto simp: nvm_report_def)
  show split: "split_on LF (nvm_report order vs) = ?ls"
    unfolding nvm_report_def using ne chars by (intro split_on_join_lines) blast+
  show "nvm_report order vs \<noteq> []"
  proof
    assume "nvm_report order vs = []"
    with split have "length ?ls = 1" by (metis split_on.simps(1) length_Cons list.size(3) One_nat_def)
    with len show False by simp
  qed
qed

lemma nvm_parse_report:
  assumes "set order = {0..<5}" and "distinct order" and "length vs = 5"
  shows "nvm_parse True (Some (nvm_report order vs)) (Some st) =
    (case nvm_decide vs of (CELL_OK, l) \<Rightarrow> (CELL_OK, Some l) | (r, _) \<Rightarrow> (r, Some zero_lock))"
proof -
  let ?s = "\<lparr>nvm_values = replicate NVM_FIELD_COUNT 0, nvm_seen = replicate NVM_FIELD_COUNT False,
    parsed_count = 0\<rparr>"
  from nvm_lines_registers [of order ?s vs] assms obtain t where
    run: "nvm_lines ?s (map (\<lambda>i. nvm_register_line i (vs ! i)) order) = Some t"
    and t: "parsed_count t = length order" "length (nvm_values t) = 5"
      "\<forall>i < 5. nvm_values t ! i = vs ! i"
    by (auto simp: NVM_FIELD_COUNT_def)
  from t assms(3) have "nvm_values t = vs" by (auto intro: nth_equalityI)
  moreover have "length order = 5" using distinct_card [OF assms(2)] assms(1) by simp
  ultimately show ?thesis
    using nvm_report_shape [OF assms(1,2), of vs] run t(1)
    by (simp add: nvm_parse_def NVM_FIELD_COUNT_def not_less [symmetric])
qed


section \<open>Properties\<close>

text \<open>The channel table is unambiguous: a channel number is assigned a band exactly when it lies in
  that band's range, no channel lies in the ranges of two bands, and the channel that marks a
  cleared lock belongs to no band.\<close>

lemma earfcn_to_band_unique:
  "(earfcn_to_band e = Some b \<longleftrightarrow>
      (\<exists>lo hi. (lo, hi, b) \<in> set earfcn_ranges \<and> lo \<le> e \<and> e \<le> hi)) \<and>
   card {x. \<exists>lo hi. (lo, hi, x) \<in> set earfcn_ranges \<and> lo \<le> e \<and> e \<le> hi} \<le> 1 \<and>
   earfcn_to_band CLEAR_FREQUENCY = None"
proof -
  have "{x. \<exists>lo hi. (lo, hi, x) \<in> set earfcn_ranges \<and> lo \<le> e \<and> e \<le> hi} =
      set_option (earfcn_to_band e)"
    by (auto simp: earfcn_to_band_exact [symmetric])
  moreover have "card (set_option (earfcn_to_band e)) \<le> 1" by (cases "earfcn_to_band e") auto
  moreover have "earfcn_to_band CLEAR_FREQUENCY = None"
    using earfcn_to_band_bounds by (cases "earfcn_to_band CLEAR_FREQUENCY") auto
  ultimately show ?thesis by (simp add: earfcn_to_band_exact)
qed

text \<open>The scan parser is fail-closed. Whatever bytes the modem sends, an accepted response yields
  between one and 64 cells, all of them in range with the band of their channel, and at most
  one serving cell; a rejected response yields no cell at all: the result is cleared, or, for
  a missing, empty or oversized response only, left as it was.\<close>

lemma cell_parse_fail_closed:
  "case cell_parse allocated response (Some before) of
     (r, out) \<Rightarrow>
       if r = CELL_OK then
         (\<exists>cells. out = Some cells \<and> 1 \<le> length cells \<and> length cells \<le> CELL_MAX_RESULTS \<and>
            list_all cell_wf cells \<and> length (filter serving cells) \<le> 1)
       else out = Some [] \<or> (out = Some before \<and>
         (response = None \<or> response = Some [] \<or> CELL_MAX_RESPONSE < length (the response)))"
proof -
  let ?s = "\<lparr>ok_seen = False, serving_seen = False, scanned = []\<rparr>"
  have inv: "scan_inv ?s" by (simp add: scan_inv_def)
  show ?thesis
  proof (cases "\<exists>bytes. response = Some bytes \<and> bytes \<noteq> [] \<and> \<not> CELL_MAX_RESPONSE < length bytes \<and>
      allocated \<and> NUL \<notin> set bytes")
    case True
    then obtain bytes where b: "response = Some bytes" "bytes \<noteq> []"
      "\<not> CELL_MAX_RESPONSE < length bytes" "allocated" "NUL \<notin> set bytes" by blast
    obtain r s where run: "scan_lines ?s (split_on LF bytes) = (r, s)" by fastforce
    with scan_lines_inv [OF inv] have "scan_inv s" by blast
    with b run show ?thesis
      by (cases r) (auto simp: cell_parse_def scan_inv_def Suc_le_eq)
  next
    case False
    then show ?thesis by (auto simp: cell_parse_def split: option.splits)
  qed
qed

text \<open>C36: The register parser is fail-closed: an accepted response yields a well-formed lock (a
  cleared one, or an enabled one whose channel has the recorded band and whose cell identity
  is absent or at most 503), and a rejected one yields the zeroed lock or, for a missing,
  empty or oversized response only, leaves the caller's value alone.\<close>

theorem nvm_parse_fail_closed:
  "case nvm_parse allocated response (Some before) of
     (r, out) \<Rightarrow>
       if r = CELL_OK then (\<exists>l. out = Some l \<and> lock_wf l)
       else out = Some zero_lock \<or> (out = Some before \<and>
         (response = None \<or> response = Some [] \<or> NVM_MAX_RESPONSE < length (the response)))"
proof -
  have dec: "lock_wf l" if "nvm_decide vs = (CELL_OK, l)" for vs l
    using that by (rule nvm_decide_ok)
  show ?thesis
    unfolding nvm_parse_def
    by (auto split: option.splits prod.splits cell_parse_result.splits if_splits dest: dec)
qed

text \<open>C35: What a set command asks for is recognised when the modem reports it: for every channel with
  a band and every optional cell identity up to 503, a report of the five registers in any
  order, with the band named or left at 0 or 255, parses to a lock that matches the request
  and matches no clear request.\<close>

theorem nvm_report_round_trip:
  assumes "earfcn_to_band e = Some b" and "\<not> (with_pci \<and> 503 < pci)"
    and "set order = {0..<5}" and "distinct order"
    and "info = ucast b \<or> info = 0 \<or> info = 255"
  shows "\<exists>l. nvm_parse True
      (Some (nvm_report order
        [e, 3, ucast (if with_pci then pci else PCI_WILDCARD), info, 1])) (Some st) =
      (CELL_OK, Some l) \<and>
    lock_state_matches (Some l) False e with_pci pci \<and>
    \<not> lock_state_matches (Some l) True e with_pci pci"
proof -
  let ?p = "if with_pci then pci else PCI_WILDCARD"
  let ?l = "\<lparr>enabled = True, has_pci = (?p \<noteq> PCI_WILDCARD), lock_earfcn = e, lock_pci = ?p,
    lock_band = b\<rparr>"
  have pci: "pci \<le> 503" if "with_pci" using that assms(2) by simp
  then have np: "pci \<noteq> PCI_WILDCARD" if "with_pci"
    using that by (auto simp: PCI_WILDCARD_def word_le_nat_alt)
  have le: "\<not> 65535 < (ucast ?p :: u32)" "\<not> (503 < (ucast ?p :: u32) \<and> (ucast ?p :: u32) \<noteq> 65535)"
    using pci unsigned_less [of ?p, where 'a = nat]
    by (auto simp: word_less_nat_alt word_le_nat_alt word_unat_eq_iff unat_ucast_up32 PCI_WILDCARD_def)
  have "nvm_decide [e, 3, ucast ?p, info, 1] = (CELL_OK, ?l)"
    using assms(1,5) le by (auto simp: nvm_decide_def Let_def ucast_ucast_16)
  with nvm_parse_report [OF assms(3,4), of "[e, 3, ucast ?p, info, 1]" st] np show ?thesis
    by (auto simp: lock_state_matches_def)
qed

theorem nvm_report_round_trip_witness:
  "\<exists>l. nvm_parse True
      (Some (nvm_report [4, 2, 0, 3, 1]
        [1300, 3, ucast (if True then 17 else PCI_WILDCARD), 3, 1])) (Some zero_lock) =
      (CELL_OK, Some l) \<and>
    lock_state_matches (Some l) False 1300 True 17 \<and>
    \<not> lock_state_matches (Some l) True 1300 True 17"
proof -
  have band: "earfcn_to_band 1300 = Some 3" by code_simp
  have order: "set [4, 2, 0, 3, 1] = {0..<5 :: nat}" "distinct [4, 2, 0, 3, 1 :: nat]" by auto
  show ?thesis
    by (rule nvm_report_round_trip [OF band _ order, where with_pci = True and pci = 17 and info = 3])
      simp_all
qed

text \<open>C40: The command buffer is never too small: with the buffer the callers use, a set command is
  built for exactly the channels that have a band and the cell identities up to 503, is
  complete and names the channel's own band.\<close>

theorem build_set_command_complete:
  "build_set_command e with_pci pci (Some COMMAND_MAX) =
     (case earfcn_to_band e of
        None \<Rightarrow> (False, None)
      | Some b \<Rightarrow>
          if with_pci \<and> 503 < pci then (False, None)
          else (True, Some (set_command_text b e (if with_pci then pci else PCI_WILDCARD))))"
proof -
  have "length (set_command_text b e p) < COMMAND_MAX" for b :: u16 and p :: u16
  proof -
    have "length (show_u (unat x)) \<le> 5" for x :: u16
      using unsigned_less [of x, where 'a = nat] by (intro length_show_u) simp_all
    from this [of b] this [of p] have "length (show_u (unat b)) \<le> 5" "length (show_u (unat p)) \<le> 5"
      by simp_all
    moreover have "length (show_u (unat e)) \<le> 10"
      using unat_le_max32 [of e] by (intro length_show_u) simp_all
    ultimately show ?thesis by (simp add: set_command_text_def COMMAND_MAX_def)
  qed
  then have fits: "(COMMAND_MAX \<le> length (set_command_text b e p)) = False" for b p
    by (simp add: not_le)
  have "COMMAND_MAX \<noteq> 0" by (simp add: COMMAND_MAX_def)
  then show ?thesis
    by (simp add: build_set_command_def Let_def fits split: option.split)
qed

text \<open>A lock state satisfies at most one kind of request: if it matches two requests, they are both
  clear requests, or they ask for the same channel with the same optional cell identity.\<close>

lemma lock_state_matches_one_request:
  assumes "lock_state_matches s c e h p" and "lock_state_matches s c' e' h' p'"
  shows "c = c' \<and> (if c then True else e = e' \<and> h = h' \<and> (if h then p = p' else True))"
  using assms by (auto simp: lock_state_matches_def split: option.splits if_splits)

lemma cooldown_value:
  assumes "0 \<le> now" and "0 < done_at" and "seconds \<le> 4294967"
  shows "int (unat (cooldown_retry_after_ms seconds now done_at)) =
    (if now < done_at then int seconds * 1000
     else max 0 ((int seconds * 1000000 - (now - done_at) + 999) div 1000))"
proof (cases "done_at \<le> now \<and> now - done_at < int seconds * 1000000")
  case True
  let ?r = "(int seconds * 1000000 - (now - done_at) + 999) div 1000"
  have r: "0 \<le> ?r" "?r \<le> 4294967000" using True assms(3) by auto
  then have u: "int (unat (of_int ?r :: u32)) = ?r"
    by (intro unat_of_int_id) simp_all
  have "unat UINT32_MAX = 4294967295" by (simp add: UINT32_MAX_def)
  with True assms r(2) u show ?thesis
    unfolding max_absorb2 [OF r(1)] by (simp add: cooldown_retry_after_ms_def Let_def)
next
  case False
  have "int (unat (of_nat (seconds * 1000) :: u32)) = int seconds * 1000"
    using assms(3) by (subst unat_of_nat_id) simp_all
  with False assms show ?thesis
    by (auto simp: cooldown_retry_after_ms_def Let_def simp del: of_nat_mult)
qed

text \<open>The scan cool-down is honest: the wait it announces is at most five seconds, and once the
  clock has advanced by that many milliseconds the scan is allowed, while one millisecond
  earlier it was not.\<close>

lemma scan_retry_after_exact:
  assumes "0 < done_at" and "done_at \<le> now"
  shows "let ms = int (unat (scan_retry_after_ms now done_at)) in
    ms \<le> 5000 \<and> scan_retry_after_ms (now + ms * 1000) done_at = 0 \<and>
    (ms = 0 \<or> scan_retry_after_ms (now + (ms - 1) * 1000) done_at \<noteq> 0)"
proof -
  have val: "int (unat (scan_retry_after_ms t done_at)) = max 0 ((5000000 - (t - done_at) + 999) div 1000)"
    if "done_at \<le> t" for t
    using cooldown_value [of t done_at 5] that assms
    by (simp add: scan_retry_after_ms_def CELL_SCAN_COOLDOWN_SECONDS_def)
  define ms where "ms = int (unat (scan_retry_after_ms now done_at))"
  have ms: "ms = max 0 ((5000000 - (now - done_at) + 999) div 1000)"
    unfolding ms_def using assms(2) by (rule val)
  have "ms \<le> 5000" using ms assms by auto
  moreover have "scan_retry_after_ms (now + ms * 1000) done_at = 0"
    unfolding word_zero_iff_int using val [of "now + ms * 1000"] ms assms by auto
  moreover have "ms = 0 \<or> scan_retry_after_ms (now + (ms - 1) * 1000) done_at \<noteq> 0"
    unfolding word_zero_iff_int using val [of "now + (ms - 1) * 1000"] ms assms by auto
  ultimately show ?thesis unfolding ms_def Let_def by blast
qed

end
