(* ===== verification/Ca.thy ===== *)
theory Ca
  imports Cell
begin

text \<open>
  The carrier aggregation grammar (\<open>l850_ca.c\<close>): one header line with the number of slots, one
  record with fourteen fields for the primary carrier and one with ten for each secondary slot,
  in any order; the cross checks between them; and the query cool-down.
\<close>

section \<open>Data\<close>

definition CA_PRIMARY_FIELD_COUNT :: nat where "CA_PRIMARY_FIELD_COUNT = 14"
definition CA_SECONDARY_FIELD_COUNT :: nat where "CA_SECONDARY_FIELD_COUNT = 10"
definition CA_MAX_RESPONSE :: nat where "CA_MAX_RESPONSE = 4096"
definition CA_MAX_SLOTS :: nat where "CA_MAX_SLOTS = 8"
definition CA_QUERY_COOLDOWN_SECONDS :: nat where "CA_QUERY_COOLDOWN_SECONDS = 5"
definition CA_CELL_ID_MAX :: u32 where "CA_CELL_ID_MAX = 0x0fffffff"
definition CA_LTE_EARFCN_MAX :: u32 where "CA_LTE_EARFCN_MAX = 262143"
definition CA_SINR_SENTINEL :: int where "CA_SINR_SENTINEL = 127"

datatype ca_parse_result =
    CA_OK | CA_EMPTY | CA_OVERSIZED | CA_MALFORMED | CA_SENTINEL | CA_RANGE | CA_TOO_MANY
  | CA_DUPLICATE | CA_COUNT_MISMATCH | CA_MISSING_PRIMARY

record ca_carrier =
  ca_index :: u8
  ca_primary :: bool
  has_cell_identity :: bool
  uplink_active :: bool
  sinr_available :: bool
  ca_band :: u16
  ca_mcc :: u16
  ca_mnc :: u16
  ca_tac :: u16
  ca_cell_id :: u32
  ca_pci :: u16
  ca_rsrp_dbm :: int
  ca_rsrq_tenths_db :: int
  ca_sinr_tenths_db :: int
  dl_earfcn :: u32
  ul_earfcn :: u32
  dl_bandwidth_tenths_mhz :: u16
  ul_bandwidth_tenths_mhz :: u16

definition zero_carrier :: ca_carrier where
  "zero_carrier = \<lparr>ca_index = 0, ca_primary = False, has_cell_identity = False,
     uplink_active = False, sinr_available = False, ca_band = 0, ca_mcc = 0, ca_mnc = 0, ca_tac = 0,
     ca_cell_id = 0, ca_pci = 0, ca_rsrp_dbm = 0, ca_rsrq_tenths_db = 0, ca_sinr_tenths_db = 0,
     dl_earfcn = 0, ul_earfcn = 0, dl_bandwidth_tenths_mhz = 0, ul_bandwidth_tenths_mhz = 0\<rparr>"

text \<open>The used part of the carrier array and the declared number of slots.\<close>

record ca_info =
  carriers :: "ca_carrier list"
  info_declared_slots :: u8

definition zero_info :: ca_info where
  "zero_info = \<lparr>carriers = [], info_declared_slots = 0\<rparr>"

record ca_slot =
  slot_seen :: bool
  slot_active :: bool
  slot_carrier :: ca_carrier

definition zero_slot :: ca_slot where
  "zero_slot = \<lparr>slot_seen = False, slot_active = False, slot_carrier = zero_carrier\<rparr>"

section \<open>Fields and bands\<close>

text \<open>The number of fields, or \<open>capacity + 1\<close> for too many, or 0 for an empty one.\<close>

fun split_fields :: "nat \<Rightarrow> nat \<Rightarrow> cstring list \<Rightarrow> cstring list \<Rightarrow> nat \<times> cstring list" where
  "split_fields capacity count done_fields [] = (count, done_fields)"
| "split_fields capacity count done_fields (piece # pieces) =
     (if capacity \<le> count then (capacity + 1, done_fields)
      else
        (let f = trim_ascii piece in
         if f = [] then (0, done_fields)
         else split_fields capacity (count + 1) (done_fields @ [f]) pieces))"

definition ca_band_ranges :: "(u16 \<times> u32 \<times> u32 \<times> u32 \<times> u32) list" where
  "ca_band_ranges = [
    (1, 0, 599, 18000, 18599), (2, 600, 1199, 18600, 19199), (3, 1200, 1949, 19200, 19949),
    (4, 1950, 2399, 19950, 20399), (5, 2400, 2649, 20400, 20649),
    (7, 2750, 3449, 20750, 21449), (8, 3450, 3799, 21450, 21799),
    (11, 4750, 4949, 22750, 22949), (12, 5010, 5179, 23010, 23179),
    (13, 5180, 5279, 23180, 23279), (17, 5730, 5849, 23730, 23849),
    (18, 5850, 5999, 23850, 23999), (19, 6000, 6149, 24000, 24149),
    (20, 6150, 6449, 24150, 24449), (21, 6450, 6599, 24450, 24599),
    (26, 8690, 9039, 26690, 27039), (28, 9210, 9659, 27210, 27659),
    (30, 9770, 9869, 27660, 27759), (38, 37750, 38249, 37750, 38249),
    (39, 38250, 38649, 38250, 38649), (40, 38650, 39649, 38650, 39649),
    (41, 39650, 41589, 39650, 41589), (66, 66436, 67335, 131972, 132671)
  ]"

fun lookup_band :: "(u16 \<times> u32 \<times> u32 \<times> u32 \<times> u32) list \<Rightarrow> u32 \<Rightarrow> (u32 \<times> u32 \<times> u32 \<times> u32) option" where
  "lookup_band [] band = None"
| "lookup_band ((b, r) # rs) band = (if ucast b = band then Some r else lookup_band rs band)"

definition find_band_range :: "u32 \<Rightarrow> (u32 \<times> u32 \<times> u32 \<times> u32) option" where
  "find_band_range band = lookup_band ca_band_ranges band"

definition band_downlink_earfcn_is_valid :: "u32 \<Rightarrow> u32 \<Rightarrow> bool" where
  "band_downlink_earfcn_is_valid band dl =
     (case find_band_range band of
        None \<Rightarrow> False
      | Some (dl_first, dl_last, _, _) \<Rightarrow> dl_first \<le> dl \<and> dl \<le> dl_last)"

definition band_uplink_earfcn_is_valid :: "u32 \<Rightarrow> u32 \<Rightarrow> bool" where
  "band_uplink_earfcn_is_valid band ul =
     (case find_band_range band of
        None \<Rightarrow> False
      | Some (_, _, ul_first, ul_last) \<Rightarrow> ul_first \<le> ul \<and> ul \<le> ul_last)"

definition bandwidth_values :: "u16 list" where
  "bandwidth_values = [14, 30, 50, 100, 150, 200]"

definition bandwidth_code_to_tenths_mhz :: "u32 \<Rightarrow> u16 option" where
  "bandwidth_code_to_tenths_mhz c =
     (if 6 \<le> c then None else Some (bandwidth_values ! unat c))"

section \<open>One record\<close>

text \<open>The numbers common to both kinds of record.\<close>

record ca_numbers =
  n_band :: u32
  n_pci :: u32
  n_rsrp :: u32
  n_rsrq :: u32
  n_sinr :: int
  n_dl_earfcn :: u32
  n_ul_earfcn :: u32
  n_dl_bandwidth :: u32
  n_ul_bandwidth :: u32

definition common_sentinel :: "ca_numbers \<Rightarrow> bool \<Rightarrow> bool" where
  "common_sentinel n allow_unavailable_sinr \<longleftrightarrow>
     n_band n = 255 \<or> n_pci n = 65535 \<or> n_rsrp n = 255 \<or> n_rsrq n = 255 \<or>
     (n_sinr n = CA_SINR_SENTINEL \<and> \<not> allow_unavailable_sinr) \<or> n_sinr n = 255 \<or>
     n_dl_earfcn n = 65535 \<or> n_ul_earfcn n = 65535 \<or> n_dl_bandwidth n = 255"

definition common_out_of_range :: "ca_numbers \<Rightarrow> bool" where
  "common_out_of_range n \<longleftrightarrow>
     n_band n = 0 \<or> 85 < n_band n \<or> 503 < n_pci n \<or> 97 < n_rsrp n \<or> 34 < n_rsrq n \<or>
     (n_sinr n \<noteq> CA_SINR_SENTINEL \<and> (n_sinr n < -100 \<or> 100 < n_sinr n)) \<or>
     \<not> band_downlink_earfcn_is_valid (n_band n) (n_dl_earfcn n) \<or>
     bandwidth_code_to_tenths_mhz (n_dl_bandwidth n) = None"

definition fill_common :: "ca_numbers \<Rightarrow> u16 \<Rightarrow> ca_carrier \<Rightarrow> ca_carrier" where
  "fill_common n dl_bandwidth c =
     c\<lparr>dl_bandwidth_tenths_mhz := dl_bandwidth,
       ca_band := ucast (n_band n), ca_pci := ucast (n_pci n),
       ca_rsrp_dbm := int (unat (n_rsrp n)) - 141,
       ca_rsrq_tenths_db := int (unat (n_rsrq n)) * 5 - 195,
       sinr_available := (n_sinr n \<noteq> CA_SINR_SENTINEL),
       ca_sinr_tenths_db := (if n_sinr n \<noteq> CA_SINR_SENTINEL then n_sinr n * 5 else 0),
       dl_earfcn := n_dl_earfcn n, ul_earfcn := n_ul_earfcn n\<rparr>"

definition validate_common_carrier ::
    "ca_carrier \<Rightarrow> ca_numbers \<Rightarrow> bool \<Rightarrow> bool \<Rightarrow> ca_parse_result \<times> ca_carrier" where
  "validate_common_carrier c n allow_inactive_uplink allow_unavailable_sinr =
     (if common_sentinel n allow_unavailable_sinr then (CA_SENTINEL, c)
      else if common_out_of_range n then (CA_RANGE, c)
      else
        (let dl_bandwidth = the (bandwidth_code_to_tenths_mhz (n_dl_bandwidth n)) in
         if n_ul_bandwidth n = 255 then
           (if \<not> allow_inactive_uplink then (CA_SENTINEL, c)
            else (CA_OK, fill_common n dl_bandwidth
              (c\<lparr>uplink_active := False, ul_bandwidth_tenths_mhz := 0\<rparr>)))
         else if \<not> band_uplink_earfcn_is_valid (n_band n) (n_ul_earfcn n) then (CA_RANGE, c)
         else
           (case bandwidth_code_to_tenths_mhz (n_ul_bandwidth n) of
              None \<Rightarrow> (CA_RANGE, c)
            | Some w \<Rightarrow> (CA_OK, fill_common n dl_bandwidth
                (c\<lparr>ul_bandwidth_tenths_mhz := w, uplink_active := True\<rparr>)))))"

definition primary_numbers :: "u32 list \<Rightarrow> int \<Rightarrow> ca_numbers" where
  "primary_numbers v sinr =
     \<lparr>n_band = v ! 1, n_pci = v ! 6, n_rsrp = v ! 7, n_rsrq = v ! 8, n_sinr = sinr,
      n_dl_earfcn = v ! 10, n_ul_earfcn = v ! 11, n_dl_bandwidth = v ! 12, n_ul_bandwidth = v ! 13\<rparr>"

definition secondary_numbers :: "u32 list \<Rightarrow> int \<Rightarrow> ca_numbers" where
  "secondary_numbers v sinr =
     \<lparr>n_band = v ! 1, n_pci = v ! 2, n_rsrp = v ! 3, n_rsrq = v ! 4, n_sinr = sinr,
      n_dl_earfcn = v ! 6, n_ul_earfcn = v ! 7, n_dl_bandwidth = v ! 8, n_ul_bandwidth = v ! 9\<rparr>"

definition parse_primary_record :: "cstring list \<Rightarrow> ca_carrier \<Rightarrow> ca_parse_result \<times> ca_carrier" where
  "parse_primary_record parts c =
     (case (parse_values parse_uint32_decimal 9 0 (take CA_PRIMARY_FIELD_COUNT parts),
            parse_int32_decimal (Some (parts ! 9))) of
        (Some v, Some sinr) \<Rightarrow>
          if v ! 0 \<noteq> 1 then (CA_RANGE, c)
          else if v ! 2 = 65535 \<or> v ! 4 = 65535 then (CA_SENTINEL, c)
          else if v ! 2 = 0 \<or> 999 < v ! 2 \<or> 999 < v ! 3 \<or> 65535 < v ! 4 \<or> CA_CELL_ID_MAX < v ! 5
          then (CA_RANGE, c)
          else
            (case validate_common_carrier c (primary_numbers v sinr) False False of
               (CA_OK, d) \<Rightarrow>
                 (CA_OK, d\<lparr>ca_index := 1, ca_primary := True, has_cell_identity := True,
                    ca_mcc := ucast (v ! 2), ca_mnc := ucast (v ! 3), ca_tac := ucast (v ! 4),
                    ca_cell_id := v ! 5\<rparr>)
             | (r, d) \<Rightarrow> (r, d))
      | _ \<Rightarrow> (CA_MALFORMED, c))"

definition secondary_inactive :: "u32 list \<Rightarrow> int \<Rightarrow> bool" where
  "secondary_inactive v sinr \<longleftrightarrow>
     v ! 1 = 255 \<and> v ! 2 = 65535 \<and> v ! 3 = 255 \<and> v ! 4 = 255 \<and> sinr = 127 \<and>
     v ! 6 = 65535 \<and> v ! 8 = 255 \<and> v ! 9 = 255"

text \<open>The result, the slot index, the active flag and the carrier.\<close>

definition parse_secondary_record ::
    "cstring list \<Rightarrow> ca_carrier \<Rightarrow> ca_parse_result \<times> u8 \<times> bool \<times> ca_carrier" where
  "parse_secondary_record parts c =
     (case (parse_values parse_uint32_decimal 5 0 (take CA_SECONDARY_FIELD_COUNT parts),
            parse_int32_decimal (Some (parts ! 5))) of
        (Some v, Some sinr) \<Rightarrow>
          if v ! 0 < 2 \<or> of_nat CA_MAX_SLOTS < v ! 0 then (CA_RANGE, 0, False, c)
          else
            (let slot_index = ucast (v ! 0) in
             if secondary_inactive v sinr then
               (if CA_LTE_EARFCN_MAX < v ! 7 then (CA_SENTINEL, slot_index, False, c)
                else (CA_OK, slot_index, False,
                  c\<lparr>ca_index := slot_index, ca_primary := False, ul_earfcn := v ! 7,
                    uplink_active := False, sinr_available := False\<rparr>))
             else
               (case validate_common_carrier c (secondary_numbers v sinr) True True of
                  (CA_OK, d) \<Rightarrow>
                    if uplink_active d then (CA_RANGE, slot_index, False, d)
                    else (CA_OK, slot_index, True,
                      d\<lparr>ca_index := slot_index, ca_primary := False, has_cell_identity := False\<rparr>)
                | (r, d) \<Rightarrow> (r, slot_index, False, d)))
      | _ \<Rightarrow> (CA_MALFORMED, 0, False, c))"

definition carriers_are_duplicate :: "ca_carrier \<Rightarrow> ca_carrier \<Rightarrow> bool" where
  "carriers_are_duplicate left right \<longleftrightarrow>
     ca_band left = ca_band right \<and> ca_pci left = ca_pci right \<and> dl_earfcn left = dl_earfcn right"

section \<open>The response\<close>

record ca_loop =
  slots :: "ca_slot list"
  declared_slots :: u32
  record_count :: nat
  header_seen :: bool

text \<open>The part of the loop that files a record into its slot.\<close>

definition ca_file_record :: "ca_loop \<Rightarrow> u8 \<Rightarrow> bool \<Rightarrow> ca_carrier \<Rightarrow> ca_parse_result \<times> ca_loop" where
  "ca_file_record s slot_index active c =
     (if declared_slots s < ucast slot_index then (CA_COUNT_MISMATCH, s)
      else if slot_seen (slots s ! (unat slot_index - 1)) then (CA_DUPLICATE, s)
      else (CA_OK, s\<lparr>slots := (slots s)[unat slot_index - 1 :=
              \<lparr>slot_seen = True, slot_active = active, slot_carrier = c\<rparr>],
            record_count := record_count s + 1\<rparr>))"

definition ca_line :: "ca_loop \<Rightarrow> cstring \<Rightarrow> ca_parse_result \<times> ca_loop" where
  "ca_line s raw =
     (let current = response_line raw in
      if current = [] then (CA_OK, s)
      else if take 10 current \<noteq> ''+GTCAINFO:'' then (CA_MALFORMED, s)
      else
        (let (field_count, parts) =
           split_fields (CA_PRIMARY_FIELD_COUNT + 1) 0 []
             (split_on (CHR '','') (trim_ascii (drop 10 current)))
         in
         if field_count = 1 then
           (if header_seen s \<or> record_count s \<noteq> 0 then (CA_MALFORMED, s)
            else
              (case parse_uint32_decimal (Some (parts ! 0)) of
                 None \<Rightarrow> (CA_MALFORMED, s)
               | Some d \<Rightarrow>
                   if d = 0 then (CA_RANGE, s\<lparr>declared_slots := d\<rparr>)
                   else if of_nat CA_MAX_SLOTS < d then (CA_TOO_MANY, s\<lparr>declared_slots := d\<rparr>)
                   else (CA_OK, s\<lparr>declared_slots := d, header_seen := True\<rparr>)))
         else if \<not> header_seen s then (CA_MALFORMED, s)
         else if unat (declared_slots s) \<le> record_count s then (CA_COUNT_MISMATCH, s)
         else if field_count = CA_PRIMARY_FIELD_COUNT then
           (case parse_primary_record parts zero_carrier of
              (CA_OK, c) \<Rightarrow> ca_file_record s (ca_index c) True c
            | (r, _) \<Rightarrow> (r, s))
         else if field_count = CA_SECONDARY_FIELD_COUNT then
           (case parse_secondary_record parts zero_carrier of
              (CA_OK, slot_index, active, c) \<Rightarrow> ca_file_record s slot_index active c
            | (r, _) \<Rightarrow> (r, s))
         else (CA_MALFORMED, s)))"

fun ca_lines :: "ca_loop \<Rightarrow> cstring list \<Rightarrow> ca_parse_result \<times> ca_loop" where
  "ca_lines s [] = (CA_OK, s)"
| "ca_lines s (line # rest) =
     (case ca_line s line of (CA_OK, s') \<Rightarrow> ca_lines s' rest | (r, s') \<Rightarrow> (r, s'))"

text \<open>The final loop over the slots: collect the active carriers, refusing duplicates.\<close>

fun ca_collect :: "ca_slot list \<Rightarrow> ca_slot list \<Rightarrow> ca_carrier list \<Rightarrow> ca_parse_result \<times> ca_carrier list" where
  "ca_collect earlier [] out = (CA_OK, out)"
| "ca_collect earlier (s # rest) out =
     (if \<not> slot_seen s then (CA_COUNT_MISMATCH, out)
      else if \<not> slot_active s then ca_collect (earlier @ [s]) rest out
      else if list_ex (\<lambda>e. slot_active e \<and> carriers_are_duplicate (slot_carrier s) (slot_carrier e)) earlier
      then (CA_DUPLICATE, out)
      else ca_collect (earlier @ [s]) rest (out @ [slot_carrier s]))"

definition ca_finish :: "ca_loop \<Rightarrow> ca_parse_result \<times> ca_info" where
  "ca_finish s =
     (let used = take (unat (declared_slots s)) (slots s); first_slot = slots s ! 0 in
      if \<not> header_seen s then (CA_EMPTY, zero_info)
      else if \<not> slot_seen first_slot \<or> \<not> slot_active first_slot then (CA_MISSING_PRIMARY, zero_info)
      else if record_count s \<noteq> unat (declared_slots s) then (CA_COUNT_MISMATCH, zero_info)
      else if list_ex (\<lambda>t. \<not> uplink_active (slot_carrier t) \<and>
          ul_earfcn (slot_carrier t) \<noteq> ul_earfcn (slot_carrier first_slot)) (drop 1 used)
      then (CA_RANGE, zero_info)
      else
        (case ca_collect [] used [] of
           (CA_OK, out) \<Rightarrow> (CA_OK, \<lparr>carriers = out, info_declared_slots = ucast (declared_slots s)\<rparr>)
         | (r, _) \<Rightarrow> (r, zero_info)))"

definition ca_parse ::
    "bool \<Rightarrow> buffer \<Rightarrow> ca_info option \<Rightarrow> ca_parse_result \<times> ca_info option" where
  "ca_parse allocated response info =
     (case info of
        None \<Rightarrow> (CA_MALFORMED, None)
      | Some _ \<Rightarrow>
          (case response of
             None \<Rightarrow> (CA_EMPTY, Some zero_info)
           | Some bytes \<Rightarrow>
               if bytes = [] then (CA_EMPTY, Some zero_info)
               else if CA_MAX_RESPONSE < length bytes then (CA_OVERSIZED, Some zero_info)
               else if \<not> allocated then (CA_MALFORMED, Some zero_info)
               else if NUL \<in> set bytes then (CA_MALFORMED, Some zero_info)
               else
                 (case ca_lines \<lparr>slots = replicate CA_MAX_SLOTS zero_slot, declared_slots = 0,
                                 record_count = 0, header_seen = False\<rparr> (split_on LF bytes) of
                    (CA_OK, s) \<Rightarrow> (let (r, i) = ca_finish s in (r, Some i))
                  | (r, _) \<Rightarrow> (r, Some zero_info))))"

fun ca_parse_result_name :: "ca_parse_result \<Rightarrow> cstring" where
  "ca_parse_result_name CA_OK = ''ok''"
| "ca_parse_result_name CA_EMPTY = ''empty''"
| "ca_parse_result_name CA_OVERSIZED = ''oversized''"
| "ca_parse_result_name CA_MALFORMED = ''malformed''"
| "ca_parse_result_name CA_SENTINEL = ''sentinel''"
| "ca_parse_result_name CA_RANGE = ''range''"
| "ca_parse_result_name CA_TOO_MANY = ''too_many''"
| "ca_parse_result_name CA_DUPLICATE = ''duplicate''"
| "ca_parse_result_name CA_COUNT_MISMATCH = ''count_mismatch''"
| "ca_parse_result_name CA_MISSING_PRIMARY = ''missing_primary''"

definition ca_query_command :: cstring where
  "ca_query_command = ''AT+GTCAINFO?''"

definition ca_retry_after_ms :: "int \<Rightarrow> int \<Rightarrow> u32" where
  "ca_retry_after_ms now_us last_query_completed_us =
     cooldown_retry_after_ms CA_QUERY_COOLDOWN_SECONDS now_us last_query_completed_us"


section \<open>Well-formed carriers\<close>

definition radio_wf :: "ca_carrier \<Rightarrow> bool" where
  "radio_wf c \<longleftrightarrow>
     band_downlink_earfcn_is_valid (ucast (ca_band c)) (dl_earfcn c) \<and> ca_pci c \<le> 503 \<and>
     -141 \<le> ca_rsrp_dbm c \<and> ca_rsrp_dbm c \<le> -44 \<and>
     -195 \<le> ca_rsrq_tenths_db c \<and> ca_rsrq_tenths_db c \<le> -25 \<and>
     (if sinr_available c then -500 \<le> ca_sinr_tenths_db c \<and> ca_sinr_tenths_db c \<le> 500
      else ca_sinr_tenths_db c = 0) \<and>
     dl_bandwidth_tenths_mhz c \<in> set bandwidth_values \<and>
     (if uplink_active c
      then band_uplink_earfcn_is_valid (ucast (ca_band c)) (ul_earfcn c) \<and>
        ul_bandwidth_tenths_mhz c \<in> set bandwidth_values
      else ul_bandwidth_tenths_mhz c = 0)"

definition primary_wf :: "ca_carrier \<Rightarrow> bool" where
  "primary_wf c \<longleftrightarrow> radio_wf c \<and> ca_primary c \<and> has_cell_identity c \<and> uplink_active c \<and>
     sinr_available c \<and> ca_index c = 1 \<and> 0 < ca_mcc c \<and> ca_mcc c \<le> 999 \<and> ca_mnc c \<le> 999 \<and>
     ca_tac c < 65535 \<and> ca_cell_id c \<le> CA_CELL_ID_MAX"

definition secondary_wf :: "ca_carrier \<Rightarrow> bool" where
  "secondary_wf c \<longleftrightarrow> radio_wf c \<and> \<not> ca_primary c \<and> \<not> has_cell_identity c \<and> \<not> uplink_active c"

lemma bandwidth_in: "bandwidth_code_to_tenths_mhz c = Some w \<Longrightarrow> w \<in> set bandwidth_values"
proof -
  assume "bandwidth_code_to_tenths_mhz c = Some w"
  then have "w = bandwidth_values ! unat c" "unat c < length bandwidth_values"
    by (auto simp: bandwidth_code_to_tenths_mhz_def bandwidth_values_def word_le_nat_alt split: if_splits)
  then show ?thesis by simp
qed

lemma ucast_small_16:
  fixes x :: u32
  assumes "\<not> m < x" and "unat m < 65536"
  shows "unat (ucast x :: u16) = unat x" and "unat x \<le> unat m"
    and "ucast (ucast x :: u16) = x"
proof -
  from assms(1) show le: "unat x \<le> unat m" by (simp add: word_less_nat_alt)
  with assms(2) show u: "unat (ucast x :: u16) = unat x" by (intro unat_ucast_16) simp
  show "ucast (ucast x :: u16) = x" by (simp add: word_unat_eq_iff unat_ucast_up32 u)
qed

lemma common_in_range:
  assumes "\<not> common_out_of_range n"
  shows "ucast (ucast (n_band n) :: u16) = n_band n" and "(ucast (n_pci n) :: u16) \<le> 503"
    and "int (unat (n_rsrp n)) \<le> 97" and "int (unat (n_rsrq n)) \<le> 34"
    and "n_sinr n \<noteq> CA_SINR_SENTINEL \<Longrightarrow> -100 \<le> n_sinr n \<and> n_sinr n \<le> 100"
    and "band_downlink_earfcn_is_valid (n_band n) (n_dl_earfcn n)"
    and "\<exists>w. bandwidth_code_to_tenths_mhz (n_dl_bandwidth n) = Some w"
proof -
  from assms have r: "\<not> 85 < n_band n" "\<not> 503 < n_pci n" "\<not> 97 < n_rsrp n" "\<not> 34 < n_rsrq n"
    by (simp_all add: common_out_of_range_def)
  show "ucast (ucast (n_band n) :: u16) = n_band n" using ucast_small_16(3) [OF r(1)] by simp
  show "(ucast (n_pci n) :: u16) \<le> 503" using r(2) by (rule ucast_le_503)
  from r(3,4) have "unat (n_rsrp n) \<le> 97" "unat (n_rsrq n) \<le> 34"
    by (simp_all add: word_less_nat_alt not_less)
  then show "int (unat (n_rsrp n)) \<le> 97" "int (unat (n_rsrq n)) \<le> 34" by linarith+
qed (use assms in \<open>auto simp: common_out_of_range_def not_less\<close>)

text \<open>The two ways the shared validation succeeds, and what it leaves in the carrier.\<close>

lemma validate_ok:
  assumes "validate_common_carrier c n inactive nosinr = (CA_OK, d)"
  shows "radio_wf d \<and> (inactive \<or> uplink_active d) \<and> (nosinr \<or> sinr_available d) \<and>
    ul_earfcn d = n_ul_earfcn n"
proof -
  from assms have ok: "\<not> common_sentinel n nosinr" "\<not> common_out_of_range n"
    by (auto simp: validate_common_carrier_def split: if_splits)
  note range = common_in_range [OF ok(2)]
  from range(7) obtain w where w: "bandwidth_code_to_tenths_mhz (n_dl_bandwidth n) = Some w" by blast
  have core: "radio_wf (fill_common n w e)"
    if "if uplink_active e then band_uplink_earfcn_is_valid (n_band n) (n_ul_earfcn n) \<and>
          ul_bandwidth_tenths_mhz e \<in> set bandwidth_values
        else ul_bandwidth_tenths_mhz e = 0" for e
    using range(1-6) that bandwidth_in [OF w]
    by (auto simp: radio_wf_def fill_common_def simp del: of_nat_unat split: if_splits)
  have sinr: "nosinr \<or> n_sinr n \<noteq> CA_SINR_SENTINEL" using ok(1) by (auto simp: common_sentinel_def)
  show ?thesis
  proof (cases "n_ul_bandwidth n = 255")
    case True
    with assms ok w have "inactive" and d: "d = fill_common n w
        (c\<lparr>uplink_active := False, ul_bandwidth_tenths_mhz := 0\<rparr>)"
      by (auto simp: validate_common_carrier_def Let_def split: if_splits)
    with core sinr show ?thesis by (simp add: fill_common_def)
  next
    case False
    with assms ok w obtain u where up: "band_uplink_earfcn_is_valid (n_band n) (n_ul_earfcn n)"
      "bandwidth_code_to_tenths_mhz (n_ul_bandwidth n) = Some u"
      and d: "d = fill_common n w (c\<lparr>ul_bandwidth_tenths_mhz := u, uplink_active := True\<rparr>)"
      by (auto simp: validate_common_carrier_def Let_def split: if_splits option.splits)
    with core sinr bandwidth_in [OF up(2)] show ?thesis by (simp add: fill_common_def)
  qed
qed

lemma radio_wf_update:
  "radio_wf (d\<lparr>ca_index := i, ca_primary := p, has_cell_identity := h\<rparr>) = radio_wf d"
  "radio_wf (d\<lparr>ca_index := i, ca_primary := p, has_cell_identity := h, ca_mcc := mcc,
     ca_mnc := mnc, ca_tac := tac, ca_cell_id := cid\<rparr>) = radio_wf d"
  by (simp_all add: radio_wf_def)

lemma primary_ok:
  assumes "parse_primary_record parts c = (CA_OK, d)"
  shows "primary_wf d"
proof -
  from assms obtain v sinr e where
    v: "\<not> (v ! 2 = 65535 \<or> v ! 4 = 65535)"
      "\<not> (v ! 2 = 0 \<or> 999 < v ! 2 \<or> 999 < v ! 3 \<or> 65535 < v ! 4 \<or> CA_CELL_ID_MAX < v ! 5)"
    and e: "validate_common_carrier c (primary_numbers v sinr) False False = (CA_OK, e)"
    and d: "d = e\<lparr>ca_index := 1, ca_primary := True, has_cell_identity := True,
        ca_mcc := ucast (v ! 2), ca_mnc := ucast (v ! 3), ca_tac := ucast (v ! 4),
        ca_cell_id := v ! 5\<rparr>"
    unfolding parse_primary_record_def
    by (auto split: option.splits prod.splits if_splits ca_parse_result.splits)
  have mcc: "unat (ucast (v ! 2) :: u16) = unat (v ! 2)" "unat (v ! 2) \<le> 999"
    using ucast_small_16 [of 999 "v ! 2"] v(2) by simp_all
  have mnc: "unat (ucast (v ! 3) :: u16) = unat (v ! 3)" "unat (v ! 3) \<le> 999"
    using ucast_small_16 [of 999 "v ! 3"] v(2) by simp_all
  have tac: "unat (ucast (v ! 4) :: u16) = unat (v ! 4)" "unat (v ! 4) \<le> 65535"
    using ucast_small_16 [of 65535 "v ! 4"] v(2) by simp_all
  have tac': "unat (v ! 4) \<noteq> 65535" using v(1) by (auto simp: word_unat_eq_iff)
  have mcc0: "0 < unat (v ! 2)" using v(2) by (simp add: unat_gt_0)
  show ?thesis
    using validate_ok [OF e] mcc mnc tac tac' mcc0 v(2)
    by (simp add: d primary_wf_def radio_wf_update word_less_nat_alt word_le_nat_alt not_less)
qed

lemma secondary_ok:
  assumes "parse_secondary_record parts zero_carrier = (CA_OK, i, active, d)"
  shows "2 \<le> unat i \<and> unat i \<le> CA_MAX_SLOTS \<and> ca_index d = i \<and> \<not> ca_primary d \<and>
    \<not> uplink_active d \<and> (active \<longrightarrow> secondary_wf d)"
proof -
  from assms obtain v sinr where
    v: "\<not> (v ! 0 < 2 \<or> of_nat CA_MAX_SLOTS < v ! 0)" and i: "i = ucast (v ! 0)"
    and rest: "(\<not> active \<and> d = zero_carrier\<lparr>ca_index := i, ca_primary := False,
          ul_earfcn := v ! 7, uplink_active := False, sinr_available := False\<rparr>) \<or>
        (active \<and> (\<exists>e. validate_common_carrier zero_carrier (secondary_numbers v sinr) True True = (CA_OK, e)
          \<and> \<not> uplink_active e \<and>
          d = e\<lparr>ca_index := i, ca_primary := False, has_cell_identity := False\<rparr>))"
    unfolding parse_secondary_record_def Let_def
    by (auto split: option.splits prod.splits if_splits ca_parse_result.splits)
  have "2 \<le> unat (v ! 0)" "unat (v ! 0) \<le> 8"
    using v by (simp_all add: word_less_nat_alt not_less CA_MAX_SLOTS_def)
  moreover from this have "unat (ucast (v ! 0) :: u8) = unat (v ! 0)"
    by (simp add: unsigned_ucast_eq take_bit_nat_eq_self)
  ultimately have "2 \<le> unat i \<and> unat i \<le> CA_MAX_SLOTS" by (simp add: i CA_MAX_SLOTS_def)
  with rest show ?thesis
    by (auto simp: zero_carrier_def secondary_wf_def radio_wf_update dest: validate_ok)
qed


section \<open>The loop over the lines\<close>

definition slot_ok :: "nat \<Rightarrow> ca_slot \<Rightarrow> bool" where
  "slot_ok i t \<longleftrightarrow>
     (if slot_seen t
      then unat (ca_index (slot_carrier t)) = Suc i \<and>
        (if i = 0 then slot_active t \<and> primary_wf (slot_carrier t)
         else \<not> uplink_active (slot_carrier t) \<and> (slot_active t \<longrightarrow> secondary_wf (slot_carrier t)))
      else \<not> slot_active t)"

definition ca_inv :: "ca_loop \<Rightarrow> bool" where
  "ca_inv s \<longleftrightarrow> length (slots s) = CA_MAX_SLOTS \<and> unat (declared_slots s) \<le> CA_MAX_SLOTS \<and>
     (header_seen s \<longrightarrow> 0 < declared_slots s) \<and> (\<forall>i < CA_MAX_SLOTS. slot_ok i (slots s ! i))"

lemma file_record_inv:
  assumes "ca_inv s" and "1 \<le> unat i" and "unat i \<le> CA_MAX_SLOTS"
    and "slot_ok (unat i - 1) \<lparr>slot_seen = True, slot_active = active, slot_carrier = c\<rparr>"
    and "ca_file_record s i active c = (CA_OK, s')"
  shows "ca_inv s'"
  using assms by (auto simp: ca_file_record_def ca_inv_def nth_list_update split: if_splits)

lemma primary_index: "primary_wf c \<Longrightarrow> unat (ca_index c) = 1"
  by (simp add: primary_wf_def)

lemma ca_line_inv:
  assumes "ca_inv s" and "ca_line s l = (CA_OK, s')"
  shows "ca_inv s'"
proof -
  define current where "current = response_line l"
  obtain k parts where sf: "split_fields (CA_PRIMARY_FIELD_COUNT + 1) 0 []
      (split_on (CHR '','') (trim_ascii (drop 10 current))) = (k, parts)" by fastforce
  note run = assms(2) [unfolded ca_line_def Let_def, folded current_def, unfolded sf]
  consider (blank) "s' = s" | (header) d where "s' = s\<lparr>declared_slots := d, header_seen := True\<rparr>"
      "d \<noteq> 0" "\<not> of_nat CA_MAX_SLOTS < d"
    | (primary) c where "parse_primary_record parts zero_carrier = (CA_OK, c)"
      "ca_file_record s (ca_index c) True c = (CA_OK, s')"
    | (secondary) i active c where "parse_secondary_record parts zero_carrier = (CA_OK, i, active, c)"
      "ca_file_record s i active c = (CA_OK, s')"
    using run
    by (auto split: if_splits option.splits prod.splits ca_parse_result.splits)
  then show ?thesis
  proof cases
    case header
    then have "unat d \<le> CA_MAX_SLOTS" "0 < d"
      by (simp_all add: word_less_nat_alt CA_MAX_SLOTS_def unat_gt_0)
    with assms(1) header show ?thesis by (simp add: ca_inv_def)
  next
    case primary
    note wf = primary_ok [OF primary(1)]
    with file_record_inv [OF assms(1) _ _ _ primary(2)] primary_index [OF wf] show ?thesis
      by (simp add: slot_ok_def CA_MAX_SLOTS_def)
  next
    case secondary
    from secondary_ok [OF secondary(1)] file_record_inv [OF assms(1) _ _ _ secondary(2)]
    show ?thesis by (simp add: slot_ok_def)
  qed (use assms(1) in simp)
qed

lemma ca_lines_inv: "ca_inv s \<Longrightarrow> ca_lines s ls = (CA_OK, s') \<Longrightarrow> ca_inv s'"
proof (induction ls arbitrary: s)
  case (Cons l ls)
  obtain r1 s1 where "ca_line s l = (r1, s1)" by fastforce
  with Cons show ?case by (cases r1) (auto dest: ca_line_inv)
qed simp

lemma ca_inv_init:
  "ca_inv \<lparr>slots = replicate CA_MAX_SLOTS zero_slot, declared_slots = 0, record_count = 0,
     header_seen = False\<rparr>"
  by (simp add: ca_inv_def slot_ok_def zero_slot_def)

section \<open>Collecting the carriers\<close>

abbreviation active_carriers :: "ca_slot list \<Rightarrow> ca_carrier list" where
  "active_carriers ts \<equiv> map slot_carrier (filter slot_active ts)"

definition no_duplicates :: "ca_carrier list \<Rightarrow> bool" where
  "no_duplicates cs \<longleftrightarrow> sorted_wrt (\<lambda>a b. \<not> carriers_are_duplicate b a) cs"

lemma ca_collect_ok:
  "ca_collect earlier rest out = (CA_OK, out') \<Longrightarrow> no_duplicates (active_carriers earlier) \<Longrightarrow>
   out' = out @ active_carriers rest \<and> list_all slot_seen rest \<and>
   no_duplicates (active_carriers (earlier @ rest))"
proof (induction earlier rest out rule: ca_collect.induct)
  case (2 earlier t rest out)
  show ?case
  proof (cases "slot_active t")
    case True
    with "2.prems" have fresh: "\<not> list_ex (\<lambda>e. slot_active e \<and>
        carriers_are_duplicate (slot_carrier t) (slot_carrier e)) earlier" "slot_seen t"
      and run: "ca_collect (earlier @ [t]) rest (out @ [slot_carrier t]) = (CA_OK, out')"
      by (auto split: if_splits)
    have "no_duplicates (active_carriers (earlier @ [t]))"
      using "2.prems"(2) fresh True by (auto simp: no_duplicates_def sorted_wrt_append list_ex_iff)
    with "2.IH"(2) True fresh run show ?thesis by simp
  next
    case False
    with "2.prems" "2.IH"(1) show ?thesis by (auto split: if_splits)
  qed
qed simp

definition carriers_wf :: "ca_carrier list \<Rightarrow> u8 \<Rightarrow> bool" where
  "carriers_wf cs n \<longleftrightarrow>
     (case cs of
        [] \<Rightarrow> False
      | p # rest \<Rightarrow> primary_wf p \<and> list_all secondary_wf rest \<and>
          list_all (\<lambda>c. ul_earfcn c = ul_earfcn p) rest) \<and>
     sorted_wrt (\<lambda>a b. ca_index a < ca_index b) cs \<and> list_all (\<lambda>c. ca_index c \<le> n) cs \<and>
     n \<le> of_nat CA_MAX_SLOTS \<and> no_duplicates cs"

lemma used_slots_sorted:
  assumes "\<forall>i < length ts. slot_ok i (ts ! i)" and "list_all slot_seen ts"
  shows "sorted_wrt (\<lambda>a b. ca_index a < ca_index b) (active_carriers ts)"
    and "list_all (\<lambda>c. unat (ca_index c) \<le> length ts) (active_carriers ts)"
proof -
  have idx: "unat (ca_index (slot_carrier (ts ! i))) = Suc i" if "i < length ts" for i
    using assms that by (auto simp: slot_ok_def list_all_nth)
  have "sorted_wrt (\<lambda>a b. ca_index (slot_carrier a) < ca_index (slot_carrier b)) ts"
    unfolding sorted_wrt_iff_nth_less by (auto simp: word_less_nat_alt idx)
  then show "sorted_wrt (\<lambda>a b. ca_index a < ca_index b) (active_carriers ts)"
    by (auto simp: sorted_wrt_map intro: sorted_wrt_filter)
  show "list_all (\<lambda>c. unat (ca_index c) \<le> length ts) (active_carriers ts)"
    using idx by (auto simp: list_all_iff in_set_conv_nth Suc_le_eq)
qed

lemma ca_finish_ok:
  assumes inv: "ca_inv s" and run: "ca_finish s = (CA_OK, info)"
  shows "carriers_wf (carriers info) (info_declared_slots info)"
proof -
  let ?n = "unat (declared_slots s)"
  let ?used = "take ?n (slots s)"
  from run obtain out where hdr: "header_seen s" and first: "slot_seen (slots s ! 0)" "slot_active (slots s ! 0)"
    and ul: "\<not> list_ex (\<lambda>t. \<not> uplink_active (slot_carrier t) \<and>
      ul_earfcn (slot_carrier t) \<noteq> ul_earfcn (slot_carrier (slots s ! 0))) (drop 1 ?used)"
    and col: "ca_collect [] ?used [] = (CA_OK, out)"
    and info: "info = \<lparr>carriers = out, info_declared_slots = ucast (declared_slots s)\<rparr>"
    by (auto simp: ca_finish_def Let_def split: if_splits prod.splits ca_parse_result.splits)
  from ca_collect_ok [OF col] have out: "out = active_carriers ?used"
    and seen: "list_all slot_seen ?used" and dup: "no_duplicates out"
    by (auto simp: no_duplicates_def)
  from inv hdr have n: "1 \<le> ?n" "?n \<le> 8" "length (slots s) = 8"
    by (auto simp: ca_inv_def CA_MAX_SLOTS_def Suc_le_eq unat_gt_0)
  have ok: "\<forall>i < length ?used. slot_ok i (?used ! i)"
    using inv n by (auto simp: ca_inv_def CA_MAX_SLOTS_def)
  obtain t0 ts where used: "?used = t0 # ts" using n by (cases ?used) auto
  have t0: "t0 = slots s ! 0" using used n by (metis nth_Cons_0 nth_take less_le_trans zero_less_one)
  have p: "primary_wf (slot_carrier t0)" "slot_active t0"
    using ok used first t0 by (auto simp: slot_ok_def)
  have sec: "secondary_wf (slot_carrier t)" if "t \<in> set ts" "slot_active t" for t
  proof -
    from that(1) obtain i where "i < length ts" "t = ts ! i" by (auto simp: in_set_conv_nth)
    with ok seen used that(2) show ?thesis
      by (auto simp: slot_ok_def list_all_iff dest!: spec [of _ "Suc i"])
  qed
  have "ul_earfcn (slot_carrier t) = ul_earfcn (slot_carrier t0)" if "t \<in> set ts" "slot_active t" for t
    using ul sec [OF that] that(1) used t0 by (auto simp: list_ex_iff secondary_wf_def)
  moreover note used_slots_sorted [OF ok seen]
  moreover have "unat (ucast (declared_slots s) :: u8) = ?n"
    using n(2) by (simp add: unsigned_ucast_eq take_bit_nat_eq_self)
  moreover have "Suc (length ts) = ?n" using arg_cong [OF used, of length] n by simp
  ultimately show ?thesis
    using p sec dup out used n
    by (auto simp: info carriers_wf_def list_all_iff word_le_nat_alt CA_MAX_SLOTS_def)
qed

lemma ca_finish_fail: "ca_finish s = (r, info) \<Longrightarrow> r \<noteq> CA_OK \<Longrightarrow> info = zero_info"
  by (auto simp: ca_finish_def Let_def split: if_splits prod.splits ca_parse_result.splits)

section \<open>Properties\<close>

text \<open>C34: The carrier parser is fail-closed. Whatever bytes the modem sends, an accepted response
  yields a valid primary carrier first, then valid downlink-only secondary carriers that share
  its uplink channel, in slot order within the declared slots, no two on the same band,
  channel and cell; a rejected response yields the zeroed result.\<close>

theorem ca_parse_fail_closed:
  "case ca_parse allocated response (Some before) of
     (r, out) \<Rightarrow>
       if r = CA_OK
       then (\<exists>info. out = Some info \<and> carriers_wf (carriers info) (info_declared_slots info))
       else out = Some zero_info"
proof -
  let ?s = "\<lparr>slots = replicate CA_MAX_SLOTS zero_slot, declared_slots = 0, record_count = 0,
    header_seen = False\<rparr>"
  show ?thesis
  proof (cases "\<exists>bytes s'. response = Some bytes \<and> bytes \<noteq> [] \<and> \<not> CA_MAX_RESPONSE < length bytes \<and>
      allocated \<and> NUL \<notin> set bytes \<and> ca_lines ?s (split_on LF bytes) = (CA_OK, s')")
    case True
    then obtain bytes s' where b: "response = Some bytes" "bytes \<noteq> []"
      "\<not> CA_MAX_RESPONSE < length bytes" "allocated" "NUL \<notin> set bytes"
      and run: "ca_lines ?s (split_on LF bytes) = (CA_OK, s')" by blast
    obtain r info where fin: "ca_finish s' = (r, info)" by fastforce
    from b run fin ca_finish_ok [OF ca_lines_inv [OF ca_inv_init run]] ca_finish_fail [OF fin]
    show ?thesis by (simp add: ca_parse_def)
  next
    case False
    then show ?thesis
      by (auto simp: ca_parse_def split: option.splits prod.splits ca_parse_result.splits)
  qed
qed

end
