(* ===== verification/Voltage.thy ===== *)
theory Voltage
  imports Numbers
begin

text \<open>
  The supply voltage response (\<open>l850_voltage.c\<close>): one non-empty line \<open>+CBC: status,millivolts\<close>.
\<close>

section \<open>Data\<close>

definition VOLTAGE_PREFIX :: cstring where "VOLTAGE_PREFIX = ''+CBC:''"
definition VOLTAGE_STATUS_MAX :: u32 where "VOLTAGE_STATUS_MAX = 3"
definition VOLTAGE_MAX_RESPONSE :: nat where "VOLTAGE_MAX_RESPONSE = 128"
definition VOLTAGE_MIN_MV :: u32 where "VOLTAGE_MIN_MV = 2500"
definition VOLTAGE_MAX_MV :: u32 where "VOLTAGE_MAX_MV = 5000"

datatype voltage_parse_result =
  VOLTAGE_OK | VOLTAGE_EMPTY | VOLTAGE_OVERSIZED | VOLTAGE_MALFORMED | VOLTAGE_RANGE

record voltage =
  volt_status :: u8
  millivolts :: u32

definition zero_voltage :: voltage where
  "zero_voltage = \<lparr>volt_status = 0, millivolts = 0\<rparr>"

section \<open>Operations\<close>

text \<open>The loop that looks for the only non-empty line; \<open>Inl\<close> is a second one.\<close>

fun find_record :: "cstring option \<Rightarrow> cstring list \<Rightarrow> voltage_parse_result + cstring option" where
  "find_record found [] = Inr found"
| "find_record found (line # rest) =
     (let trimmed = response_line line in
      if trimmed \<noteq> [] then
        (if found \<noteq> None then Inl VOLTAGE_MALFORMED else find_record (Some trimmed) rest)
      else find_record found rest)"

definition parse_record :: "cstring \<Rightarrow> voltage_parse_result \<times> voltage" where
  "parse_record line =
     (if take (length VOLTAGE_PREFIX) line \<noteq> VOLTAGE_PREFIX then (VOLTAGE_MALFORMED, zero_voltage)
      else
        (case split_on (CHR '','') (trim_ascii (drop (length VOLTAGE_PREFIX) line)) of
           [left, right] \<Rightarrow>
             (case (voltage_parse_uint32_decimal (Some (trim_ascii left)),
                    voltage_parse_uint32_decimal (Some (trim_ascii right))) of
                (Some status, Some mv) \<Rightarrow>
                  if VOLTAGE_STATUS_MAX < status \<or> mv < VOLTAGE_MIN_MV \<or> VOLTAGE_MAX_MV < mv
                  then (VOLTAGE_RANGE, zero_voltage)
                  else (VOLTAGE_OK, \<lparr>volt_status = ucast status, millivolts = mv\<rparr>)
              | _ \<Rightarrow> (VOLTAGE_MALFORMED, zero_voltage))
         | _ \<Rightarrow> (VOLTAGE_MALFORMED, zero_voltage)))"

definition voltage_parse ::
    "bool \<Rightarrow> buffer \<Rightarrow> voltage option \<Rightarrow> voltage_parse_result \<times> voltage option" where
  "voltage_parse allocated response voltage =
     (case voltage of
        None \<Rightarrow> (VOLTAGE_MALFORMED, None)
      | Some _ \<Rightarrow>
          (case response of
             None \<Rightarrow> (VOLTAGE_EMPTY, Some zero_voltage)
           | Some bytes \<Rightarrow>
               if bytes = [] then (VOLTAGE_EMPTY, Some zero_voltage)
               else if VOLTAGE_MAX_RESPONSE < length bytes then (VOLTAGE_OVERSIZED, Some zero_voltage)
               else if \<not> allocated then (VOLTAGE_MALFORMED, Some zero_voltage)
               else if NUL \<in> set bytes then (VOLTAGE_MALFORMED, Some zero_voltage)
               else
                 (case find_record None (split_on LF bytes) of
                    Inl r \<Rightarrow> (r, Some zero_voltage)
                  | Inr None \<Rightarrow> (VOLTAGE_EMPTY, Some zero_voltage)
                  | Inr (Some line) \<Rightarrow> (let (r, v) = parse_record line in (r, Some v)))))"

fun voltage_parse_result_name :: "voltage_parse_result \<Rightarrow> cstring" where
  "voltage_parse_result_name VOLTAGE_OK = ''ok''"
| "voltage_parse_result_name VOLTAGE_EMPTY = ''empty''"
| "voltage_parse_result_name VOLTAGE_OVERSIZED = ''oversized''"
| "voltage_parse_result_name VOLTAGE_MALFORMED = ''malformed''"
| "voltage_parse_result_name VOLTAGE_RANGE = ''range''"

definition voltage_query_command :: cstring where
  "voltage_query_command = ''AT+CBC''"

section \<open>Accepted records\<close>

lemma find_record_sound:
  "find_record found ls = Inl r \<Longrightarrow> r \<noteq> VOLTAGE_OK"
  by (induction found ls rule: find_record.induct) (auto simp: Let_def split: if_splits)

lemma parse_record_cases:
  assumes "parse_record line = (r, v)"
  shows "if r = VOLTAGE_OK then volt_status v \<le> 3 \<and> 2500 \<le> millivolts v \<and> millivolts v \<le> 5000
    else v = zero_voltage"
proof -
  have cast: "(ucast (x :: u32) :: u8) \<le> 3" if "\<not> 3 < x" for x
  proof -
    from that have "unat x \<le> 3" by (simp add: word_less_nat_alt)
    then show ?thesis by (simp add: word_le_nat_alt unsigned_ucast_eq take_bit_nat_eq_self)
  qed
  show ?thesis
    using assms unfolding parse_record_def
    by (auto simp: VOLTAGE_STATUS_MAX_def VOLTAGE_MIN_MV_def VOLTAGE_MAX_MV_def cast not_less
        split: if_splits list.splits option.splits)
qed

text \<open>The line a modem writes.\<close>

definition voltage_line :: "nat \<Rightarrow> nat \<Rightarrow> cstring" where
  "voltage_line status mv = ''+CBC: '' @ show_u status @ '','' @ show_u mv"

lemma voltage_show_u:
  assumes "n \<le> 4294967295"
  shows "voltage_parse_uint32_decimal (Some (show_u n)) = Some (of_nat n)"
proof -
  have "map_option unat (voltage_parse_uint32_decimal (Some (show_u n))) = Some n"
    using accumulators(3) [of "show_u n"] digits_value_show_u [of 10 n] assms
    by (simp add: voltage_parse_uint32_decimal_def within_def)
  then show ?thesis by auto
qed

lemma voltage_body_trim:
  "trim_ascii (CHR '' '' # show_u a @ CHR '','' # show_u b) = show_u a @ CHR '','' # show_u b"
  "trim_ascii (''+CBC: '' @ show_u a @ CHR '','' # show_u b) = ''+CBC: '' @ show_u a @ CHR '','' # show_u b"
proof -
  let ?body = "show_u a @ CHR '','' # show_u b"
  have ends: "\<not> is_blank (hd ?body)" "\<not> is_blank (last ?body)"
    using show_u_not_special [of "hd (show_u a)" a] show_u_not_special [of "last (show_u b)" b]
    by simp_all
  then have "trim_ascii ?body = ?body" by (intro trim_ascii_id) simp
  moreover have "is_blank (CHR '' '')" by (simp add: is_blank_def)
  ultimately show "trim_ascii (CHR '' '' # ?body) = ?body"
    by (simp add: trim_ascii_def)
  have "\<not> is_blank (CHR ''+'')" by (simp add: is_blank_def)
  with ends(2) show "trim_ascii (''+CBC: '' @ ?body) = ''+CBC: '' @ ?body"
    by (intro trim_ascii_id) simp
qed

lemma voltage_line_chars:
  assumes "c \<in> set (voltage_line a b)"
  shows "c \<noteq> LF \<and> c \<noteq> NUL \<and> c \<noteq> CR"
proof -
  consider "c \<in> set ''+CBC: ,''" | "c \<in> set (show_u a)" | "c \<in> set (show_u b)"
    using assms by (auto simp: voltage_line_def)
  then show ?thesis
  proof cases
    case 1
    then show ?thesis by auto
  qed (use show_u_not_special in blast)+
qed

lemma parse_record_line:
  assumes "a \<le> 3" and "2500 \<le> b" and "b \<le> 5000"
  shows "parse_record (voltage_line a b) =
    (VOLTAGE_OK, \<lparr>volt_status = of_nat a, millivolts = of_nat b\<rparr>)"
proof -
  have nc: "CHR '','' \<notin> set (show_u n)" for n
    using show_u_not_special [of "CHR '',''" n] by blast
  have "split_on (CHR '','') (trim_ascii (drop (length VOLTAGE_PREFIX) (voltage_line a b))) =
      [show_u a, show_u b]"
    using nc [of a] nc [of b]
    by (simp add: VOLTAGE_PREFIX_def voltage_line_def voltage_body_trim split_on_append split_on_no_sep)
  moreover have "take (length VOLTAGE_PREFIX) (voltage_line a b) = VOLTAGE_PREFIX"
    by (simp add: VOLTAGE_PREFIX_def voltage_line_def)
  moreover have "\<not> VOLTAGE_STATUS_MAX < of_nat a" "\<not> of_nat b < VOLTAGE_MIN_MV"
    "\<not> VOLTAGE_MAX_MV < of_nat b"
    using assms by (simp_all add: word_less_nat_alt unat_of_nat_id VOLTAGE_STATUS_MAX_def
        VOLTAGE_MIN_MV_def VOLTAGE_MAX_MV_def)
  ultimately show ?thesis
    using assms by (simp add: parse_record_def voltage_show_u ucast_of_nat_small)
qed

section \<open>Properties\<close>

text \<open>The voltage parser is fail-closed: an accepted response yields a status of at most 3 and
  between 2500 and 5000 millivolts, and any other response yields the zeroed reading.\<close>

lemma voltage_parse_fail_closed:
  "case voltage_parse allocated response (Some before) of
     (r, out) \<Rightarrow>
       \<exists>v. out = Some v \<and>
         (if r = VOLTAGE_OK then volt_status v \<le> 3 \<and> 2500 \<le> millivolts v \<and> millivolts v \<le> 5000
          else v = zero_voltage)"
  using find_record_sound [of None] parse_record_cases
  by (auto simp: voltage_parse_def split: option.splits sum.splits prod.splits)


text \<open>Every reading in range survives the trip over the wire: the line a modem writes for a status
  up to 3 and a voltage between 2500 and 5000 millivolts parses to exactly that reading.\<close>

lemma voltage_round_trip:
  assumes "a \<le> 3" and "2500 \<le> b" and "b \<le> 5000"
  shows "voltage_parse True (Some (voltage_line a b)) (Some before) =
    (VOLTAGE_OK, Some \<lparr>volt_status = of_nat a, millivolts = of_nat b\<rparr>)"
proof -
  let ?l = "voltage_line a b"
  have "length (show_u a) \<le> 1" "length (show_u b) \<le> 4"
    using assms by (auto intro!: length_show_u)
  then have len: "length ?l \<le> VOLTAGE_MAX_RESPONSE" by (simp add: voltage_line_def VOLTAGE_MAX_RESPONSE_def)
  have ne: "?l \<noteq> []" by (simp add: voltage_line_def)
  have chars: "LF \<notin> set ?l" "NUL \<notin> set ?l" "last ?l \<noteq> CR"
    using voltage_line_chars [of _ a b] last_in_set [OF ne] by blast+
  have "response_line ?l = ?l"
    using chars(3) voltage_body_trim(2) [of a b]
    by (simp add: response_line_def strip_cr_def voltage_line_def)
  then have "find_record None (split_on LF ?l) = Inr (Some ?l)"
    using chars(1) ne by (simp add: split_on_no_sep)
  with len ne chars(2) parse_record_line [OF assms] show ?thesis
    by (simp add: voltage_parse_def not_less [symmetric])
qed

end
