(* ===== verification/Errors.thy ===== *)
theory Errors
  imports Ascii
begin

text \<open>
  Normalisation of ModemManager and D-Bus errors into the codes of the RPC interface
  (\<open>ubus_glib.c\<close>). An error is the code its domain gives it, one constructor for each pair of
  domain and code the sources test, and the remote name D-Bus carries, if any. The version test
  of libmm-glib at build time is the argument \<open>mm_1_24\<close>.
\<close>

section \<open>Errors\<close>

datatype error_code =
    G_DBUS_ERROR_ACCESS_DENIED | G_DBUS_ERROR_AUTH_FAILED | G_DBUS_ERROR_NAME_HAS_NO_OWNER
  | G_DBUS_ERROR_NOT_SUPPORTED | G_DBUS_ERROR_NO_REPLY | G_DBUS_ERROR_SERVICE_UNKNOWN
  | G_DBUS_ERROR_TIMEOUT | G_DBUS_ERROR_UNKNOWN_METHOD | G_IO_ERROR_BROKEN_PIPE
  | G_IO_ERROR_CANCELLED | G_IO_ERROR_CLOSED | G_IO_ERROR_PERMISSION_DENIED
  | G_IO_ERROR_TIMED_OUT | MM_CORE_ERROR_INVALID_ARGS | MM_CORE_ERROR_IN_PROGRESS
  | MM_CORE_ERROR_NOT_FOUND | MM_CORE_ERROR_RESET_AND_RETRY | MM_CORE_ERROR_RETRY
  | MM_CORE_ERROR_THROTTLED | MM_CORE_ERROR_TIMEOUT | MM_CORE_ERROR_UNAUTHORIZED
  | MM_CORE_ERROR_UNSUPPORTED | MM_CORE_ERROR_WRONG_SIM_STATE | MM_CORE_ERROR_WRONG_STATE
  | MM_MESSAGE_ERROR_INVALID_INDEX | MM_MESSAGE_ERROR_INVALID_PDU_PARAMETER
  | MM_MESSAGE_ERROR_INVALID_TEXT_PARAMETER
  | MM_MESSAGE_ERROR_MEMORY_FULL | MM_MESSAGE_ERROR_NETWORK_TIMEOUT | MM_MESSAGE_ERROR_NOT_ALLOWED
  | MM_MESSAGE_ERROR_NOT_SUPPORTED | MM_MESSAGE_ERROR_NO_NETWORK | MM_MESSAGE_ERROR_SIM_BUSY
  | MM_MESSAGE_ERROR_SIM_NOT_INSERTED | MM_MOBILE_EQUIPMENT_ERROR_INCORRECT_PARAMETERS | MM_MOBILE_EQUIPMENT_ERROR_INVALID_CHARS
  | MM_MOBILE_EQUIPMENT_ERROR_INVALID_INDEX | MM_MOBILE_EQUIPMENT_ERROR_MEMORY_FULL | MM_MOBILE_EQUIPMENT_ERROR_NETWORK_TIMEOUT
  | MM_MOBILE_EQUIPMENT_ERROR_NOT_ALLOWED | MM_MOBILE_EQUIPMENT_ERROR_NOT_FOUND | MM_MOBILE_EQUIPMENT_ERROR_NOT_SUPPORTED
  | MM_MOBILE_EQUIPMENT_ERROR_NO_NETWORK | MM_MOBILE_EQUIPMENT_ERROR_SIM_BUSY | MM_MOBILE_EQUIPMENT_ERROR_SIM_NOT_INSERTED
  | MM_MOBILE_EQUIPMENT_ERROR_TEXT_TOO_LONG
  | OTHER_ERROR

record gerror =
  gerror_code :: error_code
  remote_name :: "cstring option"

definition error_matches :: "gerror \<Rightarrow> error_code \<Rightarrow> bool" where
  "error_matches e c \<longleftrightarrow> gerror_code e = c"

text \<open>\<open>g_dbus_error_get_remote_error\<close>, called only for remote errors.\<close>

definition remote_of :: "gerror option \<Rightarrow> cstring option" where
  "remote_of error = (case error of None \<Rightarrow> None | Some e \<Rightarrow> remote_name e)"

definition remote_error_has_suffix :: "cstring option \<Rightarrow> cstring \<Rightarrow> bool" where
  "remote_error_has_suffix remote sfx =
     (case remote of None \<Rightarrow> False | Some r \<Rightarrow> suffix sfx r)"

definition mm_core_error_is_timeout :: "bool \<Rightarrow> gerror option \<Rightarrow> bool" where
  "mm_core_error_is_timeout mm_1_24 error =
     (mm_1_24 \<and> (case error of None \<Rightarrow> False | Some e \<Rightarrow> error_matches e MM_CORE_ERROR_TIMEOUT))"

definition mm_core_error_is_throttled :: "bool \<Rightarrow> gerror option \<Rightarrow> bool" where
  "mm_core_error_is_throttled mm_1_24 error =
     (mm_1_24 \<and> (case error of None \<Rightarrow> False | Some e \<Rightarrow> error_matches e MM_CORE_ERROR_THROTTLED))"

section \<open>Messages\<close>

definition sms_error_message :: "cstring \<Rightarrow> cstring" where
  "sms_error_message code_name =
     (if code_name = ''device_gone'' then ''The modem was removed during the operation''
      else if code_name = ''stale_identity'' then ''The modem identity is no longer live''
      else if code_name = ''stale_generation'' then ''The modem generation changed; refresh and retry''
      else if code_name = ''stale_messaging_generation'' then ''The active SIM or Messaging view changed; refresh and retry''
      else if code_name = ''stale_cursor'' then ''The SMS inventory changed; restart pagination''
      else if code_name = ''unsupported'' then ''This SMS operation is not supported by the modem''
      else if code_name = ''not_ready'' then ''The modem is not ready for this SMS operation''
      else if code_name = ''busy'' then ''Another modem mutation is already in progress''
      else if code_name = ''timeout'' then ''The SMS operation timed out''
      else if code_name = ''outcome_unknown'' then ''The SMS may have been sent; refresh before any retry''
      else if code_name = ''storage_full'' then ''The modem or SIM SMS storage is full''
      else if code_name = ''permission_denied'' then ''ModemManager denied this SMS operation''
      else if code_name = ''dependency_unavailable'' then ''ModemManager is not available''
      else if code_name = ''not_found'' then ''The SMS is no longer present in the live inventory''
      else if code_name = ''invalid_argument'' then ''The SMS operation arguments are invalid''
      else if code_name = ''internal_error'' then ''The SMS operation could not be tracked safely''
      else ''The SMS operation failed'')"

definition advanced_error_message :: "cstring \<Rightarrow> cstring" where
  "advanced_error_message code_name =
     (if code_name = ''device_gone'' then ''The modem was removed during the operation''
      else if code_name = ''stale_identity'' then ''The modem identity is no longer live''
      else if code_name = ''stale_generation'' then ''The modem generation changed; refresh before retrying''
      else if code_name = ''unsupported'' then ''The live modem does not expose this reviewed operation''
      else if code_name = ''not_ready'' then ''The modem is not ready for this operation''
      else if code_name = ''busy'' then ''Another modem mutation or cooldown is in progress''
      else if code_name = ''outcome_unknown'' then ''The operation outcome is unknown; refresh before any retry''
      else if code_name = ''permission_denied'' then ''ModemManager denied this operation''
      else if code_name = ''dependency_unavailable'' then ''A required ModemManager or network configuration dependency is unavailable''
      else if code_name = ''ambiguous_device'' then ''More than one matching network interface owns this modem''
      else if code_name = ''netifd_binding_not_found'' then ''No uniquely bound netifd ModemManager interface was found''
      else if code_name = ''netifd_binding_ambiguous'' then ''The modem has an ambiguous or unsafe netifd binding''
      else if code_name = ''persistence_failed'' then ''The netifd radio-mode intent could not be committed and verified''
      else if code_name = ''managed_by_netifd'' then ''The bound netifd interface owns radio state; change it in Network Interfaces''
      else if code_name = ''invalid_argument'' then ''The operation arguments are invalid''
      else ''The modem operation failed'')"

definition l850_error_message :: "cstring \<Rightarrow> cstring" where
  "l850_error_message code_name =
     (if code_name = ''invalid_argument'' then ''The expert request arguments are invalid''
      else if code_name = ''stale_identity'' then ''The opaque modem identity is no longer live''
      else if code_name = ''stale_generation'' then ''The modem generation changed; refresh before continuing''
      else if code_name = ''device_gone'' then ''The modem was removed during the expert operation''
      else if code_name = ''dependency_unavailable'' then ''ModemManager is not available''
      else if code_name = ''unsupported'' then ''The exact L850-GL MBIM hardware could not be attested''
      else if code_name = ''unsupported_protocol'' then ''The required L850 command protocol is not available''
      else if code_name = ''rate_limited'' then ''The expert modem query is rate limited''
      else if code_name = ''timeout'' then ''The expert ModemManager operation timed out''
      else if code_name = ''permission_denied'' then ''ModemManager denied the reviewed expert command transport''
      else if code_name = ''malformed_response'' then ''ModemManager returned malformed or oversized expert data''
      else if code_name = ''busy'' then ''Another per-modem expert operation is in progress''
      else if code_name = ''not_ready'' then ''Supported LTE bands are not available''
      else if code_name = ''outcome_unknown'' then ''The command was dispatched but its final hardware outcome is unknown''
      else if code_name = ''reprobe_timeout'' then ''The attested modem did not reappear before the reprobe deadline''
      else if code_name = ''registration_timeout'' then ''The replacement modem did not register before the deadline''
      else if code_name = ''verification_mismatch'' then ''The persisted NVM or post-reset state does not match the request''
      else if code_name = ''operation_failed'' then ''The reviewed firmware command was rejected before verification''
      else ''The expert command transport is unavailable'')"

section \<open>SMS operations\<close>

record normalized_error =
  norm_code :: cstring
  norm_message :: cstring
  norm_retryable :: bool

definition sms_normalized :: "cstring \<Rightarrow> bool \<Rightarrow> normalized_error" where
  "sms_normalized c r = \<lparr>norm_code = c, norm_message = sms_error_message c, norm_retryable = r\<rparr>"

definition sms_error_is_timeout_or_transport :: "bool \<Rightarrow> gerror option \<Rightarrow> cstring option \<Rightarrow> bool" where
  "sms_error_is_timeout_or_transport mm_1_24 error remote =
     (case error of
        None \<Rightarrow> False
      | Some e \<Rightarrow>
          error_matches e G_IO_ERROR_TIMED_OUT \<or> error_matches e G_IO_ERROR_CANCELLED \<or>
          error_matches e G_IO_ERROR_CLOSED \<or> error_matches e G_IO_ERROR_BROKEN_PIPE \<or>
          error_matches e G_DBUS_ERROR_NO_REPLY \<or> error_matches e G_DBUS_ERROR_TIMEOUT \<or>
          mm_core_error_is_timeout mm_1_24 (Some e) \<or>
          error_matches e MM_MOBILE_EQUIPMENT_ERROR_NETWORK_TIMEOUT \<or>
          error_matches e G_DBUS_ERROR_SERVICE_UNKNOWN \<or>
          error_matches e G_DBUS_ERROR_NAME_HAS_NO_OWNER \<or>
          mm_core_error_is_timeout mm_1_24 (Some e) \<or>
          error_matches e MM_MESSAGE_ERROR_NETWORK_TIMEOUT \<or>
          error_matches e MM_MOBILE_EQUIPMENT_ERROR_NETWORK_TIMEOUT \<or>
          remote_error_has_suffix remote ''.Core.Timeout'' \<or>
          remote_error_has_suffix remote ''.MobileEquipment.NetworkTimeout'' \<or>
          remote_error_has_suffix remote ''.Message.NetworkTimeout'')"

datatype sms_operation_type = SMS_OPERATION_SEND | SMS_OPERATION_DELETE

text \<open>The part of the modem the normalisation reads; \<open>view_messaging\<close> is the Messaging object, if any.\<close>

record modem_view =
  view_live :: bool
  view_generation :: u32
  view_messaging_generation :: u32
  view_messaging :: "nat option"

record sms_operation_view =
  sms_type :: sms_operation_type
  sms_modem :: "modem_view option"
  sms_generation :: u32
  sms_messaging_generation :: u32
  sms_messaging :: nat
  sms_timed_out :: bool
  sms_send_dispatched :: bool
  sms_transport_lost :: bool

definition normalize_sms_error ::
    "bool \<Rightarrow> gerror option \<Rightarrow> sms_operation_view \<Rightarrow> normalized_error" where
  "normalize_sms_error mm_1_24 error op =
     (let remote = remote_of error in
      if sms_type op = SMS_OPERATION_SEND \<and> sms_send_dispatched op \<and>
         (sms_timed_out op \<or> sms_transport_lost op \<or>
          sms_error_is_timeout_or_transport mm_1_24 error remote)
      then sms_normalized ''outcome_unknown'' False
      else
        (case sms_modem op of
           None \<Rightarrow> sms_normalized ''device_gone'' False
         | Some m \<Rightarrow>
             if \<not> view_live m then sms_normalized ''device_gone'' False
             else if view_generation m \<noteq> sms_generation op
             then sms_normalized ''stale_generation'' False
             else if view_messaging_generation m \<noteq> sms_messaging_generation op \<or>
               view_messaging m \<noteq> Some (sms_messaging op)
             then sms_normalized ''stale_messaging_generation'' False
             else if sms_timed_out op then sms_normalized ''timeout'' True
             else if sms_transport_lost op then sms_normalized ''dependency_unavailable'' True
             else
               (case error of
                  None \<Rightarrow> sms_normalized ''operation_failed'' False
                | Some e \<Rightarrow>
          if error_matches e G_IO_ERROR_TIMED_OUT
          then sms_normalized ''timeout'' True
          else if error_matches e G_IO_ERROR_PERMISSION_DENIED
          then sms_normalized ''permission_denied'' False
          else if error_matches e G_DBUS_ERROR_SERVICE_UNKNOWN \<or>
             error_matches e G_DBUS_ERROR_NAME_HAS_NO_OWNER
          then sms_normalized ''dependency_unavailable'' True
          else if error_matches e G_DBUS_ERROR_ACCESS_DENIED \<or>
             error_matches e G_DBUS_ERROR_AUTH_FAILED
          then sms_normalized ''permission_denied'' False
          else if error_matches e G_DBUS_ERROR_NO_REPLY \<or> error_matches e G_DBUS_ERROR_TIMEOUT
          then sms_normalized ''timeout'' True
          else if error_matches e G_DBUS_ERROR_UNKNOWN_METHOD \<or>
             error_matches e G_DBUS_ERROR_NOT_SUPPORTED \<or>
             error_matches e MM_CORE_ERROR_UNSUPPORTED \<or>
             error_matches e MM_MOBILE_EQUIPMENT_ERROR_NOT_SUPPORTED \<or>
             error_matches e MM_MESSAGE_ERROR_NOT_SUPPORTED
          then sms_normalized ''unsupported'' False
          else if remote_error_has_suffix remote ''.Core.Unsupported'' \<or>
             remote_error_has_suffix remote ''.MobileEquipment.NotSupported'' \<or>
             remote_error_has_suffix remote ''.Message.NotSupported''
          then sms_normalized ''unsupported'' False
          else if error_matches e MM_CORE_ERROR_UNAUTHORIZED \<or>
             error_matches e MM_MOBILE_EQUIPMENT_ERROR_NOT_ALLOWED \<or>
             error_matches e MM_MESSAGE_ERROR_NOT_ALLOWED \<or>
             remote_error_has_suffix remote ''.Core.Unauthorized'' \<or>
             remote_error_has_suffix remote ''.Message.NotAllowed''
          then sms_normalized ''permission_denied'' False
          else if error_matches e MM_CORE_ERROR_INVALID_ARGS \<or>
             error_matches e MM_MOBILE_EQUIPMENT_ERROR_INVALID_CHARS \<or>
             error_matches e MM_MOBILE_EQUIPMENT_ERROR_TEXT_TOO_LONG \<or>
             error_matches e MM_MESSAGE_ERROR_INVALID_PDU_PARAMETER \<or>
             error_matches e MM_MESSAGE_ERROR_INVALID_TEXT_PARAMETER \<or>
             remote_error_has_suffix remote ''.Core.InvalidArgs'' \<or>
             remote_error_has_suffix remote ''.MobileEquipment.InvalidChars'' \<or>
             remote_error_has_suffix remote ''.MobileEquipment.TextTooLong'' \<or>
             remote_error_has_suffix remote ''.Message.InvalidPduParameter'' \<or>
             remote_error_has_suffix remote ''.Message.InvalidTextParameter''
          then sms_normalized ''invalid_argument'' False
          else if error_matches e MM_MESSAGE_ERROR_MEMORY_FULL \<or>
             error_matches e MM_MOBILE_EQUIPMENT_ERROR_MEMORY_FULL \<or>
             remote_error_has_suffix remote ''.Message.MemoryFull'' \<or>
             remote_error_has_suffix remote ''.MobileEquipment.MemoryFull''
          then sms_normalized ''storage_full'' False
          else if error_matches e MM_CORE_ERROR_IN_PROGRESS \<or>
             mm_core_error_is_throttled mm_1_24 (Some e) \<or>
             error_matches e MM_MOBILE_EQUIPMENT_ERROR_SIM_BUSY \<or>
             error_matches e MM_MESSAGE_ERROR_SIM_BUSY \<or>
             remote_error_has_suffix remote ''.Core.InProgress'' \<or>
             remote_error_has_suffix remote ''.Core.Throttled'' \<or>
             remote_error_has_suffix remote ''.MobileEquipment.SimBusy'' \<or>
             remote_error_has_suffix remote ''.Message.SimBusy''
          then sms_normalized ''busy'' True
          else if error_matches e MM_CORE_ERROR_NOT_FOUND \<or>
             error_matches e MM_MOBILE_EQUIPMENT_ERROR_NOT_FOUND \<or>
             error_matches e MM_MOBILE_EQUIPMENT_ERROR_INVALID_INDEX \<or>
             error_matches e MM_MESSAGE_ERROR_INVALID_INDEX \<or>
             remote_error_has_suffix remote ''.Core.NotFound'' \<or>
             remote_error_has_suffix remote ''.MobileEquipment.NotFound'' \<or>
             remote_error_has_suffix remote ''.MobileEquipment.InvalidIndex'' \<or>
             remote_error_has_suffix remote ''.Message.InvalidIndex''
          then sms_normalized ''not_found'' False
          else if mm_core_error_is_timeout mm_1_24 (Some e) \<or>
             error_matches e MM_MESSAGE_ERROR_NETWORK_TIMEOUT \<or>
             error_matches e MM_MOBILE_EQUIPMENT_ERROR_NETWORK_TIMEOUT \<or>
             remote_error_has_suffix remote ''.Core.Timeout'' \<or>
             remote_error_has_suffix remote ''.MobileEquipment.NetworkTimeout'' \<or>
             remote_error_has_suffix remote ''.Message.NetworkTimeout''
          then sms_normalized ''timeout'' True
          else if error_matches e MM_CORE_ERROR_WRONG_STATE \<or>
             error_matches e MM_CORE_ERROR_WRONG_SIM_STATE \<or>
             error_matches e MM_CORE_ERROR_RETRY \<or>
             error_matches e MM_CORE_ERROR_RESET_AND_RETRY \<or>
             error_matches e MM_MOBILE_EQUIPMENT_ERROR_NO_NETWORK \<or>
             error_matches e MM_MOBILE_EQUIPMENT_ERROR_SIM_NOT_INSERTED \<or>
             error_matches e MM_MESSAGE_ERROR_NO_NETWORK \<or>
             error_matches e MM_MESSAGE_ERROR_SIM_NOT_INSERTED \<or>
             remote_error_has_suffix remote ''.Core.WrongState'' \<or>
             remote_error_has_suffix remote ''.Core.WrongSimState'' \<or>
             remote_error_has_suffix remote ''.Core.Retry'' \<or>
             remote_error_has_suffix remote ''.Core.ResetAndRetry'' \<or>
             remote_error_has_suffix remote ''.MobileEquipment.NoNetwork'' \<or>
             remote_error_has_suffix remote ''.Message.NoNetwork''
          then sms_normalized ''not_ready'' True
          else sms_normalized ''operation_failed'' False)))"

section \<open>Band and mode operations\<close>

definition advanced_normalized :: "cstring \<Rightarrow> bool \<Rightarrow> normalized_error" where
  "advanced_normalized c r =
     \<lparr>norm_code = c, norm_message = advanced_error_message c, norm_retryable = r\<rparr>"

definition advanced_error_has_unknown_outcome :: "gerror option \<Rightarrow> cstring option \<Rightarrow> bool" where
  "advanced_error_has_unknown_outcome error remote =
     (case error of
        None \<Rightarrow> False
      | Some e \<Rightarrow>
          error_matches e G_IO_ERROR_TIMED_OUT \<or> error_matches e G_IO_ERROR_CANCELLED \<or>
          error_matches e G_IO_ERROR_CLOSED \<or> error_matches e G_IO_ERROR_BROKEN_PIPE \<or>
          error_matches e G_DBUS_ERROR_NO_REPLY \<or> error_matches e G_DBUS_ERROR_TIMEOUT \<or>
          remote_error_has_suffix remote ''.Core.Timeout'' \<or>
          remote_error_has_suffix remote ''.MobileEquipment.NetworkTimeout'')"

record advanced_view =
  adv_dispatched :: bool
  adv_timed_out :: bool
  adv_transport_lost :: bool
  adv_modem_live :: bool

definition advanced_operation_outcome_is_unknown :: "advanced_view \<Rightarrow> gerror option \<Rightarrow> bool" where
  "advanced_operation_outcome_is_unknown op error =
     (if \<not> adv_dispatched op then False
      else adv_timed_out op \<or> adv_transport_lost op \<or> \<not> adv_modem_live op \<or>
        advanced_error_has_unknown_outcome error (remote_of error))"

definition normalize_advanced_error ::
    "bool \<Rightarrow> gerror option \<Rightarrow> advanced_view \<Rightarrow> normalized_error" where
  "normalize_advanced_error mm_1_24 error op =
     (let remote = remote_of error in
      if advanced_operation_outcome_is_unknown op error
      then advanced_normalized ''outcome_unknown'' False
      else
        (case error of
           None \<Rightarrow> advanced_normalized ''operation_failed'' False
         | Some e \<Rightarrow>
          if error_matches e G_IO_ERROR_PERMISSION_DENIED \<or>
             error_matches e G_DBUS_ERROR_ACCESS_DENIED \<or>
             error_matches e G_DBUS_ERROR_AUTH_FAILED \<or>
             error_matches e MM_CORE_ERROR_UNAUTHORIZED \<or>
             error_matches e MM_MOBILE_EQUIPMENT_ERROR_NOT_ALLOWED
          then advanced_normalized ''permission_denied'' False
          else if error_matches e G_DBUS_ERROR_SERVICE_UNKNOWN \<or>
             error_matches e G_DBUS_ERROR_NAME_HAS_NO_OWNER
          then advanced_normalized ''dependency_unavailable'' True
          else if error_matches e G_DBUS_ERROR_UNKNOWN_METHOD \<or>
             error_matches e G_DBUS_ERROR_NOT_SUPPORTED \<or>
             error_matches e MM_CORE_ERROR_UNSUPPORTED \<or>
             error_matches e MM_MOBILE_EQUIPMENT_ERROR_NOT_SUPPORTED \<or>
             remote_error_has_suffix remote ''.Core.Unsupported'' \<or>
             remote_error_has_suffix remote ''.MobileEquipment.NotSupported''
          then advanced_normalized ''unsupported'' False
          else if error_matches e MM_CORE_ERROR_UNAUTHORIZED \<or>
             remote_error_has_suffix remote ''.Core.Unauthorized''
          then advanced_normalized ''permission_denied'' False
          else if error_matches e MM_CORE_ERROR_INVALID_ARGS \<or>
             error_matches e MM_MOBILE_EQUIPMENT_ERROR_INCORRECT_PARAMETERS \<or>
             remote_error_has_suffix remote ''.Core.InvalidArgs''
          then advanced_normalized ''invalid_argument'' False
          else if error_matches e MM_CORE_ERROR_IN_PROGRESS \<or>
             mm_core_error_is_throttled mm_1_24 (Some e) \<or>
             error_matches e MM_MOBILE_EQUIPMENT_ERROR_SIM_BUSY \<or>
             remote_error_has_suffix remote ''.Core.InProgress'' \<or>
             remote_error_has_suffix remote ''.Core.Throttled'' \<or>
             remote_error_has_suffix remote ''.MobileEquipment.SimBusy''
          then advanced_normalized ''busy'' True
          else if error_matches e MM_CORE_ERROR_WRONG_STATE \<or>
             error_matches e MM_CORE_ERROR_WRONG_SIM_STATE \<or>
             error_matches e MM_CORE_ERROR_RETRY \<or>
             error_matches e MM_CORE_ERROR_RESET_AND_RETRY \<or>
             remote_error_has_suffix remote ''.Core.WrongState'' \<or>
             remote_error_has_suffix remote ''.Core.WrongSimState'' \<or>
             remote_error_has_suffix remote ''.Core.Retry'' \<or>
             remote_error_has_suffix remote ''.Core.ResetAndRetry''
          then advanced_normalized ''not_ready'' True
          else advanced_normalized ''operation_failed'' False))"

section \<open>Expert operations\<close>

definition l850_normalize_error :: "bool \<Rightarrow> gerror option \<Rightarrow> bool \<Rightarrow> bool \<Rightarrow> cstring \<times> bool" where
  "l850_normalize_error mm_1_24 error timed_out transport_lost =
     (let remote = remote_of error in
      if timed_out then (''timeout'', True)
      else if transport_lost then (''dependency_unavailable'', True)
      else
        (case error of
           None \<Rightarrow> (''unavailable'', False)
         | Some e \<Rightarrow>
          if error_matches e G_IO_ERROR_TIMED_OUT \<or>
             error_matches e G_DBUS_ERROR_NO_REPLY \<or>
             error_matches e G_DBUS_ERROR_TIMEOUT \<or>
             mm_core_error_is_timeout mm_1_24 (Some e) \<or>
             remote_error_has_suffix remote ''.Core.Timeout''
          then (''timeout'', True)
          else if error_matches e G_DBUS_ERROR_SERVICE_UNKNOWN \<or>
             error_matches e G_DBUS_ERROR_NAME_HAS_NO_OWNER \<or>
             error_matches e G_IO_ERROR_CLOSED \<or> error_matches e G_IO_ERROR_BROKEN_PIPE
          then (''dependency_unavailable'', True)
          else if error_matches e G_IO_ERROR_PERMISSION_DENIED \<or>
             error_matches e G_DBUS_ERROR_ACCESS_DENIED \<or>
             error_matches e G_DBUS_ERROR_AUTH_FAILED \<or>
             error_matches e MM_CORE_ERROR_UNAUTHORIZED \<or>
             remote_error_has_suffix remote ''.Core.Unauthorized''
          then (''permission_denied'', False)
          else if error_matches e G_DBUS_ERROR_UNKNOWN_METHOD \<or>
             error_matches e G_DBUS_ERROR_NOT_SUPPORTED \<or>
             error_matches e MM_CORE_ERROR_UNSUPPORTED \<or>
             error_matches e MM_MOBILE_EQUIPMENT_ERROR_NOT_SUPPORTED \<or>
             remote_error_has_suffix remote ''.Core.Unsupported'' \<or>
             remote_error_has_suffix remote ''.MobileEquipment.NotSupported''
          then (''unsupported_protocol'', False)
          else if error_matches e MM_CORE_ERROR_IN_PROGRESS \<or>
             mm_core_error_is_throttled mm_1_24 (Some e) \<or>
             remote_error_has_suffix remote ''.Core.InProgress'' \<or>
             remote_error_has_suffix remote ''.Core.Throttled''
          then (''busy'', True)
          else if error_matches e MM_CORE_ERROR_WRONG_STATE \<or>
             error_matches e MM_CORE_ERROR_RETRY \<or>
             remote_error_has_suffix remote ''.Core.WrongState'' \<or>
             remote_error_has_suffix remote ''.Core.Retry''
          then (''not_ready'', True)
          else (''unavailable'', False)))"


section \<open>Codes and retries\<close>

definition retryable_codes :: "cstring list" where
  "retryable_codes = [''timeout'', ''dependency_unavailable'', ''busy'', ''not_ready'']"

text \<open>A reported error is consistent: it may be retried exactly when its code says so.\<close>

definition retry_consistent :: "cstring \<times> bool \<Rightarrow> bool" where
  "retry_consistent cr \<longleftrightarrow> snd cr = (fst cr \<in> set retryable_codes)"

definition norm_pair :: "normalized_error \<Rightarrow> cstring \<times> bool" where
  "norm_pair n = (norm_code n, norm_retryable n)"

lemma norm_pair_simps [simp]:
  "norm_pair (sms_normalized c r) = (c, r)" "norm_pair (advanced_normalized c r) = (c, r)"
  by (simp_all add: norm_pair_def sms_normalized_def advanced_normalized_def)

lemma retry_consistent_true:
  "retry_consistent (''timeout'', True)" "retry_consistent (''dependency_unavailable'', True)"
  "retry_consistent (''busy'', True)" "retry_consistent (''not_ready'', True)"
  by (simp_all add: retry_consistent_def retryable_codes_def)

lemma retry_consistent_false:
  "c \<notin> set retryable_codes \<Longrightarrow> retry_consistent (c, False)"
  by (simp add: retry_consistent_def)

lemma nonretryable_codes:
  "''outcome_unknown'' \<notin> set retryable_codes" "''device_gone'' \<notin> set retryable_codes"
  "''stale_generation'' \<notin> set retryable_codes" "''stale_messaging_generation'' \<notin> set retryable_codes"
  "''operation_failed'' \<notin> set retryable_codes" "''permission_denied'' \<notin> set retryable_codes"
  "''unsupported'' \<notin> set retryable_codes" "''unsupported_protocol'' \<notin> set retryable_codes"
  "''invalid_argument'' \<notin> set retryable_codes" "''storage_full'' \<notin> set retryable_codes"
  "''not_found'' \<notin> set retryable_codes" "''unavailable'' \<notin> set retryable_codes"
  by (simp_all add: retryable_codes_def)

lemmas retry_facts = retry_consistent_true retry_consistent_false nonretryable_codes

lemma retry_consistent_if:
  "retry_consistent a \<Longrightarrow> retry_consistent b \<Longrightarrow> retry_consistent (if c then a else b)"
  by simp

lemma norm_pair_if: "norm_pair (if c then a else b) = (if c then norm_pair a else norm_pair b)"
  by simp

text \<open>The chains of tests, one leaf at a time.\<close>

definition definite :: "cstring \<times> bool \<Rightarrow> bool" where
  "definite cr \<longleftrightarrow> fst cr \<noteq> ''outcome_unknown''"

lemma definite_if: "definite a \<Longrightarrow> definite b \<Longrightarrow> definite (if c then a else b)"
  by simp

lemma definite_leaf: "definite (c, r) \<longleftrightarrow> c \<noteq> ''outcome_unknown''"
  by (simp add: definite_def)

lemma sms_retry_consistent: "retry_consistent (norm_pair (normalize_sms_error v error op))"
  unfolding normalize_sms_error_def Let_def
  apply (simp only: norm_pair_if norm_pair_simps split: option.split)
  apply (intro conjI allI impI retry_consistent_if)
  apply (simp_all only: retry_facts not_False_eq_True HOL.simp_thms)
  done

lemma advanced_retry_consistent: "retry_consistent (norm_pair (normalize_advanced_error v error op))"
  unfolding normalize_advanced_error_def Let_def
  apply (simp only: norm_pair_if norm_pair_simps split: option.split)
  apply (intro conjI allI impI retry_consistent_if)
  apply (simp_all only: retry_facts not_False_eq_True HOL.simp_thms)
  done

lemma l850_retry_consistent: "retry_consistent (l850_normalize_error v error t l)"
  unfolding l850_normalize_error_def Let_def
  apply (simp only: split: option.split)
  apply (intro conjI allI impI retry_consistent_if)
  apply (simp_all only: retry_facts not_False_eq_True HOL.simp_thms)
  done

lemma sms_definite:
  assumes "\<not> (sms_type op = SMS_OPERATION_SEND \<and> sms_send_dispatched op \<and>
    (sms_timed_out op \<or> sms_transport_lost op \<or>
     sms_error_is_timeout_or_transport v error (remote_of error)))"
  shows "definite (norm_pair (normalize_sms_error v error op))"
  unfolding normalize_sms_error_def Let_def if_not_P [OF assms]
  apply (simp only: norm_pair_if norm_pair_simps split: option.split)
  apply (intro conjI allI impI definite_if)
  apply (simp_all add: definite_leaf)
  done

lemma advanced_definite:
  assumes "\<not> advanced_operation_outcome_is_unknown op error"
  shows "definite (norm_pair (normalize_advanced_error v error op))"
  unfolding normalize_advanced_error_def Let_def if_not_P [OF assms]
  apply (simp only: norm_pair_if norm_pair_simps split: option.split)
  apply (intro conjI allI impI definite_if)
  apply (simp_all add: definite_leaf)
  done

section \<open>Properties\<close>

text \<open>C25: An SMS send that may already have gone out is never reported as retryable: after the send was
  dispatched, a time-out, a lost transport, or an error that leaves the outcome open gives
  exactly outcome_unknown, and only those do; and for every operation and error, the retry
  flag is set exactly for the four transient codes.\<close>

theorem sms_error_never_invites_double_send:
  "retry_consistent (norm_pair (normalize_sms_error v error op)) \<and>
   (if sms_type op = SMS_OPERATION_SEND \<and> sms_send_dispatched op \<and>
       (sms_timed_out op \<or> sms_transport_lost op \<or>
        sms_error_is_timeout_or_transport v error (remote_of error))
    then norm_pair (normalize_sms_error v error op) = (''outcome_unknown'', False)
    else norm_code (normalize_sms_error v error op) \<noteq> ''outcome_unknown'')"
proof (cases "sms_type op = SMS_OPERATION_SEND \<and> sms_send_dispatched op \<and>
    (sms_timed_out op \<or> sms_transport_lost op \<or>
     sms_error_is_timeout_or_transport v error (remote_of error))")
  case True
  then show ?thesis
    using sms_retry_consistent [of v error op] by (simp add: normalize_sms_error_def Let_def)
next
  case False
  from sms_definite [OF False] sms_retry_consistent [of v error op] False show ?thesis
    by (auto simp: definite_def norm_pair_def)
qed

text \<open>C26: Band, mode and expert operations report a retry exactly for the four transient codes, whatever
  error ModemManager returns; and a dispatched band or mode operation whose time ran out, whose
  transport or modem was lost, or whose reply leaves the outcome open is reported as
  outcome_unknown and not retryable, and no other is.\<close>

theorem advanced_and_expert_retries:
  "retry_consistent (norm_pair (normalize_advanced_error v error op)) \<and>
   retry_consistent (l850_normalize_error v error t l) \<and>
   (if adv_dispatched op \<and> (adv_timed_out op \<or> adv_transport_lost op \<or> adv_modem_live op = False \<or>
        advanced_error_has_unknown_outcome error (remote_of error))
    then norm_pair (normalize_advanced_error v error op) = (''outcome_unknown'', False)
    else norm_code (normalize_advanced_error v error op) \<noteq> ''outcome_unknown'')"
proof (cases "advanced_operation_outcome_is_unknown op error")
  case True
  then show ?thesis
    using advanced_retry_consistent [of v error op] l850_retry_consistent [of v error t l]
    by (auto simp: normalize_advanced_error_def Let_def advanced_operation_outcome_is_unknown_def split: if_splits)
next
  case False
  from advanced_definite [OF this, of v] False show ?thesis
    using advanced_retry_consistent [of v error op] l850_retry_consistent [of v error t l]
    by (auto simp: definite_def norm_pair_def advanced_operation_outcome_is_unknown_def)
qed

end
