(* ===== verification/Modem.thy ===== *)
theory Modem
  imports Identity Hardware Radio_Policy Sms_Dedupe Cell
begin

text \<open>
  One admitted modem (\<open>struct _L850GLModem\<close> of \<open>bridge.h\<close>) and the operations of \<open>bridge.c\<close>
  on a single modem that classify and attest it; and the helpers of \<open>ubus_glib.c\<close> that
  read or write one modem (band snapshot, serving cell cache, cool-down).

  A libmm-glib object is the number of its GObject and the values its getters return now; what
  they return may change between any two callbacks. Reference counts are not modelled. A call
  that starts an asynchronous request returns the request it starts, and the callback is a
  definition of its own.
\<close>

section \<open>ModemManager's objects\<close>

datatype mm_state = MM_STATE_REGISTERED | MM_STATE_DISCONNECTING | MM_STATE_CONNECTING
  | MM_STATE_CONNECTED | MM_STATE_OTHER

text \<open>
  A supported band is its number and what \<open>mm_modem_band_get_string\<close> returns for it, band 0
  being \<open>MM_MODEM_BAND_UNKNOWN\<close>; a port is whether its type is MBIM.
\<close>

record mm_modem =
  mm_object :: nat
  mm_plugin :: "cstring option"
  mm_manufacturer :: "cstring option"
  mm_model :: "cstring option"
  mm_drivers :: "cstring list option"
  mm_ports :: "bool list option"
  mm_physdev :: "cstring option"
  mm_modem_state :: mm_state
  mm_sim_path :: "cstring option"
  mm_supported_bands :: "(u32 \<times> cstring option) list option"

text \<open>A message proxy: its GObject, path and time stamp.\<close>

record mm_sms =
  mm_sms_object :: nat
  mm_sms_path :: "cstring option"
  mm_sms_timestamp :: "cstring option"

section \<open>The modem\<close>

datatype mutation_kind = MUTATION_NONE | MUTATION_SMS | MUTATION_ADVANCED | MUTATION_L850

text \<open>A cached message; \<open>sms_owned\<close> is whether its \<open>owner\<close> is the modem (NULL once detached).\<close>

record sms_entry =
  sms_owned :: bool
  sms_object :: "nat option"
  entry_sms_id :: cstring
  entry_modem_generation :: u32
  entry_messaging_generation :: u32

text \<open>
  The doubles that hold signal levels, which the code only tests and passes on: a converted integer,
  a tenth of one, the value \<open>-G_MAXDOUBLE\<close> ModemManager gives for an unknown level, an infinity or no
  number, and any other value.
\<close>

datatype gdouble = Of_Int int | Of_Tenths int | Minus_Maximum | Not_Finite | Other_Double nat

definition isfinite :: "gdouble \<Rightarrow> bool" where "isfinite x \<longleftrightarrow> x \<noteq> Not_Finite"

record serving_cell =
  sc_earfcn :: u32
  sc_pci :: u16
  sc_band :: u16
  sc_rsrp :: gdouble
  sc_rsrq :: gdouble
  sc_has_rsrp :: bool
  sc_has_rsrq :: bool
  sc_generation :: u32
  sc_updated_at :: int

text \<open>
  The hash tables are lists, keys distinct; the time stamps of admission and of the last change,
  which only the status report reads, are left out. A cancellable is whether it was cancelled, absent
  where the pointer may be NULL. \<open>serving\<close> is the serving cell cache when it is valid.
\<close>

record modem =
  live :: bool
  proxy :: mm_modem
  cancelled :: bool
  sim :: "nat option"
  bearers :: "nat list"
  messaging :: "nat option"
  messaging_signals :: bool
  sms_by_path :: "(cstring \<times> sms_entry) list"
  sms_reserved_ids :: "cstring list"
  sms_deleted_paths :: "cstring list"
  dedupe_queue :: "sms_dedupe list"
  modem_id :: cstring
  generation :: u32
  messaging_generation :: u32
  sms_revision :: u64
  sim_query_pending :: bool
  bearer_query_pending :: bool
  sim_query_dirty :: bool
  bearer_query_dirty :: bool
  sms_query_pending :: bool
  sms_query_dirty :: bool
  sms_cache_truncated :: bool
  serving_cell_refresh_pending :: bool
  serving_cell_cache :: "serving_cell option"
  serving_cell_last_attempt_at :: int
  serving_cell_reason :: cstring
  mutation_busy :: bool
  mutation_kind :: mutation_kind
  mutation_cancellable :: "bool option"
  advanced_cooldown_until :: int
  voltage_refresh_pending :: bool
  voltage_valid :: bool
  voltage_generation :: u32
  voltage_mv :: u32
  voltage_updated_at :: int
  voltage_last_attempt_at :: int
  last_scan_completed_at :: int
  last_carrier_query_completed_at :: int
  sim_cache_state :: cstring
  bearer_cache_state :: cstring
  sms_cache_state :: cstring

text \<open>The modem \<open>reconcile_object\<close> allocates: zeroed, then filled in.\<close>

definition modem_new :: "mm_modem \<Rightarrow> cstring \<Rightarrow> u32 \<Rightarrow> modem" where
  "modem_new mm i gen =
     \<lparr>live = True, proxy = mm, cancelled = False, sim = None, bearers = [], messaging = None,
      messaging_signals = False, sms_by_path = [], sms_reserved_ids = [], sms_deleted_paths = [],
      dedupe_queue = [], modem_id = i, generation = gen, messaging_generation = 0,
      sms_revision = 0, sim_query_pending = False, bearer_query_pending = False,
      sim_query_dirty = False, bearer_query_dirty = False, sms_query_pending = False,
      sms_query_dirty = False, sms_cache_truncated = False, serving_cell_refresh_pending = False,
      serving_cell_cache = None, serving_cell_last_attempt_at = 0,
      serving_cell_reason = ''refresh-pending'', mutation_busy = False,
      mutation_kind = MUTATION_NONE, mutation_cancellable = None, advanced_cooldown_until = 0,
      voltage_refresh_pending = False, voltage_valid = False,
      voltage_generation = 0, voltage_mv = 0, voltage_updated_at = 0, voltage_last_attempt_at = 0,
      last_scan_completed_at = 0, last_carrier_query_completed_at = 0, sim_cache_state = ''loading'',
      bearer_cache_state = ''loading'', sms_cache_state = ''absent''\<rparr>"

definition MAX_SMS_CACHE :: nat where "MAX_SMS_CACHE = 1024"
definition MAX_PORTS_OR_DRIVERS :: nat where "MAX_PORTS_OR_DRIVERS = 32"
definition MAX_RADIO_BANDS :: nat where "MAX_RADIO_BANDS = 256"
definition RANDOM_RETRIES :: nat where "RANDOM_RETRIES = 8"
definition SERVING_CELL_FRESH_SECONDS :: int where "SERVING_CELL_FRESH_SECONDS = 90"
definition SERVING_CELL_RETRY_SECONDS :: int where "SERVING_CELL_RETRY_SECONDS = 30"

section \<open>Classification and attestation\<close>

definition ascii_tolower :: "char \<Rightarrow> char" where
  "ascii_tolower c = (if 65 \<le> code c \<and> code c \<le> 90 then char_of (code c + 32) else c)"

definition ascii_isalnum :: "char \<Rightarrow> bool" where
  "ascii_isalnum c \<longleftrightarrow> (48 \<le> code c \<and> code c \<le> 57) \<or> (65 \<le> code c \<and> code c \<le> 90) \<or>
     (97 \<le> code c \<and> code c \<le> 122)"

text \<open>\<open>validate\<close> is the parameter for \<open>g_utf8_validate\<close>.\<close>

definition normalize_alnum :: "(cstring \<Rightarrow> bool) \<Rightarrow> cstring option \<Rightarrow> cstring" where
  "normalize_alnum validate value =
     (case value of
        None \<Rightarrow> []
      | Some v \<Rightarrow> if \<not> validate v then [] else map ascii_tolower (filter ascii_isalnum v))"

definition is_exact_l850gl :: "(cstring \<Rightarrow> bool) \<Rightarrow> mm_modem \<Rightarrow> bool" where
  "is_exact_l850gl validate m =
     (case mm_plugin m of
        None \<Rightarrow> False
      | Some p \<Rightarrow>
          if map ascii_tolower p \<noteq> ''fibocom'' then False
          else normalize_alnum validate (mm_manufacturer m) \<in>
            set [''fibocom'', ''fibocomwireless'', ''fibocomwirelessinc''])"

definition modem_is_l850 :: "(cstring \<Rightarrow> bool) \<Rightarrow> modem \<Rightarrow> bool" where
  "modem_is_l850 validate m \<longleftrightarrow> normalize_alnum validate (mm_model (proxy m)) = ''l850gl''"

definition string_contains_ascii_ci :: "cstring \<Rightarrow> cstring \<Rightarrow> bool" where
  "string_contains_ascii_ci value needle \<longleftrightarrow> sublist needle (map ascii_tolower value)"

text \<open>The loops over the drivers and ports look at no more than the first 32.\<close>

definition modem_composition :: "modem \<Rightarrow> cstring" where
  "modem_composition m =
     (let drivers = take MAX_PORTS_OR_DRIVERS (case mm_drivers (proxy m) of None \<Rightarrow> [] | Some d \<Rightarrow> d);
          ports = take MAX_PORTS_OR_DRIVERS (case mm_ports (proxy m) of None \<Rightarrow> [] | Some p \<Rightarrow> p)
      in if list_ex (\<lambda>d. string_contains_ascii_ci d ''cdc_mbim'' \<or>
                         string_contains_ascii_ci d ''mbim'') drivers then ''mbim''
         else if list_ex (\<lambda>mbim. mbim) ports then ''mbim''
         else if list_ex (\<lambda>d. string_contains_ascii_ci d ''cdc_ncm'' \<or>
                              string_contains_ascii_ci d ''ncm'') drivers then ''ncm''
         else ''unknown'')"

definition modem_is_supported :: "(cstring \<Rightarrow> bool) \<Rightarrow> modem \<Rightarrow> bool" where
  "modem_is_supported validate m \<longleftrightarrow> modem_is_l850 validate m \<and> modem_composition m = ''mbim''"

text \<open>What the attestation depends on besides the modem: GLib's UTF-8 test and the sysfs tree.\<close>

record surroundings =
  utf8_ok :: "cstring \<Rightarrow> bool"
  sysfs_tree :: "fs_node option"

definition attest_mutation_target :: "surroundings \<Rightarrow> modem \<Rightarrow> bool" where
  "attest_mutation_target w m =
     (if \<not> live m \<or> \<not> modem_is_supported (utf8_ok w) m then False
      else fst (l850gl_hardware_attest_l850_mbim (sysfs_tree w) (mm_physdev (proxy m))))"

definition modem_support_reason :: "(cstring \<Rightarrow> bool) \<Rightarrow> modem \<Rightarrow> cstring" where
  "modem_support_reason validate m =
     (if \<not> modem_is_l850 validate m then ''unsupported-l850gl-model''
      else if modem_composition m = ''mbim'' then ''l850-mbim''
      else if modem_composition m = ''ncm'' then ''l850-ncm-data-unsupported''
      else ''l850-composition-unknown'')"

definition modem_is_registered :: "modem \<Rightarrow> bool" where
  "modem_is_registered m =
     (case mm_modem_state (proxy m) of
        MM_STATE_REGISTERED \<Rightarrow> True
      | MM_STATE_DISCONNECTING \<Rightarrow> True
      | MM_STATE_CONNECTING \<Rightarrow> True
      | MM_STATE_CONNECTED \<Rightarrow> True
      | MM_STATE_OTHER \<Rightarrow> False)"

section \<open>Bands, serving cell, cool-down\<close>

text \<open>The named choices and the union of their families; \<open>None\<close> when the snapshot fails.\<close>

definition snapshot_supported_radio_bands :: "modem \<Rightarrow> (radio_band list \<times> u32) option" where
  "snapshot_supported_radio_bands m =
     (case mm_supported_bands (proxy m) of
        None \<Rightarrow> None
      | Some bands \<Rightarrow>
          if bands = [] \<or> MAX_RADIO_BANDS < length bands then None
          else
            (let choices = map (\<lambda>(v, n). \<lparr>band_name = n, band_value = v, family = radio_band_family n\<rparr>)
               (filter (\<lambda>(v, n). v \<noteq> 0 \<and> radio_band_name_is_canonical n) bands)
             in if choices = [] then None else Some (choices, families_of choices)))"

definition lte_band_is_supported :: "modem \<Rightarrow> u16 \<Rightarrow> bool" where
  "lte_band_is_supported m band =
     (case snapshot_supported_radio_bands m of
        None \<Rightarrow> False
      | Some (choices, _) \<Rightarrow> band_is_supported band (Some (map band_name choices)))"

definition supported_lte_bands_available :: "modem \<Rightarrow> bool" where
  "supported_lte_bands_available m =
     (case snapshot_supported_radio_bands m of
        None \<Rightarrow> False
      | Some (choices, families) \<Rightarrow> choices \<noteq> [] \<and> families AND RADIO_FAMILY_4G \<noteq> 0)"

text \<open>The hexadecimal cell identity of ModemManager's own cell reports: at most eight digits.\<close>

definition parse_standard_lte_pci :: "cstring option \<Rightarrow> u16 option" where
  "parse_standard_lte_pci value =
     (case value of
        None \<Rightarrow> None
      | Some v \<Rightarrow>
          if v = [] \<or> 8 < length v then None
          else
            (case accumulate
                (\<lambda>parsed digit. if (UINT32_MAX - digit) div 16 < parsed then None
                                else Some (parsed * 16 + digit)) (digit_value 16) (0 :: u32) v of
               None \<Rightarrow> None
             | Some parsed \<Rightarrow> if 503 < parsed then None else Some (ucast parsed)))"

definition serving_cell_cache_is_fresh :: "modem \<Rightarrow> int \<Rightarrow> bool" where
  "serving_cell_cache_is_fresh m now =
     (live m \<and>
      (case serving_cell_cache m of
         None \<Rightarrow> False
       | Some c \<Rightarrow> sc_generation c = generation m \<and> 0 < sc_updated_at c \<and>
           now - sc_updated_at c \<le> SERVING_CELL_FRESH_SECONDS * MICROSECONDS_PER_SECOND))"

definition serving_cell_cache_store ::
    "modem \<Rightarrow> u32 \<Rightarrow> u16 \<Rightarrow> u16 \<Rightarrow> gdouble \<Rightarrow> bool \<Rightarrow> gdouble \<Rightarrow> bool \<Rightarrow> int \<Rightarrow> cstring \<Rightarrow> bool \<times> modem" where
  "serving_cell_cache_store m earfcn pci band rsrp has_rsrp rsrq has_rsrq now reason =
     (if \<not> live m \<or> 503 < pci then (False, m)
      else
        (case earfcn_to_band earfcn of
           None \<Rightarrow> (False, m)
         | Some mapped \<Rightarrow>
             if mapped \<noteq> band \<or> \<not> lte_band_is_supported m band \<or>
                (has_rsrp \<and> \<not> isfinite rsrp) \<or> (has_rsrq \<and> \<not> isfinite rsrq)
             then (False, m)
             else (True, m\<lparr>serving_cell_cache := Some \<lparr>sc_earfcn = earfcn, sc_pci = pci,
                     sc_band = band, sc_rsrp = rsrp, sc_rsrq = rsrq, sc_has_rsrp = has_rsrp,
                     sc_has_rsrq = has_rsrq, sc_generation = generation m, sc_updated_at = now\<rparr>,
                   serving_cell_reason := reason\<rparr>)))"

definition cooldown_remaining_ms :: "int \<Rightarrow> int \<Rightarrow> u32" where
  "cooldown_remaining_ms deadline now =
     (if deadline \<le> 0 then 0
      else
        (let remaining = deadline - now in
         if remaining \<le> 0 then 0
         else
           (let ms = (remaining + 999) div 1000 in
            if int (unat UINT32_MAX) < ms then UINT32_MAX else of_int ms)))"

definition advanced_retry_after_ms :: "modem \<Rightarrow> int \<Rightarrow> u32" where
  "advanced_retry_after_ms m now = cooldown_remaining_ms (advanced_cooldown_until m) now"

end
