(* ===== verification/Sms_Cache.thy ===== *)
theory Sms_Cache
  imports Modem "HOL-Library.AList"
begin

text \<open>
  The asynchronous queries of one modem (\<open>bridge.c\<close>): the SIM and bearer queries and the SMS
  cache with its reserved identifiers, deleted paths and messaging epochs. Each callback is a
  function of the modem; a function that may start a request returns what it started. The
  random source is the list of the kernel's answers, one script for each call of the identifier
  generator. \<open>objpath\<close> is the parameter for \<open>g_variant_is_object_path\<close>.
\<close>

section \<open>Removal\<close>

text \<open>Detaching the entries leaves nothing to see: the table that held them is emptied.\<close>

definition clear_sms_cache :: "modem \<Rightarrow> modem" where
  "clear_sms_cache m = m\<lparr>sms_by_path := []\<rparr>"

definition disconnect_messaging_signals :: "modem \<Rightarrow> modem" where
  "disconnect_messaging_signals m =
     (if messaging m = None then m else m\<lparr>messaging_signals := False\<rparr>)"

definition modem_mark_removed :: "modem \<Rightarrow> modem" where
  "modem_mark_removed m =
     clear_sms_cache (disconnect_messaging_signals
       (m\<lparr>live := False, serving_cell_cache := None, serving_cell_refresh_pending := False,
          serving_cell_reason := ''device-gone'', voltage_valid := False,
          voltage_refresh_pending := False, cancelled := True,
          mutation_cancellable := map_option (\<lambda>_. True) (mutation_cancellable m)\<rparr>))"

section \<open>SIM and bearers\<close>

text \<open>The result is the modem and whether a request was started.\<close>

definition query_sim :: "modem \<Rightarrow> modem \<times> bool" where
  "query_sim m =
     (if \<not> live m then (m, False)
      else if sim_query_pending m then (m\<lparr>sim_query_dirty := True\<rparr>, False)
      else if mm_sim_path (proxy m) \<in> {None, Some ''/''}
      then (m\<lparr>sim := None, sim_cache_state := ''absent''\<rparr>, False)
      else (m\<lparr>sim_query_pending := True, sim_cache_state := ''loading''\<rparr>, True))"

text \<open>An asynchronous query ends with a value or an error, which may be the cancellation.\<close>

datatype 'a answer = Answered 'a | Failed_Cancelled | Failed_Other

definition failed_state :: "'a answer \<Rightarrow> cstring" where
  "failed_state r = (if (case r of Failed_Cancelled \<Rightarrow> True | _ \<Rightarrow> False) then ''cancelled''
     else ''unavailable'')"

definition sim_ready :: "nat answer \<Rightarrow> modem \<Rightarrow> modem \<times> bool" where
  "sim_ready r m =
     (let requery = sim_query_dirty m;
          m1 = m\<lparr>sim_query_pending := False, sim_query_dirty := False\<rparr>;
          m2 = (if live m1 then
                  (case r of
                     Answered s \<Rightarrow> m1\<lparr>sim := Some s, sim_cache_state := ''ready''\<rparr>
                   | _ \<Rightarrow> m1\<lparr>sim := None, sim_cache_state := failed_state r\<rparr>)
                else m1)
      in if live m2 \<and> requery then query_sim m2 else (m2, False))"

definition query_bearers :: "modem \<Rightarrow> modem \<times> bool" where
  "query_bearers m =
     (if \<not> live m then (m, False)
      else if bearer_query_pending m then (m\<lparr>bearer_query_dirty := True\<rparr>, False)
      else (m\<lparr>bearer_query_pending := True, bearer_cache_state := ''loading''\<rparr>, True))"

definition bearers_ready :: "nat list answer \<Rightarrow> modem \<Rightarrow> modem \<times> bool" where
  "bearers_ready r m =
     (let requery = bearer_query_dirty m;
          m1 = m\<lparr>bearer_query_pending := False, bearer_query_dirty := False\<rparr>;
          m2 = (if live m1 then
                  (case r of
                     Answered bs \<Rightarrow> m1\<lparr>bearers := bs, bearer_cache_state := ''ready''\<rparr>
                   | _ \<Rightarrow> m1\<lparr>bearers := [], bearer_cache_state := failed_state r\<rparr>)
                else m1)
      in if live m2 \<and> requery then query_bearers m2 else (m2, False))"

section \<open>The SMS cache\<close>

type_synonym sms_table = "(cstring \<times> sms_entry) list"
type_synonym random = "getrandom_answer list list"

definition sms_revision_bump :: "modem \<Rightarrow> modem" where
  "sms_revision_bump m =
     (if sms_revision m < - 1 then m\<lparr>sms_revision := sms_revision m + 1\<rparr> else m)"

text \<open>\<open>strcmp\<close> orders by unsigned bytes, \<open>g_strcmp0\<close> puts NULL first.\<close>

fun strcmp :: "cstring \<Rightarrow> cstring \<Rightarrow> int" where
  "strcmp [] [] = 0"
| "strcmp [] (d # ds) = -1"
| "strcmp (c # cs) [] = 1"
| "strcmp (c # cs) (d # ds) =
     (if code c < code d then -1 else if code d < code c then 1 else strcmp cs ds)"

fun g_strcmp0 :: "cstring option \<Rightarrow> cstring option \<Rightarrow> int" where
  "g_strcmp0 None None = 0"
| "g_strcmp0 None (Some _) = -1"
| "g_strcmp0 (Some _) None = 1"
| "g_strcmp0 (Some a) (Some b) = strcmp a b"

definition sms_proxy_newest_first :: "mm_sms \<Rightarrow> mm_sms \<Rightarrow> int" where
  "sms_proxy_newest_first l r =
     (let compared = g_strcmp0 (mm_sms_timestamp r) (mm_sms_timestamp l) in
      if compared \<noteq> 0 then compared else g_strcmp0 (mm_sms_path l) (mm_sms_path r))"

text \<open>\<open>g_list_sort\<close> is a stable sort; all of them give the same list.\<close>

fun sort_insert :: "('a \<Rightarrow> 'a \<Rightarrow> int) \<Rightarrow> 'a \<Rightarrow> 'a list \<Rightarrow> 'a list" where
  "sort_insert cmp x [] = [x]"
| "sort_insert cmp x (y # ys) = (if cmp x y \<le> 0 then x # y # ys else y # sort_insert cmp x ys)"

definition g_list_sort :: "('a \<Rightarrow> 'a \<Rightarrow> int) \<Rightarrow> 'a list \<Rightarrow> 'a list" where
  "g_list_sort cmp xs = foldr (sort_insert cmp) xs []"

definition sms_properties_changed :: "sms_entry \<Rightarrow> modem \<Rightarrow> modem" where
  "sms_properties_changed entry m =
     (if sms_owned entry \<and> live m \<and> entry_modem_generation entry = generation m \<and>
         entry_messaging_generation entry = messaging_generation m
      then sms_revision_bump m else m)"

definition sms_set_proxy :: "sms_entry \<Rightarrow> modem \<Rightarrow> mm_sms \<Rightarrow> sms_entry" where
  "sms_set_proxy entry m sms =
     (if sms_object entry = Some (mm_sms_object sms) \<and> sms_owned entry then entry
      else entry\<lparr>sms_owned := True, sms_object := Some (mm_sms_object sms),
             entry_modem_generation := generation m,
             entry_messaging_generation := messaging_generation m\<rparr>)"

definition sms_id_exists_in_hash :: "sms_table \<Rightarrow> cstring \<Rightarrow> bool" where
  "sms_id_exists_in_hash cache sms_id = list_ex (\<lambda>(_, e). entry_sms_id e = sms_id) cache"

text \<open>
  One call of \<open>l850gl_sms_identity_generate\<close> on the local buffer, the candidate being the text
  before the terminator. A script that ends before the call does counts as a failed call.
\<close>

definition generate_sms_id :: "getrandom_answer list \<Rightarrow> cstring option" where
  "generate_sms_id script =
     (case l850gl_sms_identity_generate script (Some (replicate SMS_ID_BUFSIZE NUL)) of
        Some (True, Some out) \<Rightarrow> Some (butlast out)
      | _ \<Rightarrow> None)"

fun new_sms_id_loop :: "nat \<Rightarrow> random \<Rightarrow> modem \<Rightarrow> sms_table \<Rightarrow> cstring option \<times> random" where
  "new_sms_id_loop 0 rnd m additional = (None, rnd)"
| "new_sms_id_loop (Suc attempts) [] m additional = (None, [])"
| "new_sms_id_loop (Suc attempts) (script # rnd) m additional =
     (case generate_sms_id script of
        None \<Rightarrow> (None, rnd)
      | Some candidate \<Rightarrow>
          if \<not> sms_id_exists_in_hash (sms_by_path m) candidate \<and>
             \<not> sms_id_exists_in_hash additional candidate \<and>
             candidate \<notin> set (sms_reserved_ids m)
          then (Some candidate, rnd)
          else new_sms_id_loop attempts rnd m additional)"

definition new_sms_id :: "random \<Rightarrow> modem \<Rightarrow> sms_table \<Rightarrow> cstring option \<times> random" where
  "new_sms_id rnd m additional = new_sms_id_loop RANDOM_RETRIES rnd m additional"

definition l850gl_modem_reserve_sms_id ::
    "random \<Rightarrow> modem \<Rightarrow> cstring option \<times> modem \<times> random" where
  "l850gl_modem_reserve_sms_id rnd m =
     (if \<not> live m then (None, m, rnd)
      else
        (case new_sms_id rnd m [] of
           (None, rnd') \<Rightarrow> (None, m, rnd')
         | (Some sms_id, rnd') \<Rightarrow>
             (Some sms_id, m\<lparr>sms_reserved_ids := List.insert sms_id (sms_reserved_ids m)\<rparr>, rnd')))"

definition l850gl_modem_release_sms_id :: "modem \<Rightarrow> cstring option \<Rightarrow> modem" where
  "l850gl_modem_release_sms_id m sms_id =
     (case sms_id of
        None \<Rightarrow> m
      | Some i \<Rightarrow> m\<lparr>sms_reserved_ids := filter (\<lambda>x. x \<noteq> i) (sms_reserved_ids m)\<rparr>)"

definition sms_entry_new ::
    "random \<Rightarrow> modem \<Rightarrow> mm_sms \<Rightarrow> sms_table \<Rightarrow> cstring option \<Rightarrow> sms_entry option \<times> random" where
  "sms_entry_new rnd m sms additional reserved_id =
     (let (sms_id, rnd') =
        (case reserved_id of Some i \<Rightarrow> (Some i, rnd) | None \<Rightarrow> new_sms_id rnd m additional)
      in case sms_id of
           None \<Rightarrow> (None, rnd')
         | Some i \<Rightarrow>
             (Some (sms_set_proxy \<lparr>sms_owned = False, sms_object = None, entry_sms_id = i,
                entry_modem_generation = 0, entry_messaging_generation = 0\<rparr> m sms), rnd'))"

definition modem_admit_sms ::
    "(cstring \<Rightarrow> bool) \<Rightarrow> random \<Rightarrow> modem \<Rightarrow> mm_sms \<Rightarrow> cstring option \<Rightarrow>
     sms_entry option \<times> modem \<times> random" where
  "modem_admit_sms objpath rnd m sms reserved_id =
     (if \<not> live m \<or> messaging m = None then (None, m, rnd)
      else if (case reserved_id of
                 None \<Rightarrow> False
               | Some i \<Rightarrow> \<not> l850gl_sms_identity_is_valid (Some i) \<or> i \<notin> set (sms_reserved_ids m))
      then (None, m, rnd)
      else
        (case mm_sms_path sms of
           None \<Rightarrow> (None, m, rnd)
         | Some path \<Rightarrow>
             if \<not> objpath path then (None, m, rnd)
             else
               (case map_of (sms_by_path m) path of
                  Some entry \<Rightarrow>
                    (let rename = (case reserved_id of None \<Rightarrow> None
                                   | Some i \<Rightarrow> if entry_sms_id entry \<noteq> i then Some i else None)
                     in if (case rename of None \<Rightarrow> False
                            | Some i \<Rightarrow> sms_id_exists_in_hash (sms_by_path m) i)
                        then (None, m, rnd)
                        else
                          (let entry1 = (case rename of None \<Rightarrow> entry
                                         | Some i \<Rightarrow> entry\<lparr>entry_sms_id := i\<rparr>);
                               m1 = (if rename = None then m else sms_revision_bump m);
                               entry2 = sms_set_proxy entry1 m1 sms;
                               m2 = m1\<lparr>sms_by_path := AList.update path entry2 (sms_by_path m1)\<rparr>
                           in (Some entry2, l850gl_modem_release_sms_id m2 reserved_id, rnd)))
                | None \<Rightarrow>
                    if MAX_SMS_CACHE \<le> length (sms_by_path m)
                    then (None, m\<lparr>sms_cache_truncated := True\<rparr>, rnd)
                    else
                      (case sms_entry_new rnd m sms [] reserved_id of
                         (None, rnd') \<Rightarrow>
                           (None, clear_sms_cache (m\<lparr>sms_cache_state := ''unavailable''\<rparr>), rnd')
                       | (Some entry, rnd') \<Rightarrow>
                           (Some entry,
                            sms_revision_bump (l850gl_modem_release_sms_id
                              (m\<lparr>sms_by_path := AList.update path entry (sms_by_path m)\<rparr>)
                              reserved_id), rnd')))))"

definition l850gl_modem_admit_sms ::
    "(cstring \<Rightarrow> bool) \<Rightarrow> random \<Rightarrow> modem \<Rightarrow> mm_sms \<Rightarrow> sms_entry option \<times> modem \<times> random" where
  "l850gl_modem_admit_sms objpath rnd m sms = modem_admit_sms objpath rnd m sms None"

definition l850gl_modem_admit_reserved_sms ::
    "(cstring \<Rightarrow> bool) \<Rightarrow> random \<Rightarrow> modem \<Rightarrow> mm_sms \<Rightarrow> cstring option \<Rightarrow>
     sms_entry option \<times> modem \<times> random" where
  "l850gl_modem_admit_reserved_sms objpath rnd m sms sms_id = modem_admit_sms objpath rnd m sms sms_id"

definition l850gl_modem_find_sms :: "modem \<Rightarrow> cstring option \<Rightarrow> sms_entry option" where
  "l850gl_modem_find_sms m sms_id =
     (if \<not> l850gl_sms_identity_is_valid sms_id then None
      else
        List.find (\<lambda>e. entry_modem_generation e = generation m \<and>
            entry_messaging_generation e = messaging_generation m \<and> Some (entry_sms_id e) = sms_id)
          (map snd (sms_by_path m)))"

definition l850gl_modem_snapshot_sms :: "modem \<Rightarrow> sms_entry list" where
  "l850gl_modem_snapshot_sms m = map snd (sms_by_path m)"

section \<open>Listing\<close>

text \<open>The context of a list request, and the messaging proxy it was sent to.\<close>

record sms_query =
  query_source :: nat
  query_messaging_generation :: u32

definition query_sms :: "modem \<Rightarrow> modem \<times> sms_query option" where
  "query_sms m =
     (case messaging m of
        None \<Rightarrow> (m, None)
      | Some msg \<Rightarrow>
          if \<not> live m then (m, None)
          else if sms_query_pending m then (m\<lparr>sms_query_dirty := True\<rparr>, None)
          else
            (m\<lparr>sms_query_pending := True,
               sms_cache_state :=
                 (if sms_cache_state m \<noteq> ''ready'' \<and> sms_cache_state m \<noteq> ''ready-truncated''
                  then ''loading'' else sms_cache_state m)\<rparr>,
             Some \<lparr>query_source = msg, query_messaging_generation = messaging_generation m\<rparr>))"

definition l850gl_modem_refresh_sms :: "modem \<Rightarrow> modem \<times> sms_query option" where
  "l850gl_modem_refresh_sms m = query_sms m"

text \<open>
  The tables of the rebuild: the old cache, from which entries are stolen, is the modem's own.
\<close>

record rebuild =
  old_cache :: sms_table
  new_cache :: sms_table
  seen_deleted :: "cstring list"
  truncated :: bool
  count :: nat

definition sms_list_visit ::
    "(cstring \<Rightarrow> bool) \<Rightarrow> modem \<Rightarrow> mm_sms \<Rightarrow> random \<Rightarrow> rebuild \<Rightarrow> rebuild option \<times> random" where
  "sms_list_visit objpath m sms rnd r =
     (case mm_sms_path sms of
        None \<Rightarrow> (Some r, rnd)
      | Some path \<Rightarrow>
          if \<not> objpath path then (Some r, rnd)
          else if path \<in> set (sms_deleted_paths m)
          then (Some (r\<lparr>seen_deleted := List.insert path (seen_deleted r)\<rparr>), rnd)
          else if MAX_SMS_CACHE \<le> count r then (Some (r\<lparr>truncated := True\<rparr>), rnd)
          else
            (case map_of (old_cache r) path of
               Some entry \<Rightarrow>
                 (Some (r\<lparr>old_cache := AList.delete path (old_cache r),
                    new_cache := AList.update path (sms_set_proxy entry m sms) (new_cache r),
                    count := count r + 1\<rparr>), rnd)
             | None \<Rightarrow>
                 (case sms_entry_new rnd (m\<lparr>sms_by_path := old_cache r\<rparr>) sms (new_cache r) None of
                    (None, rnd') \<Rightarrow> (None, rnd')
                  | (Some entry, rnd') \<Rightarrow>
                      (Some (r\<lparr>new_cache := AList.update path entry (new_cache r),
                         count := count r + 1\<rparr>), rnd'))))"

fun sms_list_loop ::
    "(cstring \<Rightarrow> bool) \<Rightarrow> modem \<Rightarrow> mm_sms list \<Rightarrow> random \<Rightarrow> rebuild \<Rightarrow> rebuild option \<times> random" where
  "sms_list_loop objpath m [] rnd r = (Some r, rnd)"
| "sms_list_loop objpath m (sms # messages) rnd r =
     (case sms_list_visit objpath m sms rnd r of
        (None, rnd') \<Rightarrow> (None, rnd')
      | (Some r', rnd') \<Rightarrow> sms_list_loop objpath m messages rnd' r')"

definition rebuild_start :: "modem \<Rightarrow> rebuild" where
  "rebuild_start m =
     \<lparr>old_cache = sms_by_path m, new_cache = [], seen_deleted = [], truncated = False, count = 0\<rparr>"

definition sms_cache_rebuild :: "(cstring \<Rightarrow> bool) \<Rightarrow> mm_sms list \<Rightarrow> random \<Rightarrow> modem \<Rightarrow> modem \<times> random" where
  "sms_cache_rebuild objpath messages rnd m =
     (case sms_list_loop objpath m (g_list_sort sms_proxy_newest_first messages) rnd
          (rebuild_start m) of
        (None, rnd') \<Rightarrow>
          (sms_revision_bump ((clear_sms_cache m)\<lparr>sms_cache_state := ''unavailable''\<rparr>), rnd')
      | (Some r, rnd') \<Rightarrow>
          (sms_revision_bump
             (m\<lparr>sms_by_path := new_cache r, sms_cache_truncated := truncated r,
                sms_cache_state := (if truncated r then ''ready-truncated'' else ''ready''),
                sms_deleted_paths := filter (\<lambda>p. p \<in> set (seen_deleted r)) (sms_deleted_paths m)\<rparr>),
           rnd'))"

definition sms_list_ready ::
    "(cstring \<Rightarrow> bool) \<Rightarrow> sms_query \<Rightarrow> mm_sms list answer \<Rightarrow> random \<Rightarrow> modem \<Rightarrow>
     modem \<times> sms_query option \<times> random" where
  "sms_list_ready objpath q answer rnd m =
     (if \<not> live m \<or> messaging m \<noteq> Some (query_source q) \<or>
         messaging_generation m \<noteq> query_messaging_generation q
      then (m, None, rnd)
      else
        (let requery = sms_query_dirty m;
             m1 = m\<lparr>sms_query_pending := False, sms_query_dirty := False\<rparr>;
             (m2, rnd') =
               (case answer of
                  Answered messages \<Rightarrow> sms_cache_rebuild objpath messages rnd m1
                | _ \<Rightarrow> (sms_revision_bump (clear_sms_cache
                           (m1\<lparr>sms_cache_state := failed_state answer\<rparr>)), rnd));
             (m3, q') = (if live m2 \<and> requery then query_sms m2 else (m2, None))
         in (m3, q', rnd')))"

section \<open>Messaging signals and epochs\<close>

definition sms_added :: "(cstring \<Rightarrow> bool) \<Rightarrow> cstring option \<Rightarrow> modem \<Rightarrow> modem \<times> sms_query option" where
  "sms_added objpath path m =
     (if \<not> live m then (m, None)
      else
        query_sms (sms_revision_bump
          (case path of
             Some p \<Rightarrow> if objpath p
               then m\<lparr>sms_deleted_paths := filter (\<lambda>x. x \<noteq> p) (sms_deleted_paths m)\<rparr> else m
           | None \<Rightarrow> m)))"

definition sms_deleted :: "(cstring \<Rightarrow> bool) \<Rightarrow> cstring option \<Rightarrow> modem \<Rightarrow> modem \<times> sms_query option" where
  "sms_deleted objpath path m =
     (case path of
        None \<Rightarrow> (m, None)
      | Some p \<Rightarrow>
          if \<not> live m \<or> \<not> objpath p then (m, None)
          else
            (let m1 = (if length (sms_deleted_paths m) < MAX_SMS_CACHE
                       then m\<lparr>sms_deleted_paths := List.insert p (sms_deleted_paths m)\<rparr> else m);
                 m2 = (if map_of (sms_by_path m1) p \<noteq> None
                       then sms_revision_bump (m1\<lparr>sms_by_path := AList.delete p (sms_by_path m1)\<rparr>)
                       else m1)
             in query_sms m2))"

text \<open>\<open>current\<close> is the messaging interface the object has now (\<open>mm_object_get_modem_messaging\<close>).\<close>

definition reconcile_messaging :: "nat option \<Rightarrow> bool \<Rightarrow> modem \<Rightarrow> modem \<times> sms_query option" where
  "reconcile_messaging current force_epoch m =
     (if \<not> force_epoch \<and> current = messaging m then (m, None)
      else
        (let m1 = (if mutation_kind m = MUTATION_SMS
                   then m\<lparr>mutation_cancellable := map_option (\<lambda>_. True) (mutation_cancellable m)\<rparr>
                   else m);
             m2 = clear_sms_cache ((disconnect_messaging_signals m1)\<lparr>messaging := None\<rparr>);
             m3 = m2\<lparr>sms_reserved_ids := [], sms_deleted_paths := [], sms_query_pending := False,
                     sms_query_dirty := False, sms_cache_truncated := False, dedupe_queue := []\<rparr>
         in if messaging_generation m3 = UINT32_MAX
            then (m3\<lparr>sms_cache_state := ''unavailable''\<rparr>, None)
            else
              (let m4 = sms_revision_bump (m3\<lparr>messaging_generation := messaging_generation m3 + 1\<rparr>)
               in case current of
                    None \<Rightarrow> (m4\<lparr>sms_cache_state := ''absent''\<rparr>, None)
                  | Some msg \<Rightarrow>
                      query_sms (m4\<lparr>messaging := Some msg, messaging_signals := True\<rparr>))))"

section \<open>Identifiers\<close>

definition table_ids :: "sms_table \<Rightarrow> cstring list" where
  "table_ids t = map (entry_sms_id \<circ> snd) t"

lemma sms_id_exists_iff: "sms_id_exists_in_hash t i \<longleftrightarrow> i \<in> set (table_ids t)"
  by (force simp: sms_id_exists_in_hash_def table_ids_def list_ex_iff)

lemma generate_sms_id_valid:
  "generate_sms_id script = Some i \<Longrightarrow> l850gl_sms_identity_is_valid (Some i)"
  using generated_token_valid [of SMS_ID_PREFIX NUL script]
  by (auto simp: generate_sms_id_def l850gl_sms_identity_generate_def SMS_ID_BUFSIZE_def
      l850gl_sms_identity_generate_with_def l850gl_sms_identity_is_valid_def
      split: option.splits prod.splits bool.splits if_splits)

lemma new_sms_id_loop_sound:
  "new_sms_id_loop n rnd m additional = (Some i, rnd') \<Longrightarrow>
     l850gl_sms_identity_is_valid (Some i) \<and>
     i \<notin> set (table_ids (sms_by_path m)) \<union> set (table_ids additional) \<union> set (sms_reserved_ids m)"
  by (induction n rnd m additional rule: new_sms_id_loop.induct)
    (auto simp: sms_id_exists_iff generate_sms_id_valid split: option.splits if_splits)

interpretation sms_ids: identifier_allocator
  "\<lambda>rnd (m, additional). new_sms_id rnd m additional"
  "\<lambda>(m, additional). set (table_ids (sms_by_path m)) \<union> set (table_ids additional) \<union>
     set (sms_reserved_ids m)"
  "\<lambda>i. l850gl_sms_identity_is_valid (Some i)"
  using new_sms_id_loop_sound by unfold_locales (force simp: new_sms_id_def)+

section \<open>Invariant\<close>

definition entry_current :: "modem \<Rightarrow> sms_entry \<Rightarrow> bool" where
  "entry_current m e \<longleftrightarrow> sms_owned e \<and> entry_modem_generation e = generation m \<and>
     entry_messaging_generation e = messaging_generation m"

definition table_ok :: "modem \<Rightarrow> sms_table \<Rightarrow> bool" where
  "table_ok m t \<longleftrightarrow> distinct (map fst t) \<and> distinct (table_ids t) \<and>
     list_all (\<lambda>i. l850gl_sms_identity_is_valid (Some i)) (table_ids t) \<and>
     set (table_ids t) \<inter> set (sms_reserved_ids m) = {} \<and>
     list_all (entry_current m) (map snd t)"

definition sms_inv :: "modem \<Rightarrow> bool" where
  "sms_inv m \<longleftrightarrow> table_ok m (sms_by_path m) \<and> length (sms_by_path m) \<le> MAX_SMS_CACHE \<and>
     distinct (sms_reserved_ids m) \<and>
     list_all (\<lambda>i. l850gl_sms_identity_is_valid (Some i)) (sms_reserved_ids m) \<and>
     distinct (sms_deleted_paths m) \<and> length (sms_deleted_paths m) \<le> MAX_SMS_CACHE \<and>
     (sms_by_path m \<noteq> [] \<longrightarrow> live m \<and> messaging m \<noteq> None)"

lemma table_ids_simps [simp]:
  "table_ids [] = []" "table_ids (x # t) = entry_sms_id (snd x) # table_ids t"
  by (simp_all add: table_ids_def)

lemma table_ids_update_subset:
  "set (table_ids (AList.update p e t)) \<subseteq> insert (entry_sms_id e) (set (table_ids t))"
  by (induction t) auto

lemma snd_update_subset: "set (map snd (AList.update p e t)) \<subseteq> insert e (set (map snd t))"
  by (induction t) auto

lemma map_of_id_mem: "map_of t p = Some e \<Longrightarrow> entry_sms_id e \<in> set (table_ids t)"
  by (induction t) (auto split: if_splits)

lemma distinct_table_ids_update:
  assumes "distinct (map fst t)" and "distinct (table_ids t)"
    and "entry_sms_id e \<notin> set (table_ids t) \<or> map_option entry_sms_id (map_of t p) = Some (entry_sms_id e)"
  shows "distinct (table_ids (AList.update p e t))"
  using assms
proof (induction t)
  case (Cons x t)
  obtain q e' where [simp]: "x = (q, e')" by (cases x)
  show ?case
  proof (cases "q = p")
    case True
    with Cons.prems show ?thesis by (auto simp: map_of_eq_None_iff)
  next
    case False
    with Cons.prems map_of_id_mem [of t p] table_ids_update_subset [of p e t] Cons.IH show ?thesis
      by (fastforce)
  qed
qed simp

lemma set_table_ids_delete: "set (table_ids (AList.delete p t)) \<subseteq> set (table_ids t)"
  by (induction t) (auto)

lemma delete_filter: "AList.delete p t = filter (\<lambda>x. fst x \<noteq> p) t"
  by (induction t) auto

lemma table_ok_delete: "table_ok m t \<Longrightarrow> table_ok m (AList.delete p t)"
  unfolding table_ok_def delete_filter table_ids_def
  by (auto simp: distinct_map_filter list_all_iff)

lemma delete_stolen_id:
  assumes "map_of t p = Some e" and "distinct (table_ids t)"
  shows "entry_sms_id e \<notin> set (table_ids (AList.delete p t))"
  using assms
proof (induction t)
  case (Cons x t)
  then show ?case
    using map_of_id_mem [of t p e] set_table_ids_delete [of p t] by (auto split: if_splits)
qed simp

lemma table_ok_update:
  assumes "table_ok m t" and "entry_current m e"
    and "l850gl_sms_identity_is_valid (Some (entry_sms_id e))"
    and "entry_sms_id e \<notin> set (sms_reserved_ids m)"
    and "entry_sms_id e \<notin> set (table_ids t) \<or> map_option entry_sms_id (map_of t p) = Some (entry_sms_id e)"
  shows "table_ok m (AList.update p e t)"
proof -
  have ids: "set (table_ids (AList.update p e t)) \<subseteq> insert (entry_sms_id e) (set (table_ids t))"
    and snds: "set (map snd (AList.update p e t)) \<subseteq> insert e (set (map snd t))"
    by (rule table_ids_update_subset, rule snd_update_subset)
  have dist: "distinct (table_ids (AList.update p e t))"
    using assms(1,5) unfolding table_ok_def by (intro distinct_table_ids_update) simp_all
  have "\<And>i. i \<in> set (table_ids (AList.update p e t)) \<Longrightarrow>
      l850gl_sms_identity_is_valid (Some i) \<and> i \<notin> set (sms_reserved_ids m)"
    using ids assms by (auto simp: table_ok_def list_all_iff)
  moreover have "list_all (entry_current m) (map snd (AList.update p e t))"
    using snds assms unfolding table_ok_def list_all_iff by blast
  ultimately show ?thesis
    using dist assms by (auto simp: table_ok_def list_all_iff distinct_update)
qed

lemma sms_set_proxy_current:
  assumes "sms_owned e \<Longrightarrow> entry_current m e"
  shows "entry_current m (sms_set_proxy e m sms)"
    and "entry_sms_id (sms_set_proxy e m sms) = entry_sms_id e"
  using assms by (auto simp: sms_set_proxy_def entry_current_def)

lemma sms_entry_new_sound:
  assumes "sms_entry_new rnd m sms additional None = (Some e, rnd')"
  shows "entry_current m e" and "l850gl_sms_identity_is_valid (Some (entry_sms_id e))"
    and "entry_sms_id e \<notin> set (table_ids (sms_by_path m)) \<union> set (table_ids additional) \<union>
      set (sms_reserved_ids m)"
proof -
  from assms obtain i where i: "new_sms_id rnd m additional = (Some i, rnd')"
    and e: "e = sms_set_proxy \<lparr>sms_owned = False, sms_object = None, entry_sms_id = i,
      entry_modem_generation = 0, entry_messaging_generation = 0\<rparr> m sms"
    by (auto simp: sms_entry_new_def split: option.splits prod.splits)
  show "entry_current m e" unfolding e by (rule sms_set_proxy_current) simp
  have id: "entry_sms_id e = i" unfolding e by (simp add: sms_set_proxy_def)
  from i show "l850gl_sms_identity_is_valid (Some (entry_sms_id e))"
    "entry_sms_id e \<notin> set (table_ids (sms_by_path m)) \<union> set (table_ids additional) \<union>
      set (sms_reserved_ids m)"
    using sms_ids.allocate_valid [of rnd "(m, additional)"]
      sms_ids.allocate_fresh [of rnd "(m, additional)"] by (auto simp: id)
qed

definition rebuild_ok :: "modem \<Rightarrow> rebuild \<Rightarrow> bool" where
  "rebuild_ok m r \<longleftrightarrow> table_ok m (old_cache r) \<and> table_ok m (new_cache r) \<and>
     set (table_ids (old_cache r)) \<inter> set (table_ids (new_cache r)) = {} \<and>
     length (new_cache r) \<le> count r \<and> count r \<le> MAX_SMS_CACHE \<and>
     set (map fst (new_cache r)) \<inter> set (sms_deleted_paths m) = {}"

lemma table_ok_cong:
  "generation m' = generation m \<Longrightarrow> messaging_generation m' = messaging_generation m \<Longrightarrow>
   sms_reserved_ids m' = sms_reserved_ids m \<Longrightarrow> table_ok m' t = table_ok m t"
  by (simp add: table_ok_def entry_current_def [abs_def])

lemma keys_update: "fst ` set (AList.update p e t) = insert p (fst ` set t)"
  by (induction t) auto

lemma length_update: "length (AList.update p e t) \<le> Suc (length t)"
  by (induction t) auto

lemma map_of_table_ok:
  assumes "table_ok m t" and "map_of t p = Some e"
  shows "entry_current m e" and "l850gl_sms_identity_is_valid (Some (entry_sms_id e))"
    and "entry_sms_id e \<notin> set (sms_reserved_ids m)"
  using assms map_of_SomeD [OF assms(2)] map_of_id_mem [OF assms(2)]
  by (auto simp: table_ok_def list_all_iff)

lemma sms_list_visit_ok:
  assumes ok: "rebuild_ok m r" and run: "sms_list_visit objpath m sms rnd r = (Some r', rnd')"
  shows "rebuild_ok m r'"
proof (cases "\<exists>path. mm_sms_path sms = Some path \<and> objpath path \<and> path \<notin> set (sms_deleted_paths m) \<and>
    count r < MAX_SMS_CACHE")
  case False
  with run have "old_cache r' = old_cache r \<and> new_cache r' = new_cache r \<and> count r' = count r"
    by (auto simp: sms_list_visit_def not_le split: option.splits if_splits)
  with ok show ?thesis by (simp add: rebuild_ok_def)
next
  case True
  then obtain path where path: "mm_sms_path sms = Some path" "objpath path"
    "path \<notin> set (sms_deleted_paths m)" "count r < MAX_SMS_CACHE" by blast
  show ?thesis
  proof (cases "map_of (old_cache r) path")
    case (Some e)
    let ?e = "sms_set_proxy e m sms"
    note e = map_of_table_ok [OF _ Some, of m]
    have t: "table_ok m (old_cache r)" using ok by (simp add: rebuild_ok_def)
    have id: "entry_sms_id ?e = entry_sms_id e" by (simp add: sms_set_proxy_def)
    have fresh: "entry_sms_id e \<notin> set (table_ids (new_cache r))"
      using ok map_of_id_mem [OF Some] by (auto simp: rebuild_ok_def)
    have "table_ok m (AList.update path ?e (new_cache r))"
      using ok e [OF t] fresh id
      by (intro table_ok_update sms_set_proxy_current) (auto simp: rebuild_ok_def)
    moreover from t delete_stolen_id [OF Some] have "entry_sms_id e \<notin> set (table_ids (AList.delete path (old_cache r)))"
      by (simp add: table_ok_def)
    then have "set (table_ids (AList.delete path (old_cache r))) \<inter>
        set (table_ids (AList.update path ?e (new_cache r))) = {}"
      using ok table_ids_update_subset [of path ?e "new_cache r"]
        set_table_ids_delete [of path "old_cache r"] by (auto simp: rebuild_ok_def id)
    moreover from run path Some have "r' = r\<lparr>old_cache := AList.delete path (old_cache r),
        new_cache := AList.update path ?e (new_cache r), count := count r + 1\<rparr>"
      by (simp add: sms_list_visit_def)
    ultimately show ?thesis
      using path ok table_ok_delete [OF t, of path] length_update [of path ?e "new_cache r"]
      by (simp add: rebuild_ok_def keys_update)
  next
    case None
    with run path obtain e where new: "sms_entry_new rnd (m\<lparr>sms_by_path := old_cache r\<rparr>) sms
        (new_cache r) None = (Some e, rnd')"
      and r': "r' = r\<lparr>new_cache := AList.update path e (new_cache r), count := count r + 1\<rparr>"
      by (auto simp: sms_list_visit_def split: prod.splits option.splits)
    note e = sms_entry_new_sound [OF new]
    have "table_ok m (AList.update path e (new_cache r))"
      using ok e by (intro table_ok_update) (auto simp: rebuild_ok_def entry_current_def)
    moreover have "set (table_ids (old_cache r)) \<inter>
        set (table_ids (AList.update path e (new_cache r))) = {}"
      using ok e(3) table_ids_update_subset [of path e "new_cache r"] by (auto simp: rebuild_ok_def)
    ultimately show ?thesis
      using ok path length_update [of path e "new_cache r"]
      by (simp add: r' rebuild_ok_def keys_update)
  qed
qed

lemma sms_list_loop_ok:
  "rebuild_ok m r \<Longrightarrow> sms_list_loop objpath m msgs rnd r = (Some r', rnd') \<Longrightarrow> rebuild_ok m r'"
  by (induction objpath m msgs rnd r rule: sms_list_loop.induct)
    (auto split: prod.splits option.splits dest: sms_list_visit_ok)

lemma rebuild_start_ok: "sms_inv m \<Longrightarrow> rebuild_ok m (rebuild_start m)"
  by (auto simp: rebuild_ok_def rebuild_start_def sms_inv_def table_ok_def)

section \<open>Every operation keeps the invariant\<close>

text \<open>The fields the invariant reads, and the operations that leave all of them alone.\<close>

definition same_tables :: "modem \<Rightarrow> modem \<Rightarrow> bool" where
  "same_tables m' m \<longleftrightarrow> sms_by_path m' = sms_by_path m \<and> sms_reserved_ids m' = sms_reserved_ids m \<and>
     sms_deleted_paths m' = sms_deleted_paths m \<and> live m' = live m \<and> messaging m' = messaging m \<and>
     generation m' = generation m \<and> messaging_generation m' = messaging_generation m"

lemma sms_inv_cong: "same_tables m' m \<Longrightarrow> sms_inv m' = sms_inv m"
  using table_ok_cong [of m' m] by (simp add: same_tables_def sms_inv_def)

lemma same_tables_bump [simp]: "same_tables (sms_revision_bump m) m"
  by (simp add: same_tables_def sms_revision_bump_def)

lemma same_tables_query_sms [simp]: "same_tables (fst (query_sms m)) m"
  by (simp add: same_tables_def query_sms_def split: option.splits)

lemma sms_inv_neutral [simp]:
  "sms_inv (sms_revision_bump m) = sms_inv m"
  "sms_inv (fst (query_sms m)) = sms_inv m"
  by (rule sms_inv_cong, simp)+

lemma sms_inv_empty:
  "sms_by_path m = [] \<Longrightarrow> distinct (sms_reserved_ids m) \<Longrightarrow>
   list_all (\<lambda>i. l850gl_sms_identity_is_valid (Some i)) (sms_reserved_ids m) \<Longrightarrow>
   distinct (sms_deleted_paths m) \<Longrightarrow> length (sms_deleted_paths m) \<le> MAX_SMS_CACHE \<Longrightarrow> sms_inv m"
  by (simp add: sms_inv_def table_ok_def)

lemma sms_inv_clear [simp]: "sms_inv m \<Longrightarrow> sms_inv (clear_sms_cache m)"
  by (rule sms_inv_empty) (simp_all add: clear_sms_cache_def sms_inv_def)

lemma sms_inv_removed: "sms_inv m \<Longrightarrow> sms_inv (modem_mark_removed m)"
  by (rule sms_inv_empty)
    (simp_all add: modem_mark_removed_def clear_sms_cache_def disconnect_messaging_signals_def sms_inv_def)

lemma sms_inv_reserve:
  assumes "sms_inv m" and "l850gl_modem_reserve_sms_id rnd m = (i, m', rnd')"
  shows "sms_inv m'"
proof (cases i)
  case None
  with assms show ?thesis
    by (auto simp: l850gl_modem_reserve_sms_id_def split: if_splits prod.splits option.splits)
next
  case (Some j)
  with assms have new: "new_sms_id rnd m [] = (Some j, rnd')"
    and m': "m' = m\<lparr>sms_reserved_ids := List.insert j (sms_reserved_ids m)\<rparr>"
    by (auto simp: l850gl_modem_reserve_sms_id_def split: if_splits prod.splits option.splits)
  have "j \<notin> set (table_ids (sms_by_path m))" "l850gl_sms_identity_is_valid (Some j)"
    using sms_ids.allocate_fresh [of rnd "(m, [])"] sms_ids.allocate_valid [of rnd "(m, [])"] new
    by auto
  with assms(1) show ?thesis
    by (auto simp: m' sms_inv_def table_ok_def entry_current_def [abs_def] List.insert_def)
qed

lemma table_ok_release:
  "table_ok m t \<Longrightarrow> table_ok (l850gl_modem_release_sms_id m i) t"
  by (auto simp: table_ok_def l850gl_modem_release_sms_id_def entry_current_def [abs_def]
      split: option.splits)

lemma release_fields [simp]:
  "sms_by_path (l850gl_modem_release_sms_id m i) = sms_by_path m"
  "sms_deleted_paths (l850gl_modem_release_sms_id m i) = sms_deleted_paths m"
  "live (l850gl_modem_release_sms_id m i) = live m"
  "messaging (l850gl_modem_release_sms_id m i) = messaging m"
  "generation (l850gl_modem_release_sms_id m i) = generation m"
  "messaging_generation (l850gl_modem_release_sms_id m i) = messaging_generation m"
  by (simp_all add: l850gl_modem_release_sms_id_def split: option.splits)

lemma sms_inv_release: "sms_inv m \<Longrightarrow> sms_inv (l850gl_modem_release_sms_id m i)"
  using table_ok_release [of m "sms_by_path m" i]
  by (auto simp: sms_inv_def) (auto simp: l850gl_modem_release_sms_id_def list_all_iff split: option.splits)

text \<open>Storing an entry under a path and releasing the identifier it was admitted with.\<close>

lemma sms_inv_store:
  assumes inv: "sms_inv m" and "live m" "messaging m \<noteq> None" and cur: "entry_current m e"
    and val: "l850gl_sms_identity_is_valid (Some (entry_sms_id e))"
    and res: "entry_sms_id e \<notin> set (sms_reserved_ids m) \<or> i = Some (entry_sms_id e)"
    and id: "entry_sms_id e \<notin> set (table_ids (sms_by_path m)) \<or>
      map_option entry_sms_id (map_of (sms_by_path m) p) = Some (entry_sms_id e)"
    and len: "length (sms_by_path m) < MAX_SMS_CACHE \<or> map_of (sms_by_path m) p \<noteq> None"
  shows "sms_inv (l850gl_modem_release_sms_id (m\<lparr>sms_by_path := AList.update p e (sms_by_path m)\<rparr>) i)"
    (is "sms_inv ?m")
proof -
  have "table_ok ?m (AList.update p e (sms_by_path m))"
  proof (rule table_ok_update)
    have "table_ok (m\<lparr>sms_by_path := AList.update p e (sms_by_path m)\<rparr>) (sms_by_path m)"
      using inv by (subst table_ok_cong [of _ m]) (auto simp: sms_inv_def)
    then show "table_ok ?m (sms_by_path m)" by (rule table_ok_release)
    show "entry_sms_id e \<notin> set (sms_reserved_ids ?m)"
      using res by (auto simp: l850gl_modem_release_sms_id_def split: option.splits)
  qed (use cur val id in \<open>auto simp: entry_current_def\<close>)
  moreover have "length (AList.update p e (sms_by_path m)) \<le> MAX_SMS_CACHE"
  proof (cases "map_of (sms_by_path m) p")
    case None
    then show ?thesis using len length_update [of p e "sms_by_path m"] by simp
  next
    case (Some x)
    then have "p \<in> fst ` set (sms_by_path m)" by (force dest: map_of_SomeD)
    then have "map fst (AList.update p e (sms_by_path m)) = map fst (sms_by_path m)"
      by (simp add: update_keys)
    then have "length (AList.update p e (sms_by_path m)) = length (sms_by_path m)"
      by (metis length_map)
    then show ?thesis using inv by (simp add: sms_inv_def)
  qed
  ultimately show ?thesis
    using assms(1-3) sms_inv_release [OF inv, of i]
    by (auto simp: sms_inv_def l850gl_modem_release_sms_id_def split: option.splits)
qed

lemma sms_set_proxy_id [simp]: "entry_sms_id (sms_set_proxy e m sms) = entry_sms_id e"
  by (simp add: sms_set_proxy_def)

lemma sms_entry_new_admitted:
  assumes inv: "sms_inv m" and new: "sms_entry_new rnd m sms [] i = (Some e, rnd')"
    and guard: "\<not> (case i of None \<Rightarrow> False
      | Some i \<Rightarrow> \<not> l850gl_sms_identity_is_valid (Some i) \<or> i \<notin> set (sms_reserved_ids m))"
  shows "entry_current m e" and "l850gl_sms_identity_is_valid (Some (entry_sms_id e))"
    and "entry_sms_id e \<notin> set (sms_reserved_ids m) \<or> i = Some (entry_sms_id e)"
    and "entry_sms_id e \<notin> set (table_ids (sms_by_path m))"
proof -
  have "entry_current m e \<and> l850gl_sms_identity_is_valid (Some (entry_sms_id e)) \<and>
    (entry_sms_id e \<notin> set (sms_reserved_ids m) \<or> i = Some (entry_sms_id e)) \<and>
    entry_sms_id e \<notin> set (table_ids (sms_by_path m))"
  proof (cases i)
    case None
    with sms_entry_new_sound [OF new [unfolded None]] show ?thesis by simp
  next
    case (Some j)
    with new have "e = sms_set_proxy \<lparr>sms_owned = False, sms_object = None, entry_sms_id = j,
        entry_modem_generation = 0, entry_messaging_generation = 0\<rparr> m sms"
      by (simp add: sms_entry_new_def)
    then have "entry_sms_id e = j" "entry_current m e"
      by (simp_all add: sms_set_proxy_def entry_current_def)
    with Some guard inv show ?thesis by (auto simp: sms_inv_def table_ok_def)
  qed
  then show "entry_current m e" "l850gl_sms_identity_is_valid (Some (entry_sms_id e))"
    "entry_sms_id e \<notin> set (sms_reserved_ids m) \<or> i = Some (entry_sms_id e)"
    "entry_sms_id e \<notin> set (table_ids (sms_by_path m))" by blast+
qed

lemma sms_inv_admit_known:
  assumes inv: "sms_inv m" and live: "live m" "messaging m \<noteq> None"
    and guard: "\<not> (case i of None \<Rightarrow> False
      | Some i \<Rightarrow> \<not> l850gl_sms_identity_is_valid (Some i) \<or> i \<notin> set (sms_reserved_ids m))"
    and entry: "map_of (sms_by_path m) path = Some entry"
    and e: "e = (case i of None \<Rightarrow> entry | Some j \<Rightarrow> entry\<lparr>entry_sms_id := j\<rparr>)"
    and fresh: "\<forall>j. i = Some j \<and> entry_sms_id entry \<noteq> j \<longrightarrow> j \<notin> set (table_ids (sms_by_path m))"
  shows "sms_inv (l850gl_modem_release_sms_id
    (m\<lparr>sms_by_path := AList.update path (sms_set_proxy e m sms) (sms_by_path m)\<rparr>) i)"
proof (rule sms_inv_store [OF inv live])
  have ok: "table_ok m (sms_by_path m)" using inv by (simp add: sms_inv_def)
  note entry_ok = map_of_table_ok [OF ok entry]
  have "entry_current m e"
    using entry_ok(1) by (auto simp: e entry_current_def split: option.splits)
  then show "entry_current m (sms_set_proxy e m sms)" by (rule sms_set_proxy_current)
  show "l850gl_sms_identity_is_valid (Some (entry_sms_id (sms_set_proxy e m sms)))"
    using entry_ok(2) guard unfolding e by (auto split: option.splits)
  show "entry_sms_id (sms_set_proxy e m sms) \<notin> set (sms_reserved_ids m) \<or>
      i = Some (entry_sms_id (sms_set_proxy e m sms))"
    using entry_ok(3) unfolding e by (auto split: option.splits)
  show "entry_sms_id (sms_set_proxy e m sms) \<notin> set (table_ids (sms_by_path m)) \<or>
      map_option entry_sms_id (map_of (sms_by_path m) path) =
        Some (entry_sms_id (sms_set_proxy e m sms))"
    using fresh unfolding e entry by (auto split: option.splits)
qed (simp add: entry)

lemma sms_set_proxy_bump: "sms_set_proxy e (sms_revision_bump m) sms = sms_set_proxy e m sms"
  by (simp add: sms_set_proxy_def sms_revision_bump_def)

lemma sms_inv_admit_unknown:
  assumes inv: "sms_inv m" and live: "live m" "messaging m \<noteq> None"
    and guard: "\<not> (case i of None \<Rightarrow> False
      | Some i \<Rightarrow> \<not> l850gl_sms_identity_is_valid (Some i) \<or> i \<notin> set (sms_reserved_ids m))"
    and path: "mm_sms_path sms = Some path" "objpath path"
    and none: "map_of (sms_by_path m) path = None"
    and run: "modem_admit_sms objpath rnd m sms i = (e, m', rnd')"
  shows "sms_inv m'"
proof (cases "MAX_SMS_CACHE \<le> length (sms_by_path m)")
  case True
  with run live guard path none have "m' = m\<lparr>sms_cache_truncated := True\<rparr>"
    by (simp add: modem_admit_sms_def)
  with inv sms_inv_cong [of m' m] show ?thesis by (simp add: same_tables_def)
next
  case False
  obtain en rnd1 where new: "sms_entry_new rnd m sms [] i = (en, rnd1)" by fastforce
  show ?thesis
  proof (cases en)
    case None
    with run live guard path none False new
    have "m' = clear_sms_cache (m\<lparr>sms_cache_state := ''unavailable''\<rparr>)"
      by (simp add: modem_admit_sms_def)
    moreover have "sms_inv (m\<lparr>sms_cache_state := ''unavailable''\<rparr>)"
      using inv sms_inv_cong [of "m\<lparr>sms_cache_state := ''unavailable''\<rparr>" m]
      by (simp add: same_tables_def)
    ultimately show ?thesis by simp
  next
    case (Some entry)
    have m': "m' = sms_revision_bump (l850gl_modem_release_sms_id
        (m\<lparr>sms_by_path := AList.update path entry (sms_by_path m)\<rparr>) i)"
      using run live guard path none False new Some
      by (simp add: modem_admit_sms_def)
    note e = sms_entry_new_admitted [OF inv new [unfolded Some] guard]
    show ?thesis unfolding m' sms_inv_neutral
      using False e by (intro sms_inv_store [OF inv live]) auto
  qed
qed

lemma sms_inv_admit:
  assumes inv: "sms_inv m" and run: "modem_admit_sms objpath rnd m sms i = (e, m', rnd')"
  shows "sms_inv m'"
proof -
  let ?guard = "case i of None \<Rightarrow> False
      | Some i \<Rightarrow> \<not> l850gl_sms_identity_is_valid (Some i) \<or> i \<notin> set (sms_reserved_ids m)"
  show ?thesis
  proof (cases "live m \<and> messaging m \<noteq> None \<and> \<not> ?guard \<and>
      (\<exists>path. mm_sms_path sms = Some path \<and> objpath path)")
    case False
    with run have "m' = m"
      unfolding modem_admit_sms_def by (auto split: option.splits if_splits)
    with inv show ?thesis by simp
  next
    case True
    then obtain path where live: "live m" "messaging m \<noteq> None" and guard: "\<not> ?guard"
      and path: "mm_sms_path sms = Some path" "objpath path" by blast
    show ?thesis
    proof (cases "map_of (sms_by_path m) path")
      case (Some entry)
      let ?rename = "case i of None \<Rightarrow> None
        | Some i \<Rightarrow> if entry_sms_id entry \<noteq> i then Some i else None"
      let ?e1 = "case ?rename of None \<Rightarrow> entry | Some i \<Rightarrow> entry\<lparr>entry_sms_id := i\<rparr>"
      have e1: "?e1 = (case i of None \<Rightarrow> entry | Some j \<Rightarrow> entry\<lparr>entry_sms_id := j\<rparr>)"
        by (auto split: option.splits)
      consider "m' = m" | "\<forall>j. i = Some j \<and> entry_sms_id entry \<noteq> j \<longrightarrow> j \<notin> set (table_ids (sms_by_path m))"
          "same_tables m' (l850gl_modem_release_sms_id
            (m\<lparr>sms_by_path := AList.update path (sms_set_proxy ?e1 m sms) (sms_by_path m)\<rparr>) i)"
        using run live guard path Some
        by (auto simp: modem_admit_sms_def sms_id_exists_iff Let_def same_tables_def
            sms_revision_bump_def sms_set_proxy_def l850gl_modem_release_sms_id_def
            split: option.splits if_splits)
      then show ?thesis
        using inv sms_inv_admit_known [OF inv live guard Some e1] by cases (auto simp: sms_inv_cong)
    next
      case None
      then show ?thesis by (rule sms_inv_admit_unknown [OF inv live guard path _ run])
    qed
  qed
qed

lemma sms_inv_query: "query_sms m = (m', q) \<Longrightarrow> sms_inv m' = sms_inv m"
  using sms_inv_neutral(2) [of m] by (simp del: sms_inv_neutral)

lemma sms_inv_rebuild:
  assumes inv: "sms_inv m" and live: "live m" "messaging m \<noteq> None"
  shows "sms_inv (fst (sms_cache_rebuild objpath messages rnd m))"
proof -
  obtain res rnd' where run: "sms_list_loop objpath m (g_list_sort sms_proxy_newest_first messages) rnd
      (rebuild_start m) = (res, rnd')" by fastforce
  show ?thesis
  proof (cases res)
    case None
    have "sms_inv ((clear_sms_cache m)\<lparr>sms_cache_state := ''unavailable''\<rparr>)"
      using inv by (intro sms_inv_empty) (simp_all add: clear_sms_cache_def sms_inv_def)
    with run None show ?thesis by (simp add: sms_cache_rebuild_def)
  next
    case (Some r)
    let ?m = "m\<lparr>sms_by_path := new_cache r, sms_cache_truncated := truncated r,
      sms_cache_state := (if truncated r then ''ready-truncated'' else ''ready''),
      sms_deleted_paths := filter (\<lambda>p. p \<in> set (seen_deleted r)) (sms_deleted_paths m)\<rparr>"
    have "rebuild_ok m r" using sms_list_loop_ok [OF rebuild_start_ok [OF inv]] run Some by simp
    moreover have "table_ok ?m (new_cache r) = table_ok m (new_cache r)"
      by (rule table_ok_cong) simp_all
    moreover have "length (filter (\<lambda>p. p \<in> set (seen_deleted r)) (sms_deleted_paths m)) \<le> MAX_SMS_CACHE"
      using inv order_trans [OF length_filter_le] by (auto simp: sms_inv_def)
    ultimately have "sms_inv ?m"
      using inv live by (auto simp: rebuild_ok_def sms_inv_def)
    with run Some show ?thesis by (simp add: sms_cache_rebuild_def)
  qed
qed

lemma sms_inv_list_ready:
  assumes inv: "sms_inv m"
  shows "sms_inv (fst (sms_list_ready objpath q answer rnd m))"
proof (cases "\<not> live m \<or> messaging m \<noteq> Some (query_source q) \<or>
    messaging_generation m \<noteq> query_messaging_generation q")
  case True
  with inv show ?thesis by (auto simp: sms_list_ready_def)
next
  case False
  let ?m1 = "m\<lparr>sms_query_pending := False, sms_query_dirty := False\<rparr>"
  let ?r = "case answer of Answered messages \<Rightarrow> sms_cache_rebuild objpath messages rnd ?m1
    | _ \<Rightarrow> (sms_revision_bump (clear_sms_cache (?m1\<lparr>sms_cache_state := failed_state answer\<rparr>)), rnd)"
  have m1: "sms_inv ?m1" using inv sms_inv_cong [of ?m1 m] by (simp add: same_tables_def)
  have "sms_inv (?m1\<lparr>sms_cache_state := failed_state answer\<rparr>)"
    using inv sms_inv_cong [of "?m1\<lparr>sms_cache_state := failed_state answer\<rparr>" m]
    by (simp add: same_tables_def)
  then have "sms_inv (fst ?r)"
    using False sms_inv_rebuild [OF m1] by (cases answer) auto
  then show ?thesis
    using False
    by (cases ?r) (auto simp: sms_list_ready_def Let_def sms_inv_query split: prod.splits)
qed

lemma sms_inv_added: "sms_inv m \<Longrightarrow> sms_inv (fst (sms_added objpath path m))"
  by (auto simp: sms_added_def split: option.splits)
    (auto simp: sms_inv_def table_ok_def entry_current_def [abs_def]
      intro: order_trans [OF length_filter_le])

lemma sms_inv_deleted:
  assumes "sms_inv m"
  shows "sms_inv (fst (sms_deleted objpath path m))"
proof -
  have "sms_inv (m\<lparr>sms_deleted_paths := List.insert p (sms_deleted_paths m)\<rparr>)"
    if "length (sms_deleted_paths m) < MAX_SMS_CACHE" for p
    using assms that by (auto simp: sms_inv_def table_ok_def entry_current_def [abs_def] List.insert_def)
  moreover have "sms_inv (m'\<lparr>sms_by_path := AList.delete p (sms_by_path m')\<rparr>)" if "sms_inv m'" for m' p
    using that table_ok_delete [of m' "sms_by_path m'" p]
      order_trans [OF length_filter_le [of "\<lambda>x. fst x \<noteq> p" "sms_by_path m'"]]
      table_ok_cong [of "m'\<lparr>sms_by_path := AList.delete p (sms_by_path m')\<rparr>" m' "AList.delete p (sms_by_path m')"]
    by (auto simp: sms_inv_def delete_filter)
  ultimately show ?thesis
    using assms by (auto simp: sms_deleted_def Let_def split: option.splits)
qed

lemma word_less_plus1:
  assumes "(g :: u32) \<noteq> UINT32_MAX"
  shows "g < g + 1"
proof -
  have "g < UINT32_MAX" using assms unat_le_max32 [of g]
    by (simp add: word_less_nat_alt word_unat_eq_iff UINT32_MAX_def)
  then show ?thesis by (simp add: word_less_nat_alt unat_plus1_less)
qed

lemma reconcile_epoch:
  assumes "force_epoch \<or> current \<noteq> messaging m"
  defines "m' \<equiv> fst (reconcile_messaging current force_epoch m)"
  shows "sms_by_path m' = []" and "sms_reserved_ids m' = []" and "sms_deleted_paths m' = []"
    and "dedupe_queue m' = []" and "live m' = live m" and "generation m' = generation m"
    and "messaging_generation m < messaging_generation m' \<or>
      messaging_generation m' = UINT32_MAX \<and> messaging_generation m = UINT32_MAX \<and> messaging m' = None"
proof -
  let ?g = "messaging_generation m"
  have less: "?g < ?g + 1" if "?g \<noteq> UINT32_MAX"
    using that by (rule word_less_plus1)
  show "sms_by_path m' = []" "sms_reserved_ids m' = []" "sms_deleted_paths m' = []"
    "dedupe_queue m' = []" "live m' = live m" "generation m' = generation m"
    "?g < messaging_generation m' \<or>
      messaging_generation m' = UINT32_MAX \<and> ?g = UINT32_MAX \<and> messaging m' = None"
    using assms less
    by (auto simp: reconcile_messaging_def Let_def query_sms_def sms_revision_bump_def
        clear_sms_cache_def disconnect_messaging_signals_def split: option.splits)
qed

lemma sms_inv_reconcile:
  assumes "sms_inv m"
  shows "sms_inv (fst (reconcile_messaging current force_epoch m))"
proof (cases "force_epoch \<or> current \<noteq> messaging m")
  case True
  from reconcile_epoch [OF this] show ?thesis by (simp add: sms_inv_empty)
qed (use assms in \<open>simp add: reconcile_messaging_def\<close>)

section \<open>Interleavings\<close>

text \<open>
  Everything that can happen to the SMS state of an admitted modem, in any order: the calls of
  the bus interface, ModemManager's signals, the answers to list queries (current or stale),
  epoch changes and removal.
\<close>

inductive sms_step :: "(cstring \<Rightarrow> bool) \<Rightarrow> modem \<Rightarrow> modem \<Rightarrow> bool" for objpath where
  reserve: "l850gl_modem_reserve_sms_id rnd m = (i, m', rnd') \<Longrightarrow> sms_step objpath m m'"
| release: "sms_step objpath m (l850gl_modem_release_sms_id m i)"
| admit: "l850gl_modem_admit_sms objpath rnd m sms = (e, m', rnd') \<Longrightarrow> sms_step objpath m m'"
| admit_reserved:
    "l850gl_modem_admit_reserved_sms objpath rnd m sms i = (e, m', rnd') \<Longrightarrow> sms_step objpath m m'"
| refresh: "l850gl_modem_refresh_sms m = (m', q) \<Longrightarrow> sms_step objpath m m'"
| list_ready: "sms_list_ready objpath q answer rnd m = (m', q', rnd') \<Longrightarrow> sms_step objpath m m'"
| added: "sms_added objpath path m = (m', q) \<Longrightarrow> sms_step objpath m m'"
| deleted: "sms_deleted objpath path m = (m', q) \<Longrightarrow> sms_step objpath m m'"
| changed: "sms_step objpath m (sms_properties_changed e m)"
| reconcile: "reconcile_messaging current force_epoch m = (m', q) \<Longrightarrow> sms_step objpath m m'"
| removed: "sms_step objpath m (modem_mark_removed m)"

lemma sms_step_inv:
  assumes "sms_step objpath m m'" and "sms_inv m"
  shows "sms_inv m'"
  using assms
proof cases
  case (reserve rnd i rnd')
  with assms(2) show ?thesis by (auto intro: sms_inv_reserve)
next
  case (admit rnd sms e rnd')
  with assms(2) show ?thesis by (auto simp: l850gl_modem_admit_sms_def intro: sms_inv_admit)
next
  case (admit_reserved rnd sms i e rnd')
  with assms(2) show ?thesis by (auto simp: l850gl_modem_admit_reserved_sms_def intro: sms_inv_admit)
next
  case (refresh q)
  with assms(2) show ?thesis by (simp add: l850gl_modem_refresh_sms_def sms_inv_query)
next
  case (list_ready q answer rnd q' rnd')
  with sms_inv_list_ready [OF assms(2), of objpath q answer rnd] show ?thesis by simp
next
  case (added path q)
  with sms_inv_added [OF assms(2), of objpath path] show ?thesis by simp
next
  case (deleted path q)
  with sms_inv_deleted [OF assms(2), of objpath path] show ?thesis by simp
next
  case (reconcile current force_epoch q)
  with sms_inv_reconcile [OF assms(2), of current force_epoch] show ?thesis by simp
qed (auto simp: sms_inv_release sms_inv_removed sms_properties_changed_def assms(2))

lemma sms_steps_inv: "(sms_step objpath)\<^sup>*\<^sup>* m m' \<Longrightarrow> sms_inv m \<Longrightarrow> sms_inv m'"
  by (induction rule: rtranclp_induct) (auto intro: sms_step_inv)


text \<open>
  The messaging epoch a list query belongs to has passed: the generation is a later one, or the
  last one is used up and the modem will not have a messaging interface again.
\<close>

definition epoch_passed :: "sms_query \<Rightarrow> modem \<Rightarrow> bool" where
  "epoch_passed q m \<longleftrightarrow> query_messaging_generation q < messaging_generation m \<or>
     messaging_generation m = UINT32_MAX \<and> messaging m = None"

lemma epoch_passed_mono:
  assumes "epoch_passed q m" and "messaging_generation m < messaging_generation m' \<or>
    messaging_generation m' = messaging_generation m \<and> (messaging m' = messaging m \<or> messaging m' = None)"
  shows "epoch_passed q m'"
proof -
  have "\<not> UINT32_MAX < g" for g :: u32
    using unat_le_max32 [of g] by (simp add: word_less_nat_alt UINT32_MAX_def)
  with assms show ?thesis unfolding epoch_passed_def by auto
qed

lemma epoch_ignored: "epoch_passed q m \<Longrightarrow> sms_list_ready objpath q answer rnd m = (m, None, rnd)"
  by (auto simp: epoch_passed_def sms_list_ready_def)

lemma messaging_kept:
  "l850gl_modem_reserve_sms_id rnd m = (i, m', rnd') \<Longrightarrow>
     messaging m' = messaging m \<and> messaging_generation m' = messaging_generation m"
  "modem_admit_sms objpath rnd m sms r = (e, m', rnd') \<Longrightarrow>
     messaging m' = messaging m \<and> messaging_generation m' = messaging_generation m"
  "query_sms m = (m', q) \<Longrightarrow>
     messaging m' = messaging m \<and> messaging_generation m' = messaging_generation m"
  subgoal by (auto simp: l850gl_modem_reserve_sms_id_def split: if_splits prod.splits option.splits)
  subgoal by (auto simp: modem_admit_sms_def Let_def sms_revision_bump_def clear_sms_cache_def
        split: if_splits prod.splits option.splits)
  subgoal by (auto simp: query_sms_def split: if_splits option.splits)
  done

lemma messaging_bump [simp]:
  "messaging (sms_revision_bump m) = messaging m"
  "messaging_generation (sms_revision_bump m) = messaging_generation m"
  by (simp_all add: sms_revision_bump_def)

lemma messaging_query:
  "messaging (fst (query_sms m)) = messaging m"
  "messaging_generation (fst (query_sms m)) = messaging_generation m"
  by (simp_all add: query_sms_def split: option.splits)

lemma messaging_kept_rebuild:
  "messaging (fst (sms_cache_rebuild objpath msgs rnd m)) = messaging m"
  "messaging_generation (fst (sms_cache_rebuild objpath msgs rnd m)) = messaging_generation m"
  by (auto simp: sms_cache_rebuild_def clear_sms_cache_def split: prod.splits option.splits)

lemma messaging_kept_list_ready:
  assumes "sms_list_ready objpath q answer rnd m = (m', q', rnd')"
  shows "messaging m' = messaging m \<and> messaging_generation m' = messaging_generation m"
proof -
  have m': "m' = fst (sms_list_ready objpath q answer rnd m)" using assms by simp
  show ?thesis unfolding m'
    by (simp add: sms_list_ready_def Let_def case_prod_beta messaging_kept_rebuild clear_sms_cache_def
        messaging_query split: answer.split)
qed

lemma sms_step_epoch:
  assumes "sms_step objpath m m'"
  shows "messaging_generation m < messaging_generation m' \<or>
    messaging_generation m' = messaging_generation m \<and> (messaging m' = messaging m \<or> messaging m' = None)"
  using assms
proof cases
  case (reconcile current force_epoch q)
  then show ?thesis
    using reconcile_epoch(7) [of force_epoch current m]
    by (cases "force_epoch \<or> current \<noteq> messaging m") (auto simp: reconcile_messaging_def)
next
  case (list_ready q answer rnd q' rnd')
  then show ?thesis by (auto dest: messaging_kept_list_ready)
next
  case (added path q)
  then show ?thesis
    by (auto simp: sms_added_def dest!: messaging_kept(3) split: if_splits option.splits)
next
  case (deleted path q)
  then show ?thesis
    by (auto simp: sms_deleted_def Let_def dest!: messaging_kept(3) split: if_splits option.splits)
qed (auto simp: l850gl_modem_admit_sms_def l850gl_modem_admit_reserved_sms_def
    l850gl_modem_refresh_sms_def sms_properties_changed_def modem_mark_removed_def
    clear_sms_cache_def disconnect_messaging_signals_def dest: messaging_kept)

lemma sms_steps_epoch:
  "(sms_step objpath)\<^sup>*\<^sup>* m m' \<Longrightarrow> epoch_passed q m \<Longrightarrow> epoch_passed q m'"
  by (induction rule: rtranclp_induct) (auto intro: epoch_passed_mono dest: sms_step_epoch)

lemma sms_steps_generation:
  "(sms_step objpath)\<^sup>*\<^sup>* m m' \<Longrightarrow> messaging_generation m \<le> messaging_generation m'"
  by (induction rule: rtranclp_induct) (auto dest!: sms_step_epoch)

section \<open>What a list answer makes of the cache\<close>

definition listable :: "(cstring \<Rightarrow> bool) \<Rightarrow> modem \<Rightarrow> mm_sms list \<Rightarrow> cstring list" where
  "listable objpath m msgs =
     filter (\<lambda>p. objpath p \<and> p \<notin> set (sms_deleted_paths m)) (List.map_filter mm_sms_path msgs)"

lemma listable_simps [simp]:
  "listable objpath m [] = []"
  "listable objpath m (s # msgs) =
     (case mm_sms_path s of
        None \<Rightarrow> listable objpath m msgs
      | Some p \<Rightarrow> if objpath p \<and> p \<notin> set (sms_deleted_paths m) then p # listable objpath m msgs
                  else listable objpath m msgs)"
  by (auto simp: listable_def map_filter_def split: option.splits)

lemma listable_single: "listable objpath m [s] = [] \<or> (\<exists>p. listable objpath m [s] = [p])"
  by (simp split: option.splits)

text \<open>The identifier a path has during the rebuild, in the new or still in the old table.\<close>

definition id_of :: "rebuild \<Rightarrow> cstring \<Rightarrow> cstring option" where
  "id_of r p = map_option entry_sms_id
     (case map_of (new_cache r) p of Some e \<Rightarrow> Some e | None \<Rightarrow> map_of (old_cache r) p)"

lemma visit_unlisted:
  assumes "sms_list_visit objpath m s rnd r = (Some r', rnd')" and "listable objpath m [s] = []"
  shows "new_cache r' = new_cache r \<and> count r' = count r \<and> truncated r' = truncated r \<and> id_of r' = id_of r"
  using assms
  by (auto simp: sms_list_visit_def id_of_def fun_eq_iff split: option.splits if_splits)

lemma visit_full:
  assumes "sms_list_visit objpath m s rnd r = (Some r', rnd')" and "listable objpath m [s] = [p]"
    and "MAX_SMS_CACHE \<le> count r"
  shows "new_cache r' = new_cache r \<and> count r' = count r \<and> truncated r' \<and> id_of r' = id_of r"
  using assms
  by (auto simp: sms_list_visit_def id_of_def fun_eq_iff split: option.splits if_splits)

lemma visit_listed:
  assumes "sms_list_visit objpath m s rnd r = (Some r', rnd')" and "listable objpath m [s] = [p]"
    and "count r < MAX_SMS_CACHE" and "p \<notin> fst ` set (new_cache r)"
  shows "map fst (new_cache r') = map fst (new_cache r) @ [p] \<and> count r' = Suc (count r) \<and>
    truncated r' = truncated r \<and> (\<forall>q i. id_of r q = Some i \<longrightarrow> id_of r' q = Some i)"
proof -
  have p: "mm_sms_path s = Some p" "objpath p" "p \<notin> set (sms_deleted_paths m)"
    using assms(2) by (auto split: option.splits if_splits)
  have none: "map_of (new_cache r) p = None" using assms(4) by (simp add: map_of_eq_None_iff)
  show ?thesis
  proof (cases "map_of (old_cache r) p")
    case None
    with assms p none show ?thesis
      by (auto simp: sms_list_visit_def id_of_def update_keys update_conv'
          split: option.splits prod.splits if_splits)
  next
    case (Some e)
    with assms p none show ?thesis
      by (auto simp: sms_list_visit_def id_of_def update_keys update_conv' delete_conv'
          split: option.splits if_splits)
  qed
qed

lemma sms_list_loop_listable:
  assumes "sms_list_loop objpath m msgs rnd r = (Some r', rnd')"
    and "distinct (map fst (new_cache r) @ listable objpath m msgs)"
    and "count r = length (new_cache r)" and "count r \<le> MAX_SMS_CACHE"
  shows "map fst (new_cache r') = map fst (new_cache r) @
      take (MAX_SMS_CACHE - count r) (listable objpath m msgs) \<and>
    (truncated r' \<longleftrightarrow> truncated r \<or> MAX_SMS_CACHE - count r < length (listable objpath m msgs)) \<and>
    (\<forall>p i. id_of r p = Some i \<longrightarrow> id_of r' p = Some i)"
  using assms
proof (induction msgs arbitrary: rnd r)
  case (Cons s msgs)
  from Cons.prems(1) obtain r1 rnd1 where visit: "sms_list_visit objpath m s rnd r = (Some r1, rnd1)"
    and rest: "sms_list_loop objpath m msgs rnd1 r1 = (Some r', rnd')"
    by (auto split: prod.splits option.splits)
  consider (unlisted) "listable objpath m [s] = []" | (listed) p where "listable objpath m [s] = [p]"
    using listable_single [of objpath m s] by blast
  then show ?case
  proof cases
    case unlisted
    then have "listable objpath m (s # msgs) = listable objpath m msgs"
      by (auto split: option.splits if_splits)
    with Cons.IH [OF rest] visit_unlisted [OF visit unlisted] Cons.prems show ?thesis by simp
  next
    case listed
    then have l: "listable objpath m (s # msgs) = p # listable objpath m msgs"
      by (auto split: option.splits if_splits)
    show ?thesis
    proof (cases "count r < MAX_SMS_CACHE")
      case True
      have "p \<notin> fst ` set (new_cache r)" using Cons.prems(2) l by auto
      note v = visit_listed [OF visit listed True this]
      have "length (new_cache r1) = Suc (length (new_cache r))"
        using v by (metis length_append_singleton length_map)
      moreover obtain k where k: "MAX_SMS_CACHE - count r = Suc k"
        using True by (metis Suc_diff_Suc)
      moreover have "MAX_SMS_CACHE - count r1 = k" using v k by simp
      ultimately show ?thesis
        using Cons.IH [OF rest] v Cons.prems(2-4) l True by auto
    next
      case False
      with Cons.IH [OF rest] visit_full [OF visit listed] Cons.prems l show ?thesis by auto
    qed
  qed
qed auto

section \<open>Properties\<close>

lemma sms_inv_new: "sms_inv (modem_new mm i gen)"
  by (rule sms_inv_empty) (simp_all add: modem_new_def)

lemma sms_inv_find:
  assumes "sms_inv m" and "(p, e) \<in> set (sms_by_path m)"
  shows "l850gl_modem_find_sms m (Some (entry_sms_id e)) = Some e"
proof -
  have ok: "table_ok m (sms_by_path m)" using assms(1) by (simp add: sms_inv_def)
  have id: "l850gl_sms_identity_is_valid (Some (entry_sms_id e))" and cur: "entry_current m e"
    using ok assms(2) by (force simp: table_ok_def list_all_iff table_ids_def)+
  have inj: "e' = e" if "(p', e') \<in> set (sms_by_path m)" "entry_sms_id e' = entry_sms_id e" for p' e'
    using ok assms(2) that by (force simp: table_ok_def table_ids_def distinct_map inj_on_def)
  let ?P = "\<lambda>x. entry_modem_generation x = generation m \<and>
      entry_messaging_generation x = messaging_generation m \<and> Some (entry_sms_id x) = Some (entry_sms_id e)"
  have "List.find ?P (map snd (sms_by_path m)) = Some e"
  proof (cases "List.find ?P (map snd (sms_by_path m))")
    case None
    with assms(2) cur show ?thesis by (force simp: find_None_iff entry_current_def)
  next
    case (Some x)
    then obtain p' where "(p', x) \<in> set (sms_by_path m)" "entry_sms_id x = entry_sms_id e"
      by (auto simp: find_Some_iff) (metis nth_mem prod.collapse)
    with inj Some show ?thesis by auto
  qed
  with id show ?thesis by (simp add: l850gl_modem_find_sms_def)
qed

text \<open>C22: From the admission of a modem on, through every interleaving of reservations, admissions,
  list answers (current or stale), signals, epoch changes and removal, the SMS cache holds at most
  1024 messages under distinct paths, their identifiers are well formed, distinct and none of them
  reserved, every message belongs to the current messaging epoch and is found again by its
  identifier, and a removed modem or one without messaging holds none.\<close>

theorem sms_cache_invariant:
  assumes "(sms_step objpath)\<^sup>*\<^sup>* (modem_new mm i gen) m"
  shows "length (sms_by_path m) \<le> MAX_SMS_CACHE \<and>
    distinct (map fst (sms_by_path m)) \<and>
    distinct (table_ids (sms_by_path m) @ sms_reserved_ids m) \<and>
    (\<forall>j \<in> set (table_ids (sms_by_path m) @ sms_reserved_ids m).
      l850gl_sms_identity_is_valid (Some j)) \<and>
    (\<forall>(p, e) \<in> set (sms_by_path m). entry_messaging_generation e = messaging_generation m \<and>
      l850gl_modem_find_sms m (Some (entry_sms_id e)) = Some e) \<and>
    (sms_by_path m \<noteq> [] \<longrightarrow> live m \<and> messaging m \<noteq> None)"
proof (intro conjI)
  have inv: "sms_inv m" using sms_steps_inv [OF assms sms_inv_new] .
  then show "length (sms_by_path m) \<le> MAX_SMS_CACHE"
    "distinct (map fst (sms_by_path m))"
    "distinct (table_ids (sms_by_path m) @ sms_reserved_ids m)"
    "\<forall>j \<in> set (table_ids (sms_by_path m) @ sms_reserved_ids m).
      l850gl_sms_identity_is_valid (Some j)"
    "sms_by_path m \<noteq> [] \<longrightarrow> live m \<and> messaging m \<noteq> None"
    by (auto simp: sms_inv_def table_ok_def list_all_iff)
  show "\<forall>(p, e) \<in> set (sms_by_path m). entry_messaging_generation e = messaging_generation m \<and>
      l850gl_modem_find_sms m (Some (entry_sms_id e)) = Some e"
    using sms_inv_find [OF inv] inv
    by (fastforce simp: sms_inv_def table_ok_def list_all_iff entry_current_def)
qed

definition sample_mm :: mm_modem where
  "sample_mm = \<lparr>mm_object = 7, mm_plugin = Some ''fibocom'', mm_manufacturer = Some ''Fibocom'',
     mm_model = Some ''L850-GL'', mm_drivers = Some [''cdc_mbim''], mm_ports = None,
     mm_physdev = Some ''/sys/devices/1-1'', mm_modem_state = MM_STATE_REGISTERED,
     mm_sim_path = None, mm_supported_bands = None\<rparr>"

definition sample_sms :: "nat \<Rightarrow> cstring \<Rightarrow> cstring \<Rightarrow> mm_sms" where
  "sample_sms n path stamp =
     \<lparr>mm_sms_object = n, mm_sms_path = Some path, mm_sms_timestamp = Some stamp\<rparr>"

definition sample_random :: random where
  "sample_random = [[Random_Bytes (replicate 16 1)], [Random_Bytes (replicate 16 1)],
     [Random_EINTR, Random_Bytes (replicate 16 2)]]"

definition sample_connected :: modem where
  "sample_connected = fst (reconcile_messaging (Some 3) False (modem_new sample_mm ''l850gl-0'' 1))"

definition sample_query :: sms_query where
  "sample_query = \<lparr>query_source = 3, query_messaging_generation = 1\<rparr>"

definition sample_messages :: "mm_sms list" where
  "sample_messages = [sample_sms 1 ''/a'' ''2024'', sample_sms 2 ''/b'' ''2025'']"

definition sample_listed :: modem where
  "sample_listed = fst (sms_cache_rebuild (\<lambda>_. True) sample_messages sample_random
     (sample_connected\<lparr>sms_query_pending := False, sms_query_dirty := False\<rparr>))"

lemma sample_listed_run:
  "map fst (sms_by_path sample_listed) = [''/b'', ''/a'']"
  "sms_cache_state sample_listed = ''ready''"
  "table_ids (sms_by_path sample_listed) =
     [''sms-01010101010101010101010101010101'', ''sms-02020202020202020202020202020202'']"
  by code_simp+

lemma sample_connected_run:
  "live sample_connected" "messaging sample_connected = Some 3"
  "messaging_generation sample_connected = 1" "\<not> sms_query_dirty sample_connected"
  by code_simp+

lemma sample_list_ready:
  "fst (sms_list_ready (\<lambda>_. True) sample_query (Answered sample_messages) sample_random
     sample_connected) = sample_listed"
  by (simp add: sms_list_ready_def sample_connected_run sample_query_def sample_listed_def
      Let_def case_prod_beta)

lemma sms_step_fst:
  "sms_step objpath m (fst (reconcile_messaging current force_epoch m))"
  "sms_step objpath m (fst (sms_list_ready objpath q answer rnd m))"
  by (cases "reconcile_messaging current force_epoch m", auto intro: reconcile)
    (cases "sms_list_ready objpath q answer rnd m", auto intro: list_ready)

lemma sample_steps: "(sms_step (\<lambda>_. True))\<^sup>*\<^sup>* (modem_new sample_mm ''l850gl-0'' 1) sample_listed"
proof -
  have "sms_step (\<lambda>_. True) (modem_new sample_mm ''l850gl-0'' 1) sample_connected"
    unfolding sample_connected_def by (rule sms_step_fst)
  moreover have "sms_step (\<lambda>_. True) sample_connected sample_listed"
    unfolding sample_list_ready [symmetric] by (rule sms_step_fst)
  ultimately show ?thesis by (simp add: converse_rtranclp_into_rtranclp)
qed

theorem sms_cache_invariant_witness:
  "distinct (table_ids (sms_by_path sample_listed) @ sms_reserved_ids sample_listed) \<and>
   map fst (sms_by_path sample_listed) = [''/b'', ''/a'']"
  using sms_cache_invariant [OF sample_steps] sample_listed_run(1) by blast

text \<open>C23: Once the messaging epoch of a list query has ended (the SIM or the messaging interface
  changed), its answer changes nothing, whatever happened before, between and after: a message of
  the old epoch never enters the cache of a new one.\<close>

theorem stale_list_answer_ignored:
  assumes "query_sms m0 = (m1, Some q)" and "(sms_step objpath)\<^sup>*\<^sup>* m1 m2"
    and "force_epoch \<or> current \<noteq> messaging m2"
    and "reconcile_messaging current force_epoch m2 = (m3, q3)"
    and "(sms_step objpath)\<^sup>*\<^sup>* m3 m4"
  shows "sms_list_ready objpath q answer rnd m4 = (m4, None, rnd)"
proof -
  have "query_messaging_generation q = messaging_generation m1"
    using assms(1) by (auto simp: query_sms_def split: option.splits if_splits)
  also have "\<dots> \<le> messaging_generation m2" using sms_steps_generation [OF assms(2)] .
  finally have "epoch_passed q m3"
    using reconcile_epoch(7) [OF assms(3)] assms(4) by (auto simp: epoch_passed_def)
  then show ?thesis by (rule epoch_ignored [OF sms_steps_epoch [OF assms(5)]])
qed

lemma sample_query_sent:
  "query_sms (sample_connected\<lparr>sms_query_pending := False\<rparr>) = (sample_connected, Some sample_query)"
  by code_simp

theorem stale_list_answer_ignored_witness:
  "sms_list_ready (\<lambda>_. True) sample_query (Answered sample_messages) sample_random
     (fst (reconcile_messaging None False sample_connected)) =
   (fst (reconcile_messaging None False sample_connected), None, sample_random)"
  by (rule stale_list_answer_ignored [OF sample_query_sent rtranclp.rtrancl_refl _
        prod.collapse [symmetric] rtranclp.rtrancl_refl]) (simp add: sample_connected_run)

text \<open>
  The order in which messages are to be listed, without the comparator: by their time stamps, the
  latest first, and by their paths for equal ones; byte by byte, and an absent string first.
\<close>

definition bytes_before :: "cstring \<Rightarrow> cstring \<Rightarrow> bool" where
  "bytes_before a b \<longleftrightarrow> (a, b) \<in> lexord {(c, d). code c < code d}"

fun string_before :: "cstring option \<Rightarrow> cstring option \<Rightarrow> bool" where
  "string_before None (Some b) = True"
| "string_before (Some a) (Some b) = bytes_before a b"
| "string_before a None = False"

definition newer :: "mm_sms \<Rightarrow> mm_sms \<Rightarrow> bool" where
  "newer s t \<longleftrightarrow> string_before (mm_sms_timestamp t) (mm_sms_timestamp s) \<or>
     mm_sms_timestamp s = mm_sms_timestamp t \<and> string_before (mm_sms_path s) (mm_sms_path t)"

text \<open>The messages of a list that belong in the cache.\<close>

definition wanted :: "(cstring \<Rightarrow> bool) \<Rightarrow> modem \<Rightarrow> mm_sms list \<Rightarrow> mm_sms list" where
  "wanted objpath m msgs = filter (\<lambda>s. case mm_sms_path s of None \<Rightarrow> False
     | Some p \<Rightarrow> objpath p \<and> p \<notin> set (sms_deleted_paths m)) msgs"

lemma strcmp_iff: "(strcmp a b < 0 \<longleftrightarrow> bytes_before a b) \<and> (0 < strcmp a b \<longleftrightarrow> bytes_before b a)"
  by (induction a b rule: strcmp.induct) (auto simp: bytes_before_def code_inject)

lemma strcmp_zero: "strcmp a b = 0 \<longleftrightarrow> a = b"
  by (induction a b rule: strcmp.induct) (auto simp: code_inject)

lemma g_strcmp0_iff: "(g_strcmp0 a b < 0 \<longleftrightarrow> string_before a b) \<and> (0 < g_strcmp0 a b \<longleftrightarrow> string_before b a) \<and>
    (g_strcmp0 a b = 0 \<longleftrightarrow> a = b)"
  by (cases "(a, b)" rule: g_strcmp0.cases) (simp_all add: strcmp_iff strcmp_zero)

lemma bytes_before_trans: "bytes_before a b \<Longrightarrow> bytes_before b c \<Longrightarrow> bytes_before a c"
  unfolding bytes_before_def by (rule lexord_trans) (auto intro: transI)

lemma string_before_trans: "string_before a b \<Longrightarrow> string_before b c \<Longrightarrow> string_before a c"
  by (cases a; cases b; cases c) (auto intro: bytes_before_trans)

lemma compared_newer:
  "sms_proxy_newest_first s t \<le> 0 \<longleftrightarrow>
   newer s t \<or> mm_sms_timestamp s = mm_sms_timestamp t \<and> mm_sms_path s = mm_sms_path t"
  using g_strcmp0_iff [of "mm_sms_timestamp t" "mm_sms_timestamp s"] g_strcmp0_iff [of "mm_sms_path s" "mm_sms_path t"]
  by (auto simp: sms_proxy_newest_first_def newer_def Let_def)

lemma string_before_total: "a = b \<or> string_before a b \<or> string_before b a"
  using g_strcmp0_iff [of a b] by linarith

lemma compared_total: "sms_proxy_newest_first s t \<le> 0 \<or> sms_proxy_newest_first t s \<le> 0"
  unfolding compared_newer newer_def
  using string_before_total [of "mm_sms_timestamp s" "mm_sms_timestamp t"]
    string_before_total [of "mm_sms_path s" "mm_sms_path t"] by metis

lemma compared_trans:
  "sms_proxy_newest_first s t \<le> 0 \<Longrightarrow> sms_proxy_newest_first t u \<le> 0 \<Longrightarrow> sms_proxy_newest_first s u \<le> 0"
  unfolding compared_newer newer_def by (auto intro: string_before_trans)

lemma sort_insert_set [simp]: "set (sort_insert cmp x ys) = insert x (set ys)"
  by (induction ys) auto

lemma sort_insert_filter [simp]: "length (filter P (sort_insert cmp x ys)) = length (filter P (x # ys))"
  by (induction ys) auto

lemma sort_insert_sorted:
  assumes "\<And>x y. cmp x y \<le> 0 \<or> cmp y x \<le> (0 :: int)"
    and "\<And>x y z. cmp x y \<le> 0 \<Longrightarrow> cmp y z \<le> 0 \<Longrightarrow> cmp x z \<le> 0"
    and "sorted_wrt (\<lambda>x y. cmp x y \<le> 0) ys"
  shows "sorted_wrt (\<lambda>x y. cmp x y \<le> 0) (sort_insert cmp x ys)"
  using assms(3)
proof (induction ys)
  case (Cons y ys)
  then show ?case using assms(1) [of x y] assms(2) [of x y] by auto
qed simp

lemma list_sort_members: "set (g_list_sort cmp xs) = set xs \<and> length (filter P (g_list_sort cmp xs)) = length (filter P xs)"
  by (induction xs) (simp_all add: g_list_sort_def)

lemma list_sort_newest:
  "sorted_wrt (\<lambda>s t. sms_proxy_newest_first s t \<le> 0) (g_list_sort sms_proxy_newest_first xs)"
proof (induction xs)
  case (Cons x xs)
  then show ?case
    using sort_insert_sorted [of sms_proxy_newest_first, OF compared_total compared_trans]
    by (simp add: g_list_sort_def)
qed (simp add: g_list_sort_def)

lemma wanted_listable: "listable objpath m msgs = map (the \<circ> mm_sms_path) (wanted objpath m msgs)"
  by (induction msgs) (auto simp: wanted_def split: option.splits)

text \<open>The wanted messages in the order the list is walked: all of them, the newest first.\<close>

lemma wanted_sorted:
  fixes objpath m messages
  defines "order \<equiv> wanted objpath m (g_list_sort sms_proxy_newest_first messages)"
  assumes "distinct (map mm_sms_path (wanted objpath m messages))"
  shows "set order = set (wanted objpath m messages)" and "length order = length (wanted objpath m messages)"
    and "sorted_wrt newer order" and "distinct order"
    and "distinct (map (the \<circ> mm_sms_path) order)"
proof -
  show same: "set order = set (wanted objpath m messages)" "length order = length (wanted objpath m messages)"
    by (simp_all add: order_def wanted_def list_sort_members)
  then have "card (set (map mm_sms_path order)) = length (map mm_sms_path order)"
    using distinct_card [OF assms(2)] by simp
  then have dist: "distinct (map mm_sms_path order)" by (rule card_distinct)
  then show "distinct order" by (simp add: distinct_map)
  have paths: "mm_sms_path s \<noteq> None" if "s \<in> set order" for s
    using that by (auto simp: order_def wanted_def split: option.splits)
  have "inj_on the (mm_sms_path ` set order)"
    using paths by (intro inj_onI) (metis imageE option.expand)
  with dist show "distinct (map (the \<circ> mm_sms_path) order)"
    unfolding map_map [symmetric] by (subst distinct_map) auto
  have "sorted_wrt (\<lambda>s t. sms_proxy_newest_first s t \<le> 0) order"
    unfolding order_def wanted_def using list_sort_newest by (rule sorted_wrt_filter)
  moreover have "sorted_wrt (\<lambda>s t. mm_sms_path s \<noteq> mm_sms_path t) order"
    using dist by (auto simp: sorted_wrt_iff_nth_less distinct_conv_nth)
  ultimately show "sorted_wrt newer order"
    unfolding sorted_wrt_iff_nth_less compared_newer by blast
qed

text \<open>A walk that fails met a message that needed a new identifier.\<close>

lemma sms_list_loop_fails:
  assumes "sms_list_loop objpath m msgs rnd r = (None, rnd')"
    and "distinct (map fst (new_cache r) @ listable objpath m msgs)"
    and "count r = length (new_cache r)" and "count r \<le> MAX_SMS_CACHE"
  shows "\<exists>p \<in> set (take (MAX_SMS_CACHE - count r) (listable objpath m msgs)). p \<notin> fst ` set (old_cache r)"
  using assms
proof (induction msgs arbitrary: rnd r)
  case (Cons s msgs)
  consider (unlisted) "listable objpath m [s] = []" | (listed) p where "listable objpath m [s] = [p]"
    using listable_single [of objpath m s] by blast
  then show ?case
  proof cases
    case unlisted
    then have l: "listable objpath m (s # msgs) = listable objpath m msgs" by (auto split: option.splits if_splits)
    from unlisted have "\<exists>r1. sms_list_visit objpath m s rnd r = (Some r1, rnd) \<and> old_cache r1 = old_cache r"
      by (cases "mm_sms_path s") (auto simp: sms_list_visit_def split: if_splits)
    then obtain r1 where visit: "sms_list_visit objpath m s rnd r = (Some r1, rnd)" and old: "old_cache r1 = old_cache r"
      by blast
    note same = visit_unlisted [OF visit unlisted]
    have "sms_list_loop objpath m msgs rnd r1 = (None, rnd')" using Cons.prems(1) visit by simp
    from Cons.IH [OF this] same Cons.prems(2-4) show ?thesis unfolding l old by simp
  next
    case listed
    then have l: "listable objpath m (s # msgs) = p # listable objpath m msgs"
      and p: "mm_sms_path s = Some p" "objpath p" "p \<notin> set (sms_deleted_paths m)"
      by (auto split: option.splits if_splits)
    show ?thesis
    proof (cases "count r < MAX_SMS_CACHE")
      case False
      have "sms_list_visit objpath m s rnd r = (Some (r\<lparr>truncated := True\<rparr>), rnd)"
        using p False by (simp add: sms_list_visit_def)
      with Cons.prems(1) have "sms_list_loop objpath m msgs rnd (r\<lparr>truncated := True\<rparr>) = (None, rnd')" by simp
      from Cons.IH [OF this] Cons.prems(2-4) l False show ?thesis by simp
    next
      case True
      then obtain n where n: "MAX_SMS_CACHE - count r = Suc n" by (metis Suc_diff_Suc)
      show ?thesis
      proof (cases "p \<in> fst ` set (old_cache r)")
        case False
        then show ?thesis unfolding l n by simp
      next
        case known: True
        then obtain e where e: "map_of (old_cache r) p = Some e" 
          by (cases "map_of (old_cache r) p") (auto simp: map_of_eq_None_iff)
        let ?r = "r\<lparr>old_cache := AList.delete p (old_cache r), new_cache := AList.update p (sms_set_proxy e m s) (new_cache r),
          count := count r + 1\<rparr>"
        have visit: "sms_list_visit objpath m s rnd r = (Some ?r, rnd)"
          using p True e by (simp add: sms_list_visit_def)
        have fresh: "p \<notin> fst ` set (new_cache r)" using Cons.prems(2) l by auto
        note v = visit_listed [OF visit listed True fresh]
        have step: "sms_list_loop objpath m msgs rnd ?r = (None, rnd')" using Cons.prems(1) visit by simp
        have d: "distinct (map fst (new_cache ?r) @ listable objpath m msgs)"
          using Cons.prems(2) unfolding l conjunct1 [OF v] by auto
        have "length (new_cache ?r) = Suc (length (new_cache r))"
          using v by (metis length_append_singleton length_map)
        then have "count ?r = length (new_cache ?r)" "count ?r \<le> MAX_SMS_CACHE" using Cons.prems(3) True by simp_all
        from Cons.IH [OF step d this] obtain p' where p': "p' \<in> set (take (MAX_SMS_CACHE - count ?r) (listable objpath m msgs))"
            "p' \<notin> fst ` set (old_cache ?r)" by blast
        moreover have "p' \<noteq> p" using p'(1) Cons.prems(2) l by (auto dest: in_set_takeD)
        moreover have "MAX_SMS_CACHE - count ?r = n" using n by simp
        ultimately have "p' \<in> set (take (Suc n) (p # listable objpath m msgs))" "p' \<notin> fst ` set (old_cache r)"
          by (auto simp: AList.delete_eq)
        then show ?thesis unfolding l n by blast
      qed
    qed
  qed
qed simp


lemma sample_wanted:
  "distinct (map mm_sms_path (wanted (\<lambda>_. True) sample_connected sample_messages))"
  by code_simp


end
