(* ===== verification/Bridge.thy ===== *)
theory Bridge
  imports Sms_Cache
begin

text \<open>
  The registry of admitted modems and the connection to ModemManager (\<open>bridge.c\<close>). Modems are
  heap objects that other components keep references to, so the bridge holds every modem it
  ever allocated in \<open>modems\<close> and the hash table maps an object path to an index of that list;
  reference counts and the release of unreachable modems are not modelled.

  A D-Bus object is what the handlers read of it. What \<open>g_dbus_object_manager_client_get_name_owner\<close>
  and \<open>g_dbus_connection_is_closed\<close> return at the time of the call, and the objects the manager
  lists, are arguments.
\<close>

section \<open>State\<close>

record dbus_object =
  object_path :: cstring
  is_mm_object :: bool
  object_modem :: "mm_modem option"
  object_messaging :: "nat option"

record bridge =
  bridge_cancelled :: bool
  connection :: "nat option"
  manager :: "nat option"
  modems :: "modem list"
  modems_by_path :: "(cstring \<times> nat) list"
  next_generation :: u32
  connect_serial :: u64
  retry_source :: bool
  sms_reconcile_source :: bool
  connection_closed_handler :: bool
  connect_pending :: bool
  started :: bool
  stopping :: bool
  random_failed :: bool

definition MAX_ADMITTED_MODEMS :: nat where "MAX_ADMITTED_MODEMS = 32"

definition on_modem :: "nat \<Rightarrow> (modem \<Rightarrow> modem) \<Rightarrow> bridge \<Rightarrow> bridge" where
  "on_modem r f b = b\<lparr>modems := (modems b)[r := f (modems b ! r)]\<rparr>"

definition registered :: "bridge \<Rightarrow> modem list" where
  "registered b = map (\<lambda>(_, r). modems b ! r) (modems_by_path b)"

definition bridge_next_connect_serial :: "bridge \<Rightarrow> bridge" where
  "bridge_next_connect_serial b =
     (let serial = connect_serial b + 1 in
      b\<lparr>connect_serial := (if serial = 0 then serial + 1 else serial)\<rparr>)"

section \<open>The registry\<close>

definition modem_id_exists :: "bridge \<Rightarrow> cstring \<Rightarrow> bool" where
  "modem_id_exists b i = list_ex (\<lambda>m. modem_id m = i) (registered b)"

text \<open>One call of \<open>l850gl_identity_generate\<close> on the local buffer.\<close>

definition generate_modem_id :: "getrandom_answer list \<Rightarrow> cstring option" where
  "generate_modem_id script =
     (case l850gl_identity_generate script (Some (replicate ID_BUFSIZE NUL)) of
        Some (True, Some out) \<Rightarrow> Some (butlast out)
      | _ \<Rightarrow> None)"

fun new_modem_id_loop :: "nat \<Rightarrow> random \<Rightarrow> bridge \<Rightarrow> cstring option \<times> random" where
  "new_modem_id_loop 0 rnd b = (None, rnd)"
| "new_modem_id_loop (Suc attempts) [] b = (None, [])"
| "new_modem_id_loop (Suc attempts) (script # rnd) b =
     (case generate_modem_id script of
        None \<Rightarrow> (None, rnd)
      | Some candidate \<Rightarrow>
          if \<not> modem_id_exists b candidate then (Some candidate, rnd)
          else new_modem_id_loop attempts rnd b)"

definition new_modem_id :: "random \<Rightarrow> bridge \<Rightarrow> cstring option \<times> bridge \<times> random" where
  "new_modem_id rnd b =
     (case new_modem_id_loop RANDOM_RETRIES rnd b of
        (None, rnd') \<Rightarrow> (None, b\<lparr>random_failed := True\<rparr>, rnd')
      | (Some i, rnd') \<Rightarrow> (Some i, b, rnd'))"

definition remove_path :: "cstring \<Rightarrow> bridge \<Rightarrow> bridge" where
  "remove_path path b =
     (case map_of (modems_by_path b) path of
        None \<Rightarrow> b
      | Some r \<Rightarrow> (on_modem r modem_mark_removed b)\<lparr>modems_by_path := AList.delete path (modems_by_path b)\<rparr>)"

definition clear_modems :: "bridge \<Rightarrow> bridge" where
  "clear_modems b =
     (fold (\<lambda>(_, r). on_modem r modem_mark_removed) (modems_by_path b) b)\<lparr>modems_by_path := []\<rparr>"

text \<open>
  Admission ends with the SIM, bearer and messaging queries on the new modem; the requests they
  start are left out here.
\<close>

definition admit_modem :: "cstring \<Rightarrow> mm_modem \<Rightarrow> nat option \<Rightarrow> cstring \<Rightarrow> bridge \<Rightarrow> bridge" where
  "admit_modem path mm msg i b =
     (let gen = next_generation b + 1;
          r = length (modems b);
          m = modem_new mm i gen;
          m1 = fst (query_sim m);
          m2 = fst (query_bearers m1);
          m3 = fst (reconcile_messaging msg False m2)
      in b\<lparr>next_generation := gen, modems := modems b @ [m3],
           modems_by_path := AList.update path r (modems_by_path b)\<rparr>)"

definition reconcile_object ::
    "(cstring \<Rightarrow> bool) \<Rightarrow> random \<Rightarrow> dbus_object \<Rightarrow> bridge \<Rightarrow> bridge \<times> random" where
  "reconcile_object validate rnd obj b =
     (let path = object_path obj in
      if \<not> is_mm_object obj then (remove_path path b, rnd)
      else
        (case object_modem obj of
           None \<Rightarrow> (remove_path path b, rnd)
         | Some mm \<Rightarrow>
             if \<not> is_exact_l850gl validate mm then (remove_path path b, rnd)
             else
               (case map_of (modems_by_path b) path of
                  Some r \<Rightarrow>
                    (on_modem r (\<lambda>m. fst (reconcile_messaging (object_messaging obj) False m)) b, rnd)
                | None \<Rightarrow>
                    if MAX_ADMITTED_MODEMS \<le> length (modems_by_path b) then (b, rnd)
                    else if next_generation b = UINT32_MAX then (b, rnd)
                    else
                      (case new_modem_id rnd b of
                         (None, b', rnd') \<Rightarrow> (b', rnd')
                       | (Some i, b', rnd') \<Rightarrow>
                           (admit_modem path mm (object_messaging obj) i b', rnd')))))"

definition object_added :: "(cstring \<Rightarrow> bool) \<Rightarrow> random \<Rightarrow> dbus_object \<Rightarrow> bridge \<Rightarrow> bridge \<times> random" where
  "object_added validate rnd obj b = reconcile_object validate rnd obj b"

definition object_removed :: "dbus_object \<Rightarrow> bridge \<Rightarrow> bridge" where
  "object_removed obj b = remove_path (object_path obj) b"

definition interface_added :: "(cstring \<Rightarrow> bool) \<Rightarrow> random \<Rightarrow> dbus_object \<Rightarrow> bridge \<Rightarrow> bridge \<times> random" where
  "interface_added validate rnd obj b = reconcile_object validate rnd obj b"

definition interface_removed :: "(cstring \<Rightarrow> bool) \<Rightarrow> random \<Rightarrow> dbus_object \<Rightarrow> bridge \<Rightarrow> bridge \<times> random" where
  "interface_removed validate rnd obj b = reconcile_object validate rnd obj b"

text \<open>The changed properties are given by their keys, the dictionary and the vector may be NULL.\<close>

definition variant_has_key :: "cstring list option \<Rightarrow> cstring \<Rightarrow> bool" where
  "variant_has_key dictionary key = (case dictionary of None \<Rightarrow> False | Some ks \<Rightarrow> key \<in> set ks)"

definition string_vector_has :: "cstring list option \<Rightarrow> cstring \<Rightarrow> bool" where
  "string_vector_has values key =
     (case values of None \<Rightarrow> False | Some vs \<Rightarrow> list_ex (\<lambda>v. v = key) vs)"

definition property_was_updated :: "cstring list option \<Rightarrow> cstring list option \<Rightarrow> cstring \<Rightarrow> bool" where
  "property_was_updated changed invalidated key \<longleftrightarrow>
     variant_has_key changed key \<or> string_vector_has invalidated key"

definition MM_DBUS_INTERFACE_MODEM :: cstring where
  "MM_DBUS_INTERFACE_MODEM = ''org.freedesktop.ModemManager1.Modem''"

definition properties_changed ::
    "(cstring \<Rightarrow> bool) \<Rightarrow> random \<Rightarrow> dbus_object \<Rightarrow> cstring \<Rightarrow> cstring list option \<Rightarrow> cstring list option \<Rightarrow>
     bridge \<Rightarrow> bridge \<times> random" where
  "properties_changed validate rnd obj interface_name changed invalidated b =
     (let (b1, rnd') = reconcile_object validate rnd obj b in
      case map_of (modems_by_path b1) (object_path obj) of
        None \<Rightarrow> (b1, rnd')
      | Some r \<Rightarrow>
          if interface_name \<noteq> MM_DBUS_INTERFACE_MODEM then (b1, rnd')
          else
            (let sim_updated = property_was_updated changed invalidated ''Sim'';
                 primary_slot_updated = property_was_updated changed invalidated ''PrimarySimSlot'';
                 bearers_updated = property_was_updated changed invalidated ''Bearers'';
                 b2 = (if sim_updated \<or> primary_slot_updated
                       then on_modem r (\<lambda>m. fst (reconcile_messaging (object_messaging obj) True m)) b1
                       else b1);
                 b3 = (if sim_updated then on_modem r (\<lambda>m. fst (query_sim m)) b2 else b2);
                 b4 = (if bearers_updated then on_modem r (\<lambda>m. fst (query_bearers m)) b3 else b3)
             in (b4, rnd')))"

section \<open>The connection\<close>

definition manager_has_owner :: "bool \<Rightarrow> bridge \<Rightarrow> bool" where
  "manager_has_owner owner b \<longleftrightarrow> manager b \<noteq> None \<and> owner"

fun reconcile_objects ::
    "(cstring \<Rightarrow> bool) \<Rightarrow> random \<Rightarrow> dbus_object list \<Rightarrow> bridge \<Rightarrow> bridge \<times> random" where
  "reconcile_objects validate rnd [] b = (b, rnd)"
| "reconcile_objects validate rnd (obj # objects) b =
     (case reconcile_object validate rnd obj b of
        (b', rnd') \<Rightarrow> reconcile_objects validate rnd' objects b')"

definition reconcile_all ::
    "(cstring \<Rightarrow> bool) \<Rightarrow> bool \<Rightarrow> dbus_object list \<Rightarrow> random \<Rightarrow> bridge \<Rightarrow> bridge \<times> random" where
  "reconcile_all validate owner objects rnd b =
     (if \<not> manager_has_owner owner b then (b, rnd) else reconcile_objects validate rnd objects b)"

definition sms_reconcile_cb ::
    "(cstring \<Rightarrow> bool) \<Rightarrow> bool \<Rightarrow> dbus_object list \<Rightarrow> random \<Rightarrow> bridge \<Rightarrow> bridge \<times> random" where
  "sms_reconcile_cb validate owner objects rnd b =
     (if stopping b then (b\<lparr>sms_reconcile_source := False\<rparr>, rnd)
      else if \<not> manager_has_owner owner b then (b, rnd)
      else
        (let (b1, rnd') = reconcile_all validate owner objects rnd b
         in (fold (\<lambda>(_, r). on_modem r (\<lambda>m. if live m \<and> messaging m \<noteq> None then fst (query_sms m) else m))
               (modems_by_path b1) b1, rnd')))"

definition name_owner_changed ::
    "(cstring \<Rightarrow> bool) \<Rightarrow> bool \<Rightarrow> dbus_object list \<Rightarrow> random \<Rightarrow> bridge \<Rightarrow> bridge \<times> random" where
  "name_owner_changed validate owner objects rnd b =
     (if \<not> manager_has_owner owner b then (clear_modems b, rnd)
      else reconcile_all validate owner objects rnd b)"

text \<open>The signal handlers of the manager are connected exactly while the bridge holds it.\<close>

definition clear_manager_connection :: "bridge \<Rightarrow> bridge" where
  "clear_manager_connection b =
     (clear_modems (b\<lparr>connection_closed_handler := False\<rparr>))\<lparr>manager := None, connection := None\<rparr>"

definition schedule_retry :: "bridge \<Rightarrow> bridge" where
  "schedule_retry b = (if stopping b \<or> retry_source b then b else b\<lparr>retry_source := True\<rparr>)"

definition connection_closed :: "nat \<Rightarrow> bridge \<Rightarrow> bridge" where
  "connection_closed conn b =
     (if stopping b \<or> connection b \<noteq> Some conn then b
      else schedule_retry (clear_manager_connection
        ((bridge_next_connect_serial b)\<lparr>connect_pending := False\<rparr>)))"

text \<open>The second component is the serial of the bus request that was started.\<close>

definition bridge_connect :: "bridge \<Rightarrow> bridge \<times> u64 option" where
  "bridge_connect b =
     (if stopping b \<or> manager b \<noteq> None \<or> connection b \<noteq> None \<or> connect_pending b then (b, None)
      else
        (let b1 = bridge_next_connect_serial b
         in (b1\<lparr>connect_pending := True\<rparr>, Some (connect_serial b1))))"

definition retry_connect_cb :: "bridge \<Rightarrow> bridge \<times> u64 option" where
  "retry_connect_cb b =
     (let b1 = b\<lparr>retry_source := False\<rparr> in if \<not> stopping b1 then bridge_connect b1 else (b1, None))"

definition manager_ready ::
    "(cstring \<Rightarrow> bool) \<Rightarrow> u64 \<Rightarrow> nat \<Rightarrow> bool \<Rightarrow> nat option \<Rightarrow> bool \<Rightarrow> dbus_object list \<Rightarrow> random \<Rightarrow>
     bridge \<Rightarrow> bridge \<times> random" where
  "manager_ready validate serial conn closed result owner objects rnd b =
     (if stopping b \<or> serial \<noteq> connect_serial b \<or> connection b \<noteq> Some conn \<or> closed then (b, rnd)
      else
        (case result of
           None \<Rightarrow>
             (schedule_retry (clear_manager_connection (bridge_next_connect_serial b)), rnd)
         | Some mgr \<Rightarrow> reconcile_all validate owner objects rnd (b\<lparr>manager := Some mgr\<rparr>)))"

text \<open>The second component is the context of the manager request that was started.\<close>

definition bus_ready :: "u64 \<Rightarrow> (nat \<times> bool) option \<Rightarrow> bridge \<Rightarrow> bridge \<times> (u64 \<times> nat) option" where
  "bus_ready serial result b =
     (if serial \<noteq> connect_serial b then (b, None)
      else
        (let b1 = b\<lparr>connect_pending := False\<rparr> in
         if stopping b1 then (b1, None)
         else
           (case result of
              None \<Rightarrow> (schedule_retry b1, None)
            | Some (conn, closed) \<Rightarrow>
                if closed then (schedule_retry b1, None)
                else (b1\<lparr>connection := Some conn, connection_closed_handler := True\<rparr>,
                      Some (serial, conn)))))"

definition l850gl_bridge_new :: bridge where
  "l850gl_bridge_new =
     \<lparr>bridge_cancelled = False, connection = None, manager = None, modems = [],
      modems_by_path = [], next_generation = 0, connect_serial = 0, retry_source = False,
      sms_reconcile_source = False, connection_closed_handler = False, connect_pending = False,
      started = False, stopping = False, random_failed = False\<rparr>"

definition l850gl_bridge_start :: "bridge \<Rightarrow> bridge \<times> u64 option" where
  "l850gl_bridge_start b =
     (if started b \<or> stopping b then (b, None)
      else bridge_connect (b\<lparr>started := True, sms_reconcile_source := True\<rparr>))"

definition l850gl_bridge_stop :: "bridge \<Rightarrow> bridge" where
  "l850gl_bridge_stop b =
     (if stopping b then b
      else
        clear_manager_connection
          ((bridge_next_connect_serial
              (b\<lparr>stopping := True, retry_source := False, sms_reconcile_source := False,
                 bridge_cancelled := True\<rparr>))\<lparr>connect_pending := False\<rparr>))"

section \<open>Lookups\<close>

definition l850gl_bridge_find_modem :: "bridge \<Rightarrow> cstring option \<Rightarrow> nat option" where
  "l850gl_bridge_find_modem b i =
     (case i of
        None \<Rightarrow> None
      | Some modem_id' \<Rightarrow>
          List.find (\<lambda>r. live (modems b ! r) \<and> modem_id (modems b ! r) = modem_id')
            (map snd (modems_by_path b)))"

definition l850gl_bridge_snapshot_modems :: "bridge \<Rightarrow> nat list" where
  "l850gl_bridge_snapshot_modems b =
     filter (\<lambda>r. live (modems b ! r)) (map snd (modems_by_path b))"

definition l850gl_bridge_manager_available :: "bool \<Rightarrow> bridge \<Rightarrow> bool" where
  "l850gl_bridge_manager_available owner b = manager_has_owner owner b"

definition l850gl_bridge_manager_version :: "bool \<Rightarrow> cstring option \<Rightarrow> bridge \<Rightarrow> cstring" where
  "l850gl_bridge_manager_version owner version b =
     (if \<not> l850gl_bridge_manager_available owner b then []
      else case version of None \<Rightarrow> [] | Some v \<Rightarrow> v)"

section \<open>Invariant of the registry\<close>

text \<open>What changes of a modem by others leave alone.\<close>

definition kept :: "modem \<Rightarrow> modem \<Rightarrow> bool" where
  "kept m m' \<longleftrightarrow> live m' = live m \<and> modem_id m' = modem_id m \<and> generation m' = generation m \<and>
     (sms_inv m \<longrightarrow> sms_inv m')"

definition registry_inv :: "bridge \<Rightarrow> bool" where
  "registry_inv b \<longleftrightarrow>
     distinct (map fst (modems_by_path b)) \<and> length (modems_by_path b) \<le> MAX_ADMITTED_MODEMS \<and>
     distinct (map snd (modems_by_path b)) \<and>
     (\<forall>r. r \<in> snd ` set (modems_by_path b) \<longleftrightarrow> r < length (modems b) \<and> live (modems b ! r)) \<and>
     distinct (map modem_id (registered b)) \<and>
     (\<forall>m \<in> set (registered b). l850gl_identity_is_valid (Some (modem_id m))) \<and>
     unat (next_generation b) = length (modems b) \<and>
     (\<forall>r < length (modems b). unat (generation (modems b ! r)) = Suc r \<and> sms_inv (modems b ! r))"

lemma registry_inv_cong:
  "modems b' = modems b \<Longrightarrow> modems_by_path b' = modems_by_path b \<Longrightarrow>
   next_generation b' = next_generation b \<Longrightarrow> registry_inv b' = registry_inv b"
  by (simp add: registry_inv_def registered_def)

lemma on_modem_fields [simp]:
  "modems_by_path (on_modem r f b) = modems_by_path b"
  "next_generation (on_modem r f b) = next_generation b"
  "length (modems (on_modem r f b)) = length (modems b)"
  "manager (on_modem r f b) = manager b" "connection (on_modem r f b) = connection b"
  "stopping (on_modem r f b) = stopping b" "started (on_modem r f b) = started b"
  "connect_pending (on_modem r f b) = connect_pending b"
  "retry_source (on_modem r f b) = retry_source b"
  "connect_serial (on_modem r f b) = connect_serial b"
  "connection_closed_handler (on_modem r f b) = connection_closed_handler b"
  "bridge_cancelled (on_modem r f b) = bridge_cancelled b"
  "sms_reconcile_source (on_modem r f b) = sms_reconcile_source b"
  by (simp_all add: on_modem_def)

lemma on_modem_nth: "r < length (modems b) \<Longrightarrow>
   modems (on_modem q f b) ! r = (if r = q then f (modems b ! r) else modems b ! r)"
  by (simp add: on_modem_def)

lemma registry_on_modem:
  assumes inv: "registry_inv b" and f: "q < length (modems b) \<Longrightarrow> kept (modems b ! q) (f (modems b ! q))"
  shows "registry_inv (on_modem q f b)"
proof -
  have "modems (on_modem q f b) ! r = (if r = q then f (modems b ! r) else modems b ! r)"
    if "r < length (modems b)" for r using that by (rule on_modem_nth)
  then have same: "live (modems (on_modem q f b) ! r) = live (modems b ! r)"
    "modem_id (modems (on_modem q f b) ! r) = modem_id (modems b ! r)"
    "generation (modems (on_modem q f b) ! r) = generation (modems b ! r)"
    "sms_inv (modems b ! r) \<Longrightarrow> sms_inv (modems (on_modem q f b) ! r)"
    if "r < length (modems b)" for r using that f by (cases "r = q"; simp add: kept_def)+
  have refs: "\<And>p r. (p, r) \<in> set (modems_by_path b) \<Longrightarrow> r < length (modems b)"
    using inv by (force simp: registry_inv_def)
  then have "map modem_id (registered (on_modem q f b)) = map modem_id (registered b)"
    using same(2) by (auto simp: registered_def)
  moreover from this have "(\<forall>m \<in> set (registered (on_modem q f b)). l850gl_identity_is_valid (Some (modem_id m)))
      = (\<forall>m \<in> set (registered b). l850gl_identity_is_valid (Some (modem_id m)))"
    by (metis (no_types, lifting) image_iff list.set_map)
  ultimately show ?thesis
    using inv same unfolding registry_inv_def by auto
qed

lemma registered_delete:
  "registered (b\<lparr>modems_by_path := AList.delete p t\<rparr>) = map (\<lambda>(_, r). modems b ! r) (filter (\<lambda>x. fst x \<noteq> p) t)"
  by (simp add: registered_def delete_filter)

lemma mark_removed_fields [simp]:
  "live (modem_mark_removed m) = False" "modem_id (modem_mark_removed m) = modem_id m"
  "generation (modem_mark_removed m) = generation m"
  by (simp_all add: modem_mark_removed_def clear_sms_cache_def disconnect_messaging_signals_def)

text \<open>Dropping entries from the table while marking their modems removed.\<close>

lemma registry_drop:
  assumes inv: "registry_inv b" and t: "modems_by_path b' = filter P (modems_by_path b)"
    and gen: "next_generation b' = next_generation b" and len: "length (modems b') = length (modems b)"
    and ms: "\<And>r. r < length (modems b) \<Longrightarrow> modems b' ! r =
      (if r \<in> snd ` set (filter (\<lambda>x. \<not> P x) (modems_by_path b)) then modem_mark_removed (modems b ! r)
       else modems b ! r)"
  shows "registry_inv b'"
proof -
  let ?t = "modems_by_path b"
  have refs: "r \<in> snd ` set ?t \<longleftrightarrow> r < length (modems b) \<and> live (modems b ! r)" for r
    using inv by (simp add: registry_inv_def)
  have "inj_on snd (set ?t)" using inv by (simp add: registry_inv_def distinct_map)
  then have inj: "p = q" if "(p, r) \<in> set ?t" "(q, r) \<in> set ?t" for p q r
    using that inj_onD [of snd "set ?t" "(p, r)" "(q, r)"] by simp
  have ids: "map modem_id (registered b') = map (\<lambda>(_, r). modem_id (modems b ! r)) (filter P ?t)"
  proof -
    have "modem_id (modems b' ! r) = modem_id (modems b ! r)" if "(p, r) \<in> set ?t" for p r
      using that refs [of r] ms [of r] by force
    then show ?thesis by (auto simp: registered_def t)
  qed
  have old: "map modem_id (registered b) = map (\<lambda>(_, r). modem_id (modems b ! r)) ?t"
    by (auto simp: registered_def)
  have "distinct (map modem_id (registered b'))"
    using inv unfolding ids by (intro distinct_map_filter) (simp add: registry_inv_def old [symmetric])
  moreover have "set (map modem_id (registered b')) \<subseteq> set (map modem_id (registered b))"
    unfolding ids old by auto
  then have sub: "modem_id m \<in> set (map modem_id (registered b))" if "m \<in> set (registered b')" for m
    using that by auto
  have "\<forall>m \<in> set (registered b'). l850gl_identity_is_valid (Some (modem_id m))"
  proof
    fix m assume "m \<in> set (registered b')"
    from sub [OF this] obtain m' where "m' \<in> set (registered b)" "modem_id m = modem_id m'" by auto
    with inv show "l850gl_identity_is_valid (Some (modem_id m))" by (simp add: registry_inv_def)
  qed
  moreover have "r \<in> snd ` set (filter P ?t) \<longleftrightarrow> r < length (modems b') \<and> live (modems b' ! r)" for r
  proof (cases "r \<in> snd ` set ?t")
    case True
    then obtain p where p: "(p, r) \<in> set ?t" by auto
    have "r \<in> snd ` set (filter Q ?t) \<longleftrightarrow> Q (p, r)" for Q
    proof
      assume "r \<in> snd ` set (filter Q ?t)"
      then obtain q where "(q, r) \<in> set ?t" "Q (q, r)" by auto
      with inj [OF p] show "Q (p, r)" by simp
    qed (use p in force)
    with True refs [of r] ms [of r] len show ?thesis by simp
  next
    case False
    then have "r \<notin> snd ` set (filter Q ?t)" for Q by auto
    with False refs [of r] ms [of r] len show ?thesis by auto
  qed
  moreover have "unat (generation (modems b' ! r)) = Suc r \<and> sms_inv (modems b' ! r)"
    if "r < length (modems b')" for r
    using that inv ms [of r] len sms_inv_removed by (auto simp: registry_inv_def)
  moreover have "length (filter P ?t) \<le> MAX_ADMITTED_MODEMS"
    using inv order_trans [OF length_filter_le] by (auto simp: registry_inv_def)
  ultimately show ?thesis
    using inv len gen unfolding registry_inv_def t by (auto intro: distinct_map_filter)
qed

lemma registry_remove_path:
  assumes inv: "registry_inv b"
  shows "registry_inv (remove_path path b)"
proof (cases "map_of (modems_by_path b) path")
  case None
  with inv show ?thesis by (simp add: remove_path_def)
next
  case (Some r)
  show ?thesis
  proof (rule registry_drop [OF inv, where P = "\<lambda>x. fst x \<noteq> path"])
    fix q assume q: "q < length (modems b)"
    have "distinct (map fst (modems_by_path b))" using inv by (simp add: registry_inv_def)
    then have "(path, q) \<in> set (modems_by_path b) \<longleftrightarrow> q = r"
      using Some by (metis map_of_SomeD map_of_is_SomeI option.inject)
    then have "q \<in> snd ` set (filter (\<lambda>x. \<not> fst x \<noteq> path) (modems_by_path b)) \<longleftrightarrow> q = r"
      by force
    with q Some show "modems (remove_path path b) ! q =
      (if q \<in> snd ` set (filter (\<lambda>x. \<not> fst x \<noteq> path) (modems_by_path b))
       then modem_mark_removed (modems b ! q) else modems b ! q)"
      by (simp add: remove_path_def on_modem_nth)
  qed (use Some in \<open>simp_all add: remove_path_def delete_filter\<close>)
qed

lemma fold_removed:
  assumes "distinct (map snd t)"
  shows "length (modems (fold (\<lambda>(_, r). on_modem r modem_mark_removed) t b)) = length (modems b)"
    and "q < length (modems b) \<Longrightarrow>
      modems (fold (\<lambda>(_, r). on_modem r modem_mark_removed) t b) ! q =
        (if q \<in> snd ` set t then modem_mark_removed (modems b ! q) else modems b ! q)"
  using assms
proof (induction t arbitrary: b)
  case (Cons x t)
  {
    case 1
    with Cons.IH(1) show ?case by (simp add: case_prod_beta)
  next
    case 2
    with Cons.IH(2) [of "on_modem (snd x) modem_mark_removed b"] show ?case
      by (auto simp: case_prod_beta on_modem_nth)
  }
qed simp_all

lemma fold_on_modem_fields [simp]:
  "modems_by_path (fold (\<lambda>(_, r). on_modem r f) t b) = modems_by_path b"
  "next_generation (fold (\<lambda>(_, r). on_modem r f) t b) = next_generation b"
  "manager (fold (\<lambda>(_, r). on_modem r f) t b) = manager b"
  "connection (fold (\<lambda>(_, r). on_modem r f) t b) = connection b"
  "stopping (fold (\<lambda>(_, r). on_modem r f) t b) = stopping b"
  "started (fold (\<lambda>(_, r). on_modem r f) t b) = started b"
  "connect_pending (fold (\<lambda>(_, r). on_modem r f) t b) = connect_pending b"
  "retry_source (fold (\<lambda>(_, r). on_modem r f) t b) = retry_source b"
  "connect_serial (fold (\<lambda>(_, r). on_modem r f) t b) = connect_serial b"
  "bridge_cancelled (fold (\<lambda>(_, r). on_modem r f) t b) = bridge_cancelled b"
  "sms_reconcile_source (fold (\<lambda>(_, r). on_modem r f) t b) = sms_reconcile_source b"
  by (induction t arbitrary: b) (simp_all add: case_prod_beta)

lemma registry_clear_modems:
  assumes inv: "registry_inv b"
  shows "registry_inv (clear_modems b)"
proof (rule registry_drop [OF inv, where P = "\<lambda>_. False"])
  have d: "distinct (map snd (modems_by_path b))" using inv by (simp add: registry_inv_def)
  show "length (modems (clear_modems b)) = length (modems b)"
    using fold_removed(1) [OF d, of b] by (simp add: clear_modems_def)
  fix q assume "q < length (modems b)"
  then show "modems (clear_modems b) ! q = (if q \<in> snd ` set (filter (\<lambda>x. \<not> False) (modems_by_path b))
    then modem_mark_removed (modems b ! q) else modems b ! q)"
    using fold_removed(2) [OF d, of q b] by (simp add: clear_modems_def)
qed (simp_all add: clear_modems_def)

lemma registry_fold_kept:
  assumes "registry_inv b" and "\<And>m. kept m (f m)"
  shows "registry_inv (fold (\<lambda>(_, r). on_modem r f) t b)"
  using assms(1)
  by (induction t arbitrary: b) (auto intro: registry_on_modem assms(2))

section \<open>Admission\<close>

lemma generate_modem_id_valid:
  "generate_modem_id script = Some i \<Longrightarrow> l850gl_identity_is_valid (Some i)"
  using generated_token_valid [of ID_PREFIX NUL script]
  by (auto simp: generate_modem_id_def l850gl_identity_generate_def ID_BUFSIZE_def
      l850gl_identity_generate_with_def l850gl_identity_is_valid_def
      split: option.splits prod.splits bool.splits if_splits)

lemma new_modem_id_loop_sound:
  "new_modem_id_loop n rnd b = (Some i, rnd') \<Longrightarrow>
     l850gl_identity_is_valid (Some i) \<and> i \<notin> modem_id ` set (registered b)"
  by (induction n rnd b rule: new_modem_id_loop.induct)
    (auto simp: modem_id_exists_def list_ex_iff generate_modem_id_valid split: option.splits if_splits)

interpretation modem_ids: identifier_allocator
  "new_modem_id_loop RANDOM_RETRIES" "\<lambda>b. modem_id ` set (registered b)"
  "\<lambda>i. l850gl_identity_is_valid (Some i)"
  using new_modem_id_loop_sound by unfold_locales blast+

lemma kept_neutral [simp]:
  "kept m (fst (query_sim m))" "kept m (fst (query_bearers m))" "kept m (fst (query_sms m))"
  "kept m (fst (reconcile_messaging msg force_epoch m))" "kept m m"
proof -
  show "kept m (fst (reconcile_messaging msg force_epoch m))"
    using sms_inv_reconcile [of m msg force_epoch]
    by (auto simp: kept_def reconcile_messaging_def Let_def query_sms_def sms_revision_bump_def
        clear_sms_cache_def disconnect_messaging_signals_def split: option.splits)
  have "sms_inv m \<Longrightarrow> sms_inv (fst (query_sim m))"
    using sms_inv_cong [of "fst (query_sim m)" m] by (simp add: same_tables_def query_sim_def)
  then show "kept m (fst (query_sim m))" by (auto simp: kept_def query_sim_def)
  have "sms_inv m \<Longrightarrow> sms_inv (fst (query_bearers m))"
    using sms_inv_cong [of "fst (query_bearers m)" m] by (simp add: same_tables_def query_bearers_def)
  then show "kept m (fst (query_bearers m))" by (auto simp: kept_def query_bearers_def)
  show "kept m (fst (query_sms m))"
    by (auto simp: kept_def query_sms_def split: option.splits)
       (auto simp: sms_inv_def table_ok_def entry_current_def [abs_def])
qed (simp add: kept_def)

lemma kept_trans: "kept m m1 \<Longrightarrow> kept m1 m2 \<Longrightarrow> kept m m2"
  by (auto simp: kept_def)

lemma update_new_key: "p \<notin> fst ` set t \<Longrightarrow> AList.update p v t = t @ [(p, v)]"
  by (induction t) auto

lemma registry_admit:
  assumes inv: "registry_inv b" and new: "new_modem_id_loop RANDOM_RETRIES rnd b = (Some i, rnd')"
    and path: "map_of (modems_by_path b) path = None"
    and room: "length (modems_by_path b) < MAX_ADMITTED_MODEMS" "next_generation b \<noteq> UINT32_MAX"
  shows "registry_inv (admit_modem path mm msg i b)"
proof -
  let ?m = "modem_new mm i (next_generation b + 1)"
  define m3 where "m3 = fst (reconcile_messaging msg False (fst (query_bearers (fst (query_sim ?m)))))"
  have "kept ?m m3" unfolding m3_def by (meson kept_neutral kept_trans)
  then have m3: "live m3" "modem_id m3 = i" "generation m3 = next_generation b + 1" "sms_inv m3"
    using sms_inv_new by (auto simp: kept_def modem_new_def)
  have g: "unat (next_generation b + 1) = Suc (length (modems b))"
    using inv unat_plus1_less [OF word_less_plus1 [OF room(2)]] by (simp add: registry_inv_def)
  have p: "path \<notin> fst ` set (modems_by_path b)" using path by (simp add: map_of_eq_None_iff)
  have refs: "r < length (modems b)" if "(q, r) \<in> set (modems_by_path b)" for q r
    using inv that by (force simp: registry_inv_def)
  let ?b = "admit_modem path mm msg i b"
  have b: "modems ?b = modems b @ [m3]" "modems_by_path ?b = modems_by_path b @ [(path, length (modems b))]"
    "next_generation ?b = next_generation b + 1"
    by (simp_all add: admit_modem_def Let_def m3_def update_new_key [OF p])
  have reg: "registered ?b = registered b @ [m3]"
    using refs by (auto simp: registered_def b nth_append)
  have dist: "distinct (map modem_id (registered ?b))"
    using modem_ids.allocate_distinct(1) [OF new, of "map modem_id (registered b)"] inv m3(2)
    by (simp add: reg registry_inv_def)
  have val: "l850gl_identity_is_valid (Some i)" by (rule modem_ids.allocate_valid [OF new])
  have nth: "modems ?b ! r = (if r = length (modems b) then m3 else modems b ! r)"
    if "r < Suc (length (modems b))" for r using that by (simp add: b nth_append)
  have "r \<in> snd ` set (modems_by_path ?b) \<longleftrightarrow> r < length (modems ?b) \<and> live (modems ?b ! r)" for r
    using inv nth [of r] m3(1) unfolding registry_inv_def by (auto simp: b(1,2) less_Suc_eq)
  moreover have "\<forall>r < length (modems ?b). unat (generation (modems ?b ! r)) = Suc r \<and> sms_inv (modems ?b ! r)"
    using inv nth m3 g unfolding registry_inv_def by (auto simp: b(1) less_Suc_eq)
  moreover have "distinct (map fst (modems_by_path ?b))" "distinct (map snd (modems_by_path ?b))"
    using inv p refs unfolding registry_inv_def b by auto
  ultimately show ?thesis
    using inv dist val m3(2) room(1) g unfolding registry_inv_def b by (auto simp: reg)
qed

lemma registry_reconcile_object:
  assumes inv: "registry_inv b"
  shows "registry_inv (fst (reconcile_object validate rnd obj b))"
proof -
  have failed: "registry_inv (b\<lparr>random_failed := True\<rparr>)"
    using inv by (subst registry_inv_cong [of _ b]) simp_all
  show ?thesis
    using inv failed registry_remove_path [OF inv] registry_admit [OF inv]
    by (auto simp: reconcile_object_def Let_def new_modem_id_def not_le
        intro: registry_on_modem split: option.splits prod.splits)
qed

text \<open>Everything of the bridge but the registry.\<close>

definition link :: "bridge \<Rightarrow> bridge" where
  "link b = b\<lparr>modems := [], modems_by_path := [], next_generation := 0, random_failed := False\<rparr>"

lemma link_fields:
  assumes "link b' = link b"
  shows "manager b' = manager b" "connection b' = connection b" "stopping b' = stopping b"
    "started b' = started b" "connect_pending b' = connect_pending b" "retry_source b' = retry_source b"
    "connect_serial b' = connect_serial b" "connection_closed_handler b' = connection_closed_handler b"
    "bridge_cancelled b' = bridge_cancelled b" "sms_reconcile_source b' = sms_reconcile_source b"
  using assms by (cases b; cases b'; simp add: link_def)+

lemma link_on_modem [simp]: "link (on_modem r f b) = link b"
  by (simp add: link_def on_modem_def)

lemma link_fold_on_modem [simp]: "link (fold (\<lambda>(_, r). on_modem r f) t b) = link b"
  by (induction t arbitrary: b) (simp_all add: case_prod_beta)

lemma link_registry [simp]:
  "link (b\<lparr>modems_by_path := t\<rparr>) = link b" "link (b\<lparr>random_failed := x\<rparr>) = link b"
  by (simp_all add: link_def)

lemma link_remove_path [simp]: "link (remove_path path b) = link b"
  by (simp add: remove_path_def split: option.splits)

lemma link_clear_modems [simp]: "link (clear_modems b) = link b"
  by (simp add: clear_modems_def)

lemma link_admit [simp]: "link (admit_modem path mm msg i b) = link b"
  by (simp add: admit_modem_def Let_def link_def)

lemma link_reconcile_object [simp]: "link (fst (reconcile_object validate rnd obj b)) = link b"
  by (auto simp: reconcile_object_def Let_def new_modem_id_def split: option.splits prod.splits)

lemma link_reconcile_objects [simp]: "link (fst (reconcile_objects validate rnd objs b)) = link b"
proof (induction objs arbitrary: rnd b)
  case (Cons obj objs)
  then show ?case
    using link_reconcile_object [of validate rnd obj b]
    by (cases "reconcile_object validate rnd obj b") (simp del: link_reconcile_object)
qed simp

lemma link_reconcile_all [simp]: "link (fst (reconcile_all validate owner objs rnd b)) = link b"
  by (simp add: reconcile_all_def)

lemma link_properties_changed [simp]:
  "link (fst (properties_changed validate rnd obj iface changed invalidated b)) = link b"
  using link_reconcile_object [of validate rnd obj b]
  by (cases "reconcile_object validate rnd obj b")
    (simp add: properties_changed_def Let_def del: link_reconcile_object split: option.splits)

lemma registry_reconcile_objects:
  "registry_inv b \<Longrightarrow> registry_inv (fst (reconcile_objects validate rnd objs b))"
proof (induction objs arbitrary: rnd b)
  case (Cons obj objs)
  from registry_reconcile_object [OF Cons.prems, of validate rnd obj] Cons.IH show ?case
    by (cases "reconcile_object validate rnd obj b") simp
qed simp

lemma registry_reconcile_all:
  "registry_inv b \<Longrightarrow> registry_inv (fst (reconcile_all validate owner objs rnd b))"
  by (simp add: reconcile_all_def registry_reconcile_objects)

lemma registry_properties_changed:
  "registry_inv b \<Longrightarrow> registry_inv (fst (properties_changed validate rnd obj iface changed invalidated b))"
  using registry_reconcile_object [of b validate rnd obj]
  by (cases "reconcile_object validate rnd obj b")
    (simp add: properties_changed_def Let_def registry_on_modem split: option.splits)

lemma registry_link:
  "registry_inv (b\<lparr>manager := x\<rparr>) = registry_inv b" "registry_inv (b\<lparr>connection := c\<rparr>) = registry_inv b"
  "registry_inv (b\<lparr>connect_pending := y\<rparr>) = registry_inv b"
  "registry_inv (b\<lparr>retry_source := y\<rparr>) = registry_inv b"
  "registry_inv (b\<lparr>connection_closed_handler := y\<rparr>) = registry_inv b"
  "registry_inv (b\<lparr>connect_serial := s\<rparr>) = registry_inv b"
  "registry_inv (b\<lparr>started := y\<rparr>) = registry_inv b" "registry_inv (b\<lparr>stopping := y\<rparr>) = registry_inv b"
  "registry_inv (b\<lparr>sms_reconcile_source := y\<rparr>) = registry_inv b"
  "registry_inv (b\<lparr>bridge_cancelled := y\<rparr>) = registry_inv b"
  by (rule registry_inv_cong; simp)+

lemma registry_clear_connection:
  "registry_inv b \<Longrightarrow> registry_inv (clear_manager_connection b)"
  by (simp add: clear_manager_connection_def registry_link registry_clear_modems)

lemma cleared [simp]:
  "manager (clear_manager_connection b) = None" "connection (clear_manager_connection b) = None"
  "modems_by_path (clear_manager_connection b) = []"
  "connection_closed_handler (clear_manager_connection b) = False"
  "connect_pending (clear_manager_connection b) = connect_pending b"
  "retry_source (clear_manager_connection b) = retry_source b"
  "stopping (clear_manager_connection b) = stopping b" "started (clear_manager_connection b) = started b"
  "connect_serial (clear_manager_connection b) = connect_serial b"
  "sms_reconcile_source (clear_manager_connection b) = sms_reconcile_source b"
  "bridge_cancelled (clear_manager_connection b) = bridge_cancelled b"
  using link_fields [OF link_clear_modems [of "b\<lparr>connection_closed_handler := False\<rparr>"]]
  by (simp_all add: clear_manager_connection_def) (simp add: clear_modems_def)

section \<open>Interleavings\<close>

text \<open>
  The bridge with the requests that have not been answered: the serials of the bus requests and
  the contexts of the manager requests. The 64-bit serial wraps around; \<open>fresh_serial\<close> says that
  the next one is not the serial of a request still waiting, so fewer than \<open>2 ^ 64 - 1\<close> attempts
  were made while one of them was unanswered.
\<close>

record bridge_run =
  core :: bridge
  bus_waiting :: "u64 list"
  manager_waiting :: "(u64 \<times> nat) list"

definition fresh_serial :: "bridge_run \<Rightarrow> bool" where
  "fresh_serial r \<longleftrightarrow> connect_serial (bridge_next_connect_serial (core r)) \<notin>
     set (bus_waiting r) \<union> fst ` set (manager_waiting r)"

definition sent :: "'a option \<Rightarrow> 'a list \<Rightarrow> 'a list" where
  "sent req waiting = (case req of None \<Rightarrow> waiting | Some x \<Rightarrow> x # waiting)"

text \<open>
  The handlers of the manager's signals run only while they are connected, which is while the
  bridge holds the manager; a timer runs only while its source is set. The last rule is any
  change of a modem by another component.
\<close>

inductive bridge_step :: "(cstring \<Rightarrow> bool) \<Rightarrow> bridge_run \<Rightarrow> bridge_run \<Rightarrow> bool" for validate where
  start: "fresh_serial r \<Longrightarrow> l850gl_bridge_start (core r) = (b, req) \<Longrightarrow>
    bridge_step validate r (r\<lparr>core := b, bus_waiting := sent req (bus_waiting r)\<rparr>)"
| retry: "fresh_serial r \<Longrightarrow> retry_source (core r) \<Longrightarrow> retry_connect_cb (core r) = (b, req) \<Longrightarrow>
    bridge_step validate r (r\<lparr>core := b, bus_waiting := sent req (bus_waiting r)\<rparr>)"
| bus: "serial \<in> set (bus_waiting r) \<Longrightarrow> bus_ready serial result (core r) = (b, req) \<Longrightarrow>
    bridge_step validate r (r\<lparr>core := b, bus_waiting := remove1 serial (bus_waiting r),
      manager_waiting := sent req (manager_waiting r)\<rparr>)"
| manager: "fresh_serial r \<Longrightarrow> (serial, conn) \<in> set (manager_waiting r) \<Longrightarrow>
    manager_ready validate serial conn closed result owner objects rnd (core r) = (b, rnd') \<Longrightarrow>
    bridge_step validate r (r\<lparr>core := b, manager_waiting := remove1 (serial, conn) (manager_waiting r)\<rparr>)"
| closed: "fresh_serial r \<Longrightarrow> bridge_step validate r (r\<lparr>core := connection_closed conn (core r)\<rparr>)"
| stop: "fresh_serial r \<Longrightarrow> bridge_step validate r (r\<lparr>core := l850gl_bridge_stop (core r)\<rparr>)"
| added: "manager (core r) \<noteq> None \<Longrightarrow> object_added validate rnd obj (core r) = (b, rnd') \<Longrightarrow>
    bridge_step validate r (r\<lparr>core := b\<rparr>)"
| removed: "manager (core r) \<noteq> None \<Longrightarrow> bridge_step validate r (r\<lparr>core := object_removed obj (core r)\<rparr>)"
| interface_plus: "manager (core r) \<noteq> None \<Longrightarrow> interface_added validate rnd obj (core r) = (b, rnd') \<Longrightarrow>
    bridge_step validate r (r\<lparr>core := b\<rparr>)"
| interface_minus: "manager (core r) \<noteq> None \<Longrightarrow> interface_removed validate rnd obj (core r) = (b, rnd') \<Longrightarrow>
    bridge_step validate r (r\<lparr>core := b\<rparr>)"
| properties: "manager (core r) \<noteq> None \<Longrightarrow>
    properties_changed validate rnd obj iface changed invalidated (core r) = (b, rnd') \<Longrightarrow>
    bridge_step validate r (r\<lparr>core := b\<rparr>)"
| owner: "manager (core r) \<noteq> None \<Longrightarrow>
    name_owner_changed validate owned objects rnd (core r) = (b, rnd') \<Longrightarrow>
    bridge_step validate r (r\<lparr>core := b\<rparr>)"
| sms_timer: "sms_reconcile_source (core r) \<Longrightarrow>
    sms_reconcile_cb validate owned objects rnd (core r) = (b, rnd') \<Longrightarrow>
    bridge_step validate r (r\<lparr>core := b\<rparr>)"
| modem: "q < length (modems (core r)) \<Longrightarrow> kept (modems (core r) ! q) m \<Longrightarrow>
    bridge_step validate r (r\<lparr>core := on_modem q (\<lambda>_. m) (core r)\<rparr>)"

definition bridge_init :: bridge_run where
  "bridge_init = \<lparr>core = l850gl_bridge_new, bus_waiting = [], manager_waiting = []\<rparr>"

lemma registry_serial [simp]: "registry_inv (bridge_next_connect_serial b) = registry_inv b"
  by (simp add: bridge_next_connect_serial_def Let_def registry_link)

lemma registry_schedule [simp]: "registry_inv (schedule_retry b) = registry_inv b"
  by (simp add: schedule_retry_def registry_link)

lemma registry_connect: "registry_inv b \<Longrightarrow> registry_inv (fst (bridge_connect b))"
  by (simp add: bridge_connect_def Let_def registry_link)

lemma registry_handlers:
  assumes inv: "registry_inv b"
  shows "registry_inv (fst (l850gl_bridge_start b))"
    and "registry_inv (fst (retry_connect_cb b))"
    and "registry_inv (fst (bus_ready serial bus b))"
    and "registry_inv (fst (manager_ready validate serial conn closed mgr owner objects rnd b))"
    and "registry_inv (connection_closed conn b)"
    and "registry_inv (l850gl_bridge_stop b)"
    and "registry_inv (fst (object_added validate rnd obj b))"
    and "registry_inv (object_removed obj b)"
    and "registry_inv (fst (interface_added validate rnd obj b))"
    and "registry_inv (fst (interface_removed validate rnd obj b))"
    and "registry_inv (fst (properties_changed validate rnd obj iface changed invalidated b))"
    and "registry_inv (fst (name_owner_changed validate owner objects rnd b))"
    and "registry_inv (fst (sms_reconcile_cb validate owner objects rnd b))"
proof -
  note all = registry_reconcile_all [where validate = validate and owner = owner and objs = objects and rnd = rnd]
  show "registry_inv (fst (l850gl_bridge_start b))" "registry_inv (fst (retry_connect_cb b))"
    "registry_inv (fst (bus_ready serial bus b))"
    using inv registry_connect [of "b\<lparr>started := True, sms_reconcile_source := True\<rparr>"]
      registry_connect [of "b\<lparr>retry_source := False\<rparr>"]
    by (auto simp: l850gl_bridge_start_def retry_connect_cb_def bus_ready_def Let_def registry_link
        split: option.splits)
  show "registry_inv (fst (manager_ready validate serial conn closed mgr owner objects rnd b))"
    using inv all [of "b\<lparr>manager := mgr\<rparr>"]
    by (cases mgr) (auto simp: manager_ready_def registry_link registry_clear_connection)
  show "registry_inv (fst (sms_reconcile_cb validate owner objects rnd b))"
    using inv all [OF inv] by (auto simp: sms_reconcile_cb_def registry_link case_prod_beta registry_fold_kept)
qed (use inv in \<open>auto simp: connection_closed_def l850gl_bridge_stop_def object_added_def object_removed_def
    interface_added_def interface_removed_def name_owner_changed_def registry_link registry_clear_connection
    registry_remove_path registry_reconcile_object registry_properties_changed registry_clear_modems
    registry_reconcile_all\<close>)

lemma bridge_step_registry:
  assumes step: "bridge_step validate r r'" and inv: "registry_inv (core r)"
  shows "registry_inv (core r')"
  using step
proof cases
  case (modem q m)
  with inv show ?thesis by (simp add: registry_on_modem)
qed (simp_all add: registry_handlers [OF inv], (metis fst_conv registry_handlers [OF inv])+)

section \<open>Invariant of the connection\<close>

definition link_inv :: "bridge_run \<Rightarrow> bool" where
  "link_inv r \<longleftrightarrow>
     (let b = core r in
      (manager b \<noteq> None \<longrightarrow> connection b \<noteq> None) \<and>
      (connect_pending b \<longrightarrow> connection b = None) \<and>
      (retry_source b \<longrightarrow> connection b = None \<and> \<not> connect_pending b) \<and>
      distinct (bus_waiting r) \<and> distinct (map fst (manager_waiting r)) \<and>
      set (bus_waiting r) \<inter> fst ` set (manager_waiting r) = {} \<and>
      (connect_pending b \<longrightarrow> connect_serial b \<in> set (bus_waiting r)) \<and>
      (connect_serial b \<in> set (bus_waiting r) \<longrightarrow> connect_pending b) \<and>
      (\<forall>c. (connect_serial b, c) \<in> set (manager_waiting r) \<longrightarrow>
         connection b = Some c \<and> manager b = None) \<and>
      (connection_closed_handler b \<longleftrightarrow> connection b \<noteq> None) \<and>
      (started b \<and> \<not> stopping b \<longrightarrow> connect_pending b \<or> retry_source b \<or> connection b \<noteq> None) \<and>
      (\<not> started b \<longrightarrow> \<not> retry_source b \<and> \<not> connect_pending b \<and> connection b = None) \<and>
      (stopping b \<longrightarrow> connection b = None \<and> \<not> connect_pending b \<and> \<not> retry_source b \<and>
         \<not> sms_reconcile_source b \<and> bridge_cancelled b \<and> modems_by_path b = []))"

lemma serial_fields [simp]:
  "manager (bridge_next_connect_serial b) = manager b"
  "connection (bridge_next_connect_serial b) = connection b"
  "stopping (bridge_next_connect_serial b) = stopping b"
  "started (bridge_next_connect_serial b) = started b"
  "connect_pending (bridge_next_connect_serial b) = connect_pending b"
  "retry_source (bridge_next_connect_serial b) = retry_source b"
  "connection_closed_handler (bridge_next_connect_serial b) = connection_closed_handler b"
  "bridge_cancelled (bridge_next_connect_serial b) = bridge_cancelled b"
  "sms_reconcile_source (bridge_next_connect_serial b) = sms_reconcile_source b"
  "modems_by_path (bridge_next_connect_serial b) = modems_by_path b"
  by (simp_all add: bridge_next_connect_serial_def Let_def)

lemma next_serial_cong [simp]:
  "connect_serial (bridge_next_connect_serial (b\<lparr>started := x\<rparr>)) =
     connect_serial (bridge_next_connect_serial b)"
  "connect_serial (bridge_next_connect_serial (b\<lparr>sms_reconcile_source := x\<rparr>)) =
     connect_serial (bridge_next_connect_serial b)"
  "connect_serial (bridge_next_connect_serial (b\<lparr>retry_source := x\<rparr>)) =
     connect_serial (bridge_next_connect_serial b)"
  "connect_serial (bridge_next_connect_serial (b\<lparr>stopping := x\<rparr>)) =
     connect_serial (bridge_next_connect_serial b)"
  "connect_serial (bridge_next_connect_serial (b\<lparr>bridge_cancelled := x\<rparr>)) =
     connect_serial (bridge_next_connect_serial b)"
  by (simp_all add: bridge_next_connect_serial_def Let_def)

text \<open>A step of the registry does not touch the connection.\<close>

lemma link_inv_registry:
  assumes "link_inv r" and "link b = link (core r)" and "manager (core r) \<noteq> None \<or> modems_by_path b = modems_by_path (core r)"
  shows "link_inv (r\<lparr>core := b\<rparr>)"
proof -
  have "stopping (core r) \<Longrightarrow> modems_by_path b = modems_by_path (core r)"
    using assms(1,3) unfolding link_inv_def Let_def by metis
  then show ?thesis
    using assms(1) unfolding link_inv_def Let_def by (simp add: link_fields [OF assms(2)])
qed

lemma fresh_not_waiting:
  "fresh_serial r \<Longrightarrow> connect_serial (bridge_next_connect_serial (core r)) \<notin> set (bus_waiting r)"
  "fresh_serial r \<Longrightarrow> (connect_serial (bridge_next_connect_serial (core r)), c) \<notin> set (manager_waiting r)"
  by (force simp: fresh_serial_def)+


lemma link_inv_connect:
  assumes inv: "link_inv r" and fresh: "fresh_serial r"
    and ready: "link ready = link ((core r)\<lparr>retry_source := False, started := True, sms_reconcile_source := x\<rparr>)"
    and reg: "modems_by_path ready = modems_by_path (core r)"
    and nostop: "\<not> stopping (core r)" and run: "bridge_connect ready = (b, req)"
  shows "link_inv (r\<lparr>core := b, bus_waiting := sent req (bus_waiting r)\<rparr>)"
proof -
  note f = link_fields [OF ready, simplified]
  have s: "connect_serial (bridge_next_connect_serial ready) =
      connect_serial (bridge_next_connect_serial (core r))"
    using f(7) by (simp add: bridge_next_connect_serial_def Let_def)
  show ?thesis
  proof (cases "manager ready \<noteq> None \<or> connection ready \<noteq> None \<or> connect_pending ready")
    case True
    with run nostop f have "b = ready" "req = None" by (auto simp: bridge_connect_def)
    with inv True nostop f reg show ?thesis
      unfolding link_inv_def Let_def by (auto simp: sent_def)
  next
    case False
    with run nostop f have "b = (bridge_next_connect_serial ready)\<lparr>connect_pending := True\<rparr>"
      "req = Some (connect_serial (bridge_next_connect_serial ready))"
      by (auto simp: bridge_connect_def Let_def)
    with inv False nostop f reg fresh_not_waiting [OF fresh] fresh show ?thesis
      unfolding link_inv_def Let_def by (simp add: sent_def s fresh_serial_def)
  qed
qed

lemma link_inv_cleared:
  assumes inv: "link_inv r" and fresh: "fresh_serial r" and nostop: "\<not> stopping (core r)"
    and pend: "\<not> connect_pending ready" and f: "connect_serial ready = connect_serial (bridge_next_connect_serial (core r))"
      "started ready = started (core r)" "started (core r)" "\<not> stopping ready"
    and w: "set mw \<subseteq> set (manager_waiting r)" "distinct (map fst mw)"
  shows "link_inv (r\<lparr>core := schedule_retry (clear_manager_connection ready), manager_waiting := mw\<rparr>)"
proof -
  have "fst ` set mw \<subseteq> fst ` set (manager_waiting r)" using w(1) by auto
  then have "set (bus_waiting r) \<inter> fst ` set mw = {}"
    using inv unfolding link_inv_def Let_def by blast
  with inv fresh_not_waiting [OF fresh] assms(3-) show ?thesis
    unfolding link_inv_def Let_def schedule_retry_def by auto
qed

lemma link_inv_bus:
  assumes inv: "link_inv r" and w: "serial \<in> set (bus_waiting r)"
    and run: "bus_ready serial result (core r) = (b, req)"
  shows "link_inv (r\<lparr>core := b, bus_waiting := remove1 serial (bus_waiting r),
    manager_waiting := sent req (manager_waiting r)\<rparr>)"
proof -
  have d: "distinct (bus_waiting r)" using inv unfolding link_inv_def Let_def by blast
  then have rem: "set (remove1 serial (bus_waiting r)) = set (bus_waiting r) - {serial}" by simp
  show ?thesis
  proof (cases "serial = connect_serial (core r)")
    case False
    with run have "b = core r" "req = None" by (auto simp: bus_ready_def)
    with inv False rem d show ?thesis unfolding link_inv_def Let_def by (auto simp: sent_def)
  next
    case True
    with inv w have p: "connect_pending (core r)" unfolding link_inv_def Let_def by blast
    with inv have st: "\<not> stopping (core r)" "connection (core r) = None" "started (core r)"
      "manager (core r) = None"
      unfolding link_inv_def Let_def by blast+
    show ?thesis
    proof (cases "\<exists>conn. result = Some (conn, False)")
      case True
      then obtain conn where "result = Some (conn, False)" by blast
      with run \<open>serial = _\<close> st have "b = (core r)\<lparr>connect_pending := False, connection := Some conn,
          connection_closed_handler := True\<rparr>" "req = Some (serial, conn)"
        by (auto simp: bus_ready_def Let_def)
      with inv p st rem d w \<open>serial = _\<close> show ?thesis
        unfolding link_inv_def Let_def by (auto simp: sent_def)
    next
      case False
      with run \<open>serial = _\<close> st have "b = schedule_retry ((core r)\<lparr>connect_pending := False\<rparr>)" "req = None"
        by (auto simp: bus_ready_def Let_def split: option.splits if_splits)
      with inv p st rem d w \<open>serial = _\<close> show ?thesis
        unfolding link_inv_def Let_def by (auto simp: sent_def schedule_retry_def)
    qed
  qed
qed

lemma link_inv_manager:
  assumes inv: "link_inv r" and fresh: "fresh_serial r" and w: "(serial, conn) \<in> set (manager_waiting r)"
    and run: "manager_ready validate serial conn closed result owner objects rnd (core r) = (b, rnd')"
  shows "link_inv (r\<lparr>core := b, manager_waiting := remove1 (serial, conn) (manager_waiting r)\<rparr>)"
proof -
  let ?mw = "remove1 (serial, conn) (manager_waiting r)"
  have d: "distinct (map fst (manager_waiting r))" using inv unfolding link_inv_def Let_def by blast
  then have sub: "set ?mw \<subseteq> set (manager_waiting r)" "distinct (map fst ?mw)"
    and gone: "\<And>c. (serial, c) \<notin> set ?mw"
    using w by (auto simp: distinct_map inj_on_diff dest: inj_onD [of fst _ "(serial, _)" "(serial, conn)"])
  show ?thesis
  proof (cases "stopping (core r) \<or> serial \<noteq> connect_serial (core r) \<or> connection (core r) \<noteq> Some conn \<or> closed")
    case True
    with run have "b = core r" by (simp add: manager_ready_def)
    with inv sub show ?thesis unfolding link_inv_def Let_def by auto
  next
    case False
    then have st: "started (core r)" "\<not> connect_pending (core r)" "\<not> retry_source (core r)"
      using inv unfolding link_inv_def Let_def by auto
    show ?thesis
    proof (cases result)
      case None
      with False run have "b = schedule_retry (clear_manager_connection (bridge_next_connect_serial (core r)))"
        by (simp add: manager_ready_def)
      then show ?thesis using False st sub by (auto intro!: link_inv_cleared [OF inv fresh])
    next
      case (Some mgr)
      with False run have "b = fst (reconcile_all validate owner objects rnd ((core r)\<lparr>manager := Some mgr\<rparr>))"
        by (simp add: manager_ready_def)
      then have "link b = link ((core r)\<lparr>manager := Some mgr\<rparr>)" by simp
      note f = link_fields [OF this, simplified]
      have "set (bus_waiting r) \<inter> fst ` set ?mw = {}"
        using inv sub(1) unfolding link_inv_def Let_def by blast
      with inv False st sub gone show ?thesis
        unfolding link_inv_def Let_def by (auto simp: f)
    qed
  qed
qed

lemma bridge_step_link:
  assumes step: "bridge_step validate r r'" and inv: "link_inv r"
  shows "link_inv r'"
  using step
proof cases
  case (start b req)
  show ?thesis
  proof (cases "started (core r) \<or> stopping (core r)")
    case True
    with start have "r' = r" by (auto simp: l850gl_bridge_start_def sent_def)
    with inv show ?thesis by simp
  next
    case False
    then have "\<not> retry_source (core r)" using inv unfolding link_inv_def Let_def by blast
    then have "(core r)\<lparr>started := True, sms_reconcile_source := True\<rparr> =
        (core r)\<lparr>retry_source := False, started := True, sms_reconcile_source := True\<rparr>"
      by (cases "core r") simp
    with False start show ?thesis
      by (auto simp: l850gl_bridge_start_def intro!: link_inv_connect [OF inv, where x = True])
  qed
next
  case (retry b req)
  then have "started (core r)" "\<not> stopping (core r)" using inv unfolding link_inv_def Let_def by blast+
  moreover from this(1) have "link ((core r)\<lparr>retry_source := False\<rparr>) = link ((core r)\<lparr>retry_source := False,
      started := True, sms_reconcile_source := sms_reconcile_source (core r)\<rparr>)"
    by (cases "core r") (simp add: link_def)
  ultimately show ?thesis
    using retry link_inv_connect [OF inv, where ready = "(core r)\<lparr>retry_source := False\<rparr>"
        and x = "sms_reconcile_source (core r)"]
    by (simp add: retry_connect_cb_def Let_def)
next
  case (bus serial result b req)
  with inv show ?thesis by (simp add: link_inv_bus)
next
  case (manager serial conn closed result owner objects rnd b rnd')
  with inv show ?thesis by (simp add: link_inv_manager)
next
  case (closed conn)
  show ?thesis
  proof (cases "stopping (core r) \<or> connection (core r) \<noteq> Some conn")
    case True
    with closed inv show ?thesis by (simp add: connection_closed_def)
  next
    case False
    then have "started (core r)" using inv unfolding link_inv_def Let_def by auto
    moreover have "distinct (map fst (manager_waiting r))" using inv unfolding link_inv_def Let_def by blast
    ultimately have "link_inv (r\<lparr>core := schedule_retry (clear_manager_connection
        ((bridge_next_connect_serial (core r))\<lparr>connect_pending := False\<rparr>)),
        manager_waiting := manager_waiting r\<rparr>)"
      using False closed by (intro link_inv_cleared [OF inv]) auto
    then show ?thesis using closed False by (simp add: connection_closed_def)
  qed
next
  case stop
  with inv fresh_not_waiting [OF \<open>fresh_serial r\<close>] show ?thesis
    unfolding link_inv_def Let_def by (auto simp: l850gl_bridge_stop_def)
next
  case (sms_timer owned objects rnd b rnd')
  then have "link b = link (core r)" "manager (core r) \<noteq> None \<or> b = core r"
    using inv unfolding link_inv_def Let_def
    by (auto simp: sms_reconcile_cb_def manager_has_owner_def case_prod_beta split: if_splits)
  with link_inv_registry [OF inv, of b] sms_timer show ?thesis by auto
next
  case (owner owned objects rnd b rnd')
  then have "b = (if manager_has_owner owned (core r)
      then fst (reconcile_all validate owned objects rnd (core r)) else clear_modems (core r))"
    by (auto simp: name_owner_changed_def split: if_splits)
  then have "link b = link (core r)" by simp
  with owner show ?thesis by (simp add: link_inv_registry [OF inv])
next
  case (properties rnd obj iface changed invalidated b rnd')
  then have "link b = link (core r)" by (metis fst_conv link_properties_changed)
  with properties show ?thesis by (simp add: link_inv_registry [OF inv])
next
  case (added rnd obj b rnd')
  then have "link b = link (core r)" by (metis fst_conv link_reconcile_object object_added_def)
  with added show ?thesis by (simp add: link_inv_registry [OF inv])
next
  case (interface_plus rnd obj b rnd')
  then have "link b = link (core r)" by (metis fst_conv link_reconcile_object interface_added_def)
  with interface_plus show ?thesis by (simp add: link_inv_registry [OF inv])
next
  case (interface_minus rnd obj b rnd')
  then have "link b = link (core r)" by (metis fst_conv link_reconcile_object interface_removed_def)
  with interface_minus show ?thesis by (simp add: link_inv_registry [OF inv])
qed (use inv in \<open>auto simp: object_removed_def intro!: link_inv_registry\<close>)

lemma bridge_reachable:
  assumes "(bridge_step validate)\<^sup>*\<^sup>* bridge_init r"
  shows "registry_inv (core r)" and "link_inv r"
proof -
  have "registry_inv (core r) \<and> link_inv r" using assms
  proof (induction rule: rtranclp_induct)
    case base
    show ?case
      by (simp add: bridge_init_def l850gl_bridge_new_def registry_inv_def registered_def link_inv_def)
  qed (auto intro: bridge_step_registry bridge_step_link)
  then show "registry_inv (core r)" "link_inv r" by blast+
qed

lemma bridge_step_stopping:
  assumes "bridge_step validate r r'" and "stopping (core r)"
  shows "stopping (core r')"
  using assms(1)
proof cases
  case (properties rnd obj iface changed invalidated b rnd')
  with assms(2) show ?thesis
    using link_fields(3) [OF link_properties_changed [of validate rnd obj iface changed invalidated "core r"]]
    by simp
next
  case (owner owned objects rnd b rnd')
  with assms(2) show ?thesis
    using link_fields(3) [OF link_reconcile_all [of validate owned objects rnd "core r"]]
      link_fields(3) [OF link_clear_modems [of "core r"]]
    by (auto simp: name_owner_changed_def split: if_splits)
next
  case (added rnd obj b rnd')
  with assms(2) show ?thesis
    using link_fields(3) [OF link_reconcile_object [of validate rnd obj "core r"]]
    by (simp add: object_added_def)
next
  case (interface_plus rnd obj b rnd')
  with assms(2) show ?thesis
    using link_fields(3) [OF link_reconcile_object [of validate rnd obj "core r"]]
    by (simp add: interface_added_def)
next
  case (interface_minus rnd obj b rnd')
  with assms(2) show ?thesis
    using link_fields(3) [OF link_reconcile_object [of validate rnd obj "core r"]]
    by (simp add: interface_removed_def)
next
  case (removed obj)
  with assms(2) show ?thesis
    using link_fields(3) [OF link_remove_path [of "object_path obj" "core r"]]
    by (simp add: object_removed_def)
qed (use assms(2) in \<open>auto simp: l850gl_bridge_start_def retry_connect_cb_def bus_ready_def
    manager_ready_def connection_closed_def l850gl_bridge_stop_def sms_reconcile_cb_def
    bridge_connect_def Let_def split: if_splits\<close>)

lemma bridge_steps_stopping:
  "(bridge_step validate)\<^sup>*\<^sup>* r r' \<Longrightarrow> stopping (core r) \<Longrightarrow> stopping (core r')"
  by (induction rule: rtranclp_induct) (auto intro: bridge_step_stopping)

lemma registry_find:
  assumes inv: "registry_inv b" and r: "(p, r) \<in> set (modems_by_path b)"
  shows "l850gl_bridge_find_modem b (Some (modem_id (modems b ! r))) = Some r"
proof -
  let ?P = "\<lambda>q. live (modems b ! q) \<and> modem_id (modems b ! q) = modem_id (modems b ! r)"
  have "live (modems b ! r)" using inv r by (force simp: registry_inv_def)
  have inj: "q = r" if "(p', q) \<in> set (modems_by_path b)" "modem_id (modems b ! q) = modem_id (modems b ! r)"
    for p' q
  proof -
    have "map modem_id (registered b) = map (\<lambda>x. modem_id (modems b ! snd x)) (modems_by_path b)"
      by (simp add: registered_def case_prod_beta)
    then have "inj_on (\<lambda>x. modem_id (modems b ! snd x)) (set (modems_by_path b))"
      using inv by (simp add: registry_inv_def distinct_map)
    from inj_onD [OF this, of "(p', q)" "(p, r)"] that r show ?thesis by simp
  qed
  show ?thesis
  proof (cases "List.find ?P (map snd (modems_by_path b))")
    case None
    with \<open>live (modems b ! r)\<close> r show ?thesis by (force simp: find_None_iff)
  next
    case (Some q)
    then obtain p' where "(p', q) \<in> set (modems_by_path b)" "?P q"
      by (auto simp: find_Some_iff) (metis nth_mem prod.collapse)
    with Some inj show ?thesis by (auto simp: l850gl_bridge_find_modem_def)
  qed
qed

section \<open>Properties\<close>

text \<open>C19: Whatever ModemManager, the bus, the timers and the other components do, in any order, the
  registry holds at most 32 modems under distinct paths; their identifiers are well formed and
  distinct and find them again; it holds exactly the live modems; and the modem admitted as number
  \<open>k\<close> has generation \<open>k\<close>, so no two modems ever share a generation.\<close>

theorem registry_invariant:
  assumes "(bridge_step validate)\<^sup>*\<^sup>* bridge_init r"
  defines "b \<equiv> core r"
  shows "length (modems_by_path b) \<le> MAX_ADMITTED_MODEMS \<and>
    distinct (map fst (modems_by_path b)) \<and> distinct (map modem_id (registered b)) \<and>
    (\<forall>(p, q) \<in> set (modems_by_path b). l850gl_identity_is_valid (Some (modem_id (modems b ! q))) \<and>
      l850gl_bridge_find_modem b (Some (modem_id (modems b ! q))) = Some q) \<and>
    (\<forall>q. q \<in> snd ` set (modems_by_path b) \<longleftrightarrow> q < length (modems b) \<and> live (modems b ! q)) \<and>
    (\<forall>q < length (modems b). unat (generation (modems b ! q)) = Suc q)"
proof (intro conjI)
  have inv: "registry_inv b" using bridge_reachable(1) [OF assms(1)] by (simp add: b_def)
  then show "length (modems_by_path b) \<le> MAX_ADMITTED_MODEMS"
    "distinct (map fst (modems_by_path b))" "distinct (map modem_id (registered b))"
    "\<forall>q. q \<in> snd ` set (modems_by_path b) \<longleftrightarrow> q < length (modems b) \<and> live (modems b ! q)"
    "\<forall>q < length (modems b). unat (generation (modems b ! q)) = Suc q"
    by (simp_all add: registry_inv_def)
  show "\<forall>(p, q) \<in> set (modems_by_path b). l850gl_identity_is_valid (Some (modem_id (modems b ! q))) \<and>
      l850gl_bridge_find_modem b (Some (modem_id (modems b ! q))) = Some q"
    using inv registry_find [OF inv] by (force simp: registry_inv_def registered_def)
qed

definition sample_object :: dbus_object where
  "sample_object = \<lparr>object_path = ''/Modem/0'', is_mm_object = True, object_modem = Some sample_mm,
     object_messaging = Some 3\<rparr>"

definition sample_up :: bridge_run where
  "sample_up = \<lparr>core = fst (l850gl_bridge_start l850gl_bridge_new), bus_waiting = [1], manager_waiting = []\<rparr>"

definition sample_bus :: bridge_run where
  "sample_bus = \<lparr>core = fst (bus_ready 1 (Some (5, False)) (core sample_up)), bus_waiting = [],
     manager_waiting = [(1, 5)]\<rparr>"

definition sample_manager :: bridge_run where
  "sample_manager = \<lparr>core = fst (reconcile_all (\<lambda>_. True) True [sample_object] sample_random
     ((core sample_bus)\<lparr>manager := Some 9\<rparr>)), bus_waiting = [], manager_waiting = []\<rparr>"

lemma sample_bridge_run:
  "snd (l850gl_bridge_start l850gl_bridge_new) = Some 1"
  "snd (bus_ready 1 (Some (5, False)) (core sample_up)) = Some (1, 5)"
  "connect_serial (core sample_bus) = 1" "connection (core sample_bus) = Some 5"
  "\<not> stopping (core sample_bus)" "fresh_serial bridge_init" "fresh_serial sample_bus"
  "fresh_serial sample_manager" "\<not> stopping (core sample_manager)" "started (core sample_manager)"
  "map fst (modems_by_path (core sample_manager)) = [''/Modem/0'']"
  "connection (core sample_manager) = Some 5"
  by code_simp+

lemma sample_bridge_steps: "(bridge_step (\<lambda>_. True))\<^sup>*\<^sup>* bridge_init sample_manager"
proof -
  have "bridge_step (\<lambda>_. True) bridge_init sample_up"
    using start [OF sample_bridge_run(6) prod.collapse [symmetric], of "\<lambda>_. True"] sample_bridge_run(1)
    by (simp add: bridge_init_def sample_up_def sent_def)
  moreover have "bridge_step (\<lambda>_. True) sample_up sample_bus"
    using bus [OF _ prod.collapse [symmetric], of 1 sample_up "\<lambda>_. True" "Some (5, False)"]
      sample_bridge_run(2)
    by (simp add: sample_bus_def sent_def) (simp add: sample_up_def)
  moreover have "bridge_step (\<lambda>_. True) sample_bus sample_manager"
    using manager [OF sample_bridge_run(7) _ prod.collapse [symmetric],
        of 1 5 "\<lambda>_. True" False "Some 9" True "[sample_object]" sample_random] sample_bridge_run(3-5)
    by (simp add: manager_ready_def sample_manager_def) (simp add: sample_bus_def)
  ultimately show ?thesis
    by (meson converse_rtranclp_into_rtranclp rtranclp.rtrancl_refl)
qed

theorem registry_invariant_witness:
  "map fst (modems_by_path (core sample_manager)) = [''/Modem/0''] \<and>
   length (modems_by_path (core sample_manager)) \<le> MAX_ADMITTED_MODEMS"
  using registry_invariant [OF sample_bridge_steps] sample_bridge_run(11) by blast

text \<open>C20: A started bridge never gives up and never connects twice: until it is stopped it is at
  every moment in exactly one of three states, an attempt in flight, a retry timer armed, or a
  connection held whose closing it watches.\<close>

theorem bridge_never_gives_up:
  assumes "(bridge_step validate)\<^sup>*\<^sup>* bridge_init r" and "started (core r)" and "\<not> stopping (core r)"
  defines "b \<equiv> core r"
  shows "connect_pending b \<and> \<not> retry_source b \<and> connection b = None \<or>
    \<not> connect_pending b \<and> retry_source b \<and> connection b = None \<or>
    \<not> connect_pending b \<and> \<not> retry_source b \<and> connection b \<noteq> None \<and> connection_closed_handler b"
  using bridge_reachable(2) [OF assms(1)] assms(2,3) unfolding link_inv_def Let_def b_def by blast

theorem bridge_never_gives_up_witness:
  "connection (core sample_manager) \<noteq> None \<and> connection_closed_handler (core sample_manager)"
  using bridge_never_gives_up [OF sample_bridge_steps sample_bridge_run(10,9)] sample_bridge_run(12)
  by simp

text \<open>C21: Stopping is final: from whatever state the bridge is stopped in, no later answer, timer or
  signal brings back a connection, a modem or a timer, and every modem ever admitted is no longer
  live.\<close>

theorem bridge_stop_final:
  assumes "(bridge_step validate)\<^sup>*\<^sup>* bridge_init r" and "fresh_serial r"
    and "(bridge_step validate)\<^sup>*\<^sup>* (r\<lparr>core := l850gl_bridge_stop (core r)\<rparr>) r'"
  defines "b \<equiv> core r'"
  shows "connection b = None \<and> manager b = None \<and> modems_by_path b = [] \<and> \<not> connect_pending b \<and>
    \<not> retry_source b \<and> \<not> sms_reconcile_source b \<and> bridge_cancelled b \<and>
    (\<forall>m \<in> set (modems b). \<not> live m)"
proof -
  have "(bridge_step validate)\<^sup>*\<^sup>* bridge_init (r\<lparr>core := l850gl_bridge_stop (core r)\<rparr>)"
    using assms(1) stop [OF assms(2)] by (rule rtranclp.rtrancl_into_rtrancl)
  then have reach: "(bridge_step validate)\<^sup>*\<^sup>* bridge_init r'" using assms(3) by (rule rtranclp_trans)
  have "stopping (l850gl_bridge_stop (core r))" by (simp add: l850gl_bridge_stop_def)
  then have s: "stopping b" using bridge_steps_stopping [OF assms(3)] by (simp add: b_def)
  note link = bridge_reachable(2) [OF reach, unfolded link_inv_def Let_def, folded b_def]
  then have *: "connection b = None \<and> manager b = None \<and> modems_by_path b = [] \<and> \<not> connect_pending b \<and>
    \<not> retry_source b \<and> \<not> sms_reconcile_source b \<and> bridge_cancelled b" using s by fastforce
  moreover have "\<forall>m \<in> set (modems b). \<not> live m"
    using bridge_reachable(1) [OF reach, folded b_def] *
    by (auto simp: registry_inv_def in_set_conv_nth)
  ultimately show ?thesis by blast
qed

theorem bridge_stop_final_witness:
  "modems_by_path (l850gl_bridge_stop (core sample_manager)) = [] \<and>
   map live (modems (l850gl_bridge_stop (core sample_manager))) = [False]"
proof -
  have "length (modems (l850gl_bridge_stop (core sample_manager))) = 1" by code_simp
  then show ?thesis
    using bridge_stop_final [OF sample_bridge_steps sample_bridge_run(8) rtranclp.rtrancl_refl]
    by (auto simp: length_Suc_conv)
qed

end
