(* ===== verification/Modem_Contract.thy ===== *)
theory Modem_Contract
  imports Bridge
begin

text \<open>
  What a component that holds modems may rely on while the bridge works: a relation between the
  modem before and after that every operation of the bridge on one modem keeps, and a condition
  on newly admitted modems. The locale lifts such a contract to the registry and shows that every
  handler of the bridge keeps it; the components that lock modems interpret it.
\<close>

section \<open>What the bridge can be told\<close>

text \<open>
  One input of the bridge: a timer, an answer to one of its requests, or a signal of the bus or of
  ModemManager, with the surroundings its handler reads.
\<close>

datatype bridge_event =
    Bridge_Started
  | Retry_Due
  | Bus_Answered u64 "(nat \<times> bool) option"
  | Manager_Answered "cstring \<Rightarrow> bool" u64 nat bool "nat option" bool "dbus_object list" random
  | Connection_Closed nat
  | Bridge_Stopped
  | Object_Added "cstring \<Rightarrow> bool" random dbus_object
  | Object_Removed dbus_object
  | Interface_Added "cstring \<Rightarrow> bool" random dbus_object
  | Interface_Removed "cstring \<Rightarrow> bool" random dbus_object
  | Properties_Changed "cstring \<Rightarrow> bool" random dbus_object cstring "cstring list option" "cstring list option"
  | Name_Owner_Changed "cstring \<Rightarrow> bool" bool "dbus_object list" random
  | Sms_Reconcile_Due "cstring \<Rightarrow> bool" bool "dbus_object list" random

fun bridge_handle :: "bridge_event \<Rightarrow> bridge \<Rightarrow> bridge" where
  "bridge_handle Bridge_Started b = fst (l850gl_bridge_start b)"
| "bridge_handle Retry_Due b = fst (retry_connect_cb b)"
| "bridge_handle (Bus_Answered serial bus) b = fst (bus_ready serial bus b)"
| "bridge_handle (Manager_Answered validate serial conn closed mgr owner objects rnd) b =
     fst (manager_ready validate serial conn closed mgr owner objects rnd b)"
| "bridge_handle (Connection_Closed conn) b = connection_closed conn b"
| "bridge_handle Bridge_Stopped b = l850gl_bridge_stop b"
| "bridge_handle (Object_Added validate rnd obj) b = fst (object_added validate rnd obj b)"
| "bridge_handle (Object_Removed obj) b = object_removed obj b"
| "bridge_handle (Interface_Added validate rnd obj) b = fst (interface_added validate rnd obj b)"
| "bridge_handle (Interface_Removed validate rnd obj) b = fst (interface_removed validate rnd obj b)"
| "bridge_handle (Properties_Changed validate rnd obj iface changed invalidated) b =
     fst (properties_changed validate rnd obj iface changed invalidated b)"
| "bridge_handle (Name_Owner_Changed validate owner objects rnd) b =
     fst (name_owner_changed validate owner objects rnd b)"
| "bridge_handle (Sms_Reconcile_Due validate owner objects rnd) b =
     fst (sms_reconcile_cb validate owner objects rnd b)"

lemma registry_handle: "registry_inv b \<Longrightarrow> registry_inv (bridge_handle ev b)"
  by (cases ev) (simp_all add: registry_handlers)

section \<open>The contract\<close>

definition registry_change :: "(modem \<Rightarrow> modem \<Rightarrow> bool) \<Rightarrow> (modem \<Rightarrow> bool) \<Rightarrow> bridge \<Rightarrow> bridge \<Rightarrow> bool" where
  "registry_change rely fresh b b' \<longleftrightarrow> length (modems b) \<le> length (modems b') \<and>
     (\<forall>r < length (modems b). rely (modems b ! r) (modems b' ! r)) \<and>
     (\<forall>r. length (modems b) \<le> r \<and> r < length (modems b') \<longrightarrow> fresh (modems b' ! r))"

lemma modems_connecting [simp]:
  "modems (bridge_next_connect_serial b) = modems b" "modems (schedule_retry b) = modems b"
  "modems (fst (bridge_connect b)) = modems b"
  by (simp_all add: bridge_next_connect_serial_def schedule_retry_def bridge_connect_def Let_def)

locale modem_contract =
  fixes rely :: "modem \<Rightarrow> modem \<Rightarrow> bool" and fresh :: "modem \<Rightarrow> bool"
  assumes rely_refl: "rely m m"
    and rely_trans: "rely m m1 \<Longrightarrow> rely m1 m2 \<Longrightarrow> rely m m2"
    and rely_fresh: "fresh m \<Longrightarrow> rely m m' \<Longrightarrow> fresh m'"
    and new_fresh: "fresh (modem_new mm i gen)"
    and removed: "rely m (modem_mark_removed m)"
    and sim_request: "rely m (fst (query_sim m))"
    and bearer_request: "rely m (fst (query_bearers m))"
    and list_query: "rely m (fst (query_sms m))"
    and messaging: "rely m (fst (reconcile_messaging current force_epoch m))"
begin

lemma change_same: "modems b' = modems b \<Longrightarrow> registry_change rely fresh b b'"
  by (auto simp: registry_change_def rely_refl)

lemma change_cong:
  "modems c = modems b \<Longrightarrow> modems c' = modems b' \<Longrightarrow>
   registry_change rely fresh c c' = registry_change rely fresh b b'"
  by (simp add: registry_change_def)

lemma change_trans:
  assumes "registry_change rely fresh a b" and "registry_change rely fresh b c"
  shows "registry_change rely fresh a c"
  unfolding registry_change_def
proof (intro conjI allI impI)
  show "length (modems a) \<le> length (modems c)" using assms by (simp add: registry_change_def)
  show "rely (modems a ! r) (modems c ! r)" if "r < length (modems a)" for r
    using assms that rely_trans [of "modems a ! r" "modems b ! r"] by (simp add: registry_change_def)
  show "fresh (modems c ! r)" if "length (modems a) \<le> r \<and> r < length (modems c)" for r
    using assms that by (cases "r < length (modems b)") (auto simp: registry_change_def intro: rely_fresh)
qed

lemma change_on_modem:
  assumes "r < length (modems b) \<Longrightarrow> rely (modems b ! r) (f (modems b ! r))"
  shows "registry_change rely fresh b (on_modem r f b)"
  using assms by (auto simp: registry_change_def on_modem_nth rely_refl)

lemma change_then:
  "registry_change rely fresh b c \<Longrightarrow> (\<And>m. rely m (f m)) \<Longrightarrow> registry_change rely fresh b (on_modem r f c)"
  by (blast intro: change_trans change_on_modem)

lemma change_fold:
  assumes "\<And>m. rely m (f m)"
  shows "registry_change rely fresh b (fold (\<lambda>(_, r). on_modem r f) t b)"
proof (induction t arbitrary: b)
  case (Cons x t)
  have "registry_change rely fresh b (on_modem (snd x) f b)" by (intro change_on_modem assms)
  with Cons show ?case by (auto simp: case_prod_beta intro: change_trans)
qed (simp add: change_same)

lemma change_remove: "registry_change rely fresh b (remove_path path b)"
proof (cases "map_of (modems_by_path b) path")
  case (Some r)
  have "registry_change rely fresh b (on_modem r modem_mark_removed b)" by (intro change_on_modem removed)
  with Some show ?thesis by (simp add: remove_path_def registry_change_def)
qed (simp add: remove_path_def change_same)

lemma change_clear: "registry_change rely fresh b (clear_modems b)"
  using change_fold [OF removed, of b "modems_by_path b"] by (simp add: clear_modems_def registry_change_def)

lemma change_admit: "registry_change rely fresh b (admit_modem path mm msg i b)"
proof -
  let ?m = "fst (query_bearers (fst (query_sim (modem_new mm i (next_generation b + 1)))))"
  have "rely (modem_new mm i (next_generation b + 1)) (fst (reconcile_messaging msg False ?m))"
    by (blast intro: rely_trans sim_request bearer_request messaging)
  with rely_fresh [OF new_fresh] have "fresh (fst (reconcile_messaging msg False ?m))" by blast
  then show ?thesis
    by (auto simp: registry_change_def admit_modem_def Let_def nth_append less_Suc_eq_le rely_refl)
qed

lemma change_reconcile: "registry_change rely fresh b (fst (reconcile_object validate rnd obj b))"
proof -
  have "registry_change rely fresh b
      (on_modem r (\<lambda>m. fst (reconcile_messaging (object_messaging obj) False m)) b)" for r
    by (intro change_on_modem messaging)
  then show ?thesis
    using change_remove [of b] change_admit [of b]
    by (auto simp: reconcile_object_def Let_def new_modem_id_def change_same
        split: option.splits prod.splits)
qed

lemma change_objects: "registry_change rely fresh b (fst (reconcile_objects validate rnd objects b))"
proof (induction objects arbitrary: rnd b)
  case (Cons obj objects)
  obtain b' rnd' where r: "reconcile_object validate rnd obj b = (b', rnd')"
    by (cases "reconcile_object validate rnd obj b")
  then have "registry_change rely fresh b b'" using change_reconcile [of b validate rnd obj] by simp
  with Cons [of b' rnd'] show ?case by (auto simp: r intro: change_trans)
qed (simp add: change_same)

lemma change_all: "registry_change rely fresh b (fst (reconcile_all validate owner objects rnd b))"
  by (simp add: reconcile_all_def change_objects change_same)

lemma change_disconnect:
  assumes "modems b1 = modems b"
  shows "registry_change rely fresh b (clear_manager_connection b1)"
  using assms change_clear [of "b1\<lparr>connection_closed_handler := False\<rparr>"]
  by (simp add: clear_manager_connection_def registry_change_def)

lemma change_properties:
  "registry_change rely fresh b (fst (properties_changed validate rnd obj iface changed invalidated b))"
  using change_reconcile [of b validate rnd obj]
  by (auto simp: properties_changed_def Let_def split: prod.splits option.splits
      intro!: change_then sim_request bearer_request messaging)

lemma change_timer: "registry_change rely fresh b (fst (sms_reconcile_cb validate owner objects rnd b))"
proof -
  let ?f = "\<lambda>m. if live m \<and> messaging m \<noteq> None then fst (query_sms m) else m"
  have "registry_change rely fresh c (fold (\<lambda>(_, r). on_modem r ?f) t c)" for t c
    by (rule change_fold) (simp add: list_query rely_refl)
  then show ?thesis
    using change_all [of b validate owner objects rnd]
    by (auto simp: sms_reconcile_cb_def change_same case_prod_beta intro: change_trans)
qed

lemma bridge_handlers:
  "registry_change rely fresh b (fst (l850gl_bridge_start b))"
  "registry_change rely fresh b (fst (retry_connect_cb b))"
  "registry_change rely fresh b (fst (bus_ready serial bus b))"
  "registry_change rely fresh b (fst (manager_ready validate serial conn closed mgr owner objects rnd b))"
  "registry_change rely fresh b (connection_closed conn b)"
  "registry_change rely fresh b (l850gl_bridge_stop b)"
  "registry_change rely fresh b (fst (object_added validate rnd obj b))"
  "registry_change rely fresh b (object_removed obj b)"
  "registry_change rely fresh b (fst (interface_added validate rnd obj b))"
  "registry_change rely fresh b (fst (interface_removed validate rnd obj b))"
  "registry_change rely fresh b (fst (properties_changed validate rnd obj iface changed invalidated b))"
  "registry_change rely fresh b (fst (name_owner_changed validate owner objects rnd b))"
  "registry_change rely fresh b (fst (sms_reconcile_cb validate owner objects rnd b))"
proof -
  have mgr: "registry_change rely fresh b (fst (reconcile_all validate owner objects rnd (b\<lparr>manager := Some m\<rparr>)))" for m
    using change_all [of "b\<lparr>manager := Some m\<rparr>"] by (simp add: registry_change_def)
  have off: "registry_change rely fresh b (schedule_retry (clear_manager_connection c))" if "modems c = modems b" for c
    using change_disconnect [OF that] by (simp add: registry_change_def)
  show "registry_change rely fresh b (fst (l850gl_bridge_start b))"
    "registry_change rely fresh b (fst (retry_connect_cb b))"
    "registry_change rely fresh b (fst (bus_ready serial bus b))"
    by (intro change_same; simp add: l850gl_bridge_start_def retry_connect_cb_def bus_ready_def
        Let_def split: option.split prod.split)+
  show "registry_change rely fresh b (fst (manager_ready validate serial conn closed mgr owner objects rnd b))"
    "registry_change rely fresh b (connection_closed conn b)"
    using mgr off by (auto simp: manager_ready_def connection_closed_def change_same split: option.split)
  show "registry_change rely fresh b (l850gl_bridge_stop b)"
    by (auto simp: l850gl_bridge_stop_def change_same intro!: change_disconnect)
qed (simp_all add: object_added_def object_removed_def interface_added_def interface_removed_def
    name_owner_changed_def change_reconcile change_remove change_clear change_all change_properties change_timer)

lemma change_handle: "registry_change rely fresh b (bridge_handle ev b)"
  by (cases ev) (simp_all add: bridge_handlers)

end

end
