(* ===== verification/Expert_Mutation.thy ===== *)
theory Expert_Mutation
  imports Bridge Errors Mutation_Policy
begin

text \<open>
  The cell lock coordinator (\<open>ubus_glib.c\<close>): set the frequency lock, verify it twice in NVM,
  reset the modem, wait for the replacement object on the same physical device, wait for its
  registration, and verify NVM and the serving cell again. Every operation is a heap object in
  the table \<open>l850_mutation_operations\<close> from its creation to its release; a handler gets the
  operation by value and stores it back or releases it. Modems are the heap of the bridge.

  The trace records, newest first, the operations started, the commands sent, the answers
  received and the replies; it is not part of the program's state. \<open>pending_call\<close> is the asynchronous call GLib holds: its
  callback and the modem it was sent to. A callback reads the clock as one instant.
\<close>

section \<open>State\<close>

datatype mutation_type = L850_MUTATION_SET | L850_MUTATION_CLEAR

datatype mutation_phase =
    PHASE_PROTOCOL_PROBE | PHASE_SET_COMMAND | PHASE_PRE_RESET_NVM_VERIFY | PHASE_RESET_COMMAND
  | PHASE_REPROBE | PHASE_REGISTRATION | PHASE_NVM_VERIFY | PHASE_CELL_VERIFY

datatype callback = PROBE_READY | SET_READY | NVM_READY | RESET_READY | CELL_READY

record mutation_operation =
  op_type :: mutation_type
  op_phase :: mutation_phase
  original :: nat
  replacement :: "nat option"
  op_cancelled :: bool
  original_generation :: u32
  replacement_generation :: u32
  timeout_source :: bool
  poll_source :: bool
  phase_deadline :: int
  op_physdev :: cstring
  set_command :: cstring
  op_earfcn :: u32
  op_pci :: u16
  op_band :: u16
  op_verifier :: nvm_verifier
  verification_stage :: "cstring option"
  op_has_pci :: bool
  timed_out :: bool
  transport_lost :: bool
  deferred :: bool
  command_pending :: bool
  set_dispatched :: bool
  configuration_acknowledged :: bool
  reset_dispatched :: bool
  pending_call :: "(callback \<times> nat) option"

text \<open>
  A reply to a deferred request. A failure carries state, code, whether it is retryable, the
  modem it names, whether that is the replacement, whether the configuration was acknowledged
  and the verification stage; a success carries the kind of operation, the replacement and the
  serving cell.
\<close>

datatype reply =
    Failure cstring cstring bool nat bool bool "cstring option"
  | Success mutation_type nat "cell option"

datatype event =
    Started nat mutation_operation
  | Command nat callback nat cstring
  | Answer nat callback nat "gerror option" "cstring option"
  | Reply nat reply
  | Refusal "nat option" cstring bool u32

record ubus =
  ubus_bridge :: bridge
  connected :: bool
  context_initialized :: bool
  ubus_stopping :: bool
  mutation_operations :: "(nat \<times> mutation_operation) list"
  scan_modems :: "nat list"
  carrier_modems :: "nat list"
  next_operation :: nat
  trace :: "event list"

text \<open>What a callback reads of its surroundings.\<close>

record callback_env =
  around :: surroundings
  built_with_mm_1_24 :: bool
  memory_left :: bool
  monotonic_now :: int

definition L850_REPROBE_TIMEOUT_SECONDS :: int where "L850_REPROBE_TIMEOUT_SECONDS = 45"
definition L850_REGISTRATION_TIMEOUT_SECONDS :: int where "L850_REGISTRATION_TIMEOUT_SECONDS = 60"
definition L850_NVM_VERIFY_TIMEOUT_SECONDS :: int where "L850_NVM_VERIFY_TIMEOUT_SECONDS = 10"
definition L850_POST_MUTATION_COOLDOWN_SECONDS :: int where
  "L850_POST_MUTATION_COOLDOWN_SECONDS = 60"

abbreviation modem_at :: "ubus \<Rightarrow> nat \<Rightarrow> modem" where
  "modem_at u r \<equiv> modems (ubus_bridge u) ! r"

definition with_modem :: "nat \<Rightarrow> (modem \<Rightarrow> modem) \<Rightarrow> ubus \<Rightarrow> ubus" where
  "with_modem r f u = u\<lparr>ubus_bridge := on_modem r f (ubus_bridge u)\<rparr>"

definition emit :: "event \<Rightarrow> ubus \<Rightarrow> ubus" where
  "emit e u = u\<lparr>trace := e # trace u\<rparr>"

definition store :: "nat \<Rightarrow> mutation_operation \<Rightarrow> ubus \<Rightarrow> ubus" where
  "store k op u = u\<lparr>mutation_operations := AList.update k op (mutation_operations u)\<rparr>"

text \<open>\<open>mm_modem_command\<close>: the command goes out and its callback will run once.\<close>

definition mm_modem_command ::
    "nat \<Rightarrow> mutation_operation \<Rightarrow> callback \<Rightarrow> nat \<Rightarrow> cstring \<Rightarrow> ubus \<Rightarrow> ubus" where
  "mm_modem_command k op cb r command u =
     store k (op\<lparr>pending_call := Some (cb, r)\<rparr>) (emit (Command k cb r command) u)"

section \<open>Completion\<close>

definition l850_mutation_response_modem :: "mutation_operation \<Rightarrow> nat" where
  "l850_mutation_response_modem op = (case replacement op of Some r \<Rightarrow> r | None \<Rightarrow> original op)"

definition l850_mutation_apply_cooldown :: "int \<Rightarrow> modem \<Rightarrow> modem" where
  "l850_mutation_apply_cooldown now m =
     (let deadline = now + L850_POST_MUTATION_COOLDOWN_SECONDS * MICROSECONDS_PER_SECOND
      in m\<lparr>advanced_cooldown_until := max (advanced_cooldown_until m) deadline\<rparr>)"

definition l850_mutation_release_modem :: "int \<Rightarrow> bool \<Rightarrow> modem \<Rightarrow> modem" where
  "l850_mutation_release_modem now apply_cooldown m =
     (let m1 = (if apply_cooldown then l850_mutation_apply_cooldown now m else m)
      in if mutation_kind m1 = MUTATION_L850
         then m1\<lparr>mutation_cancellable := None, mutation_busy := False, mutation_kind := MUTATION_NONE\<rparr>
         else m1)"

definition l850_mutation_operation_free :: "int \<Rightarrow> nat \<Rightarrow> mutation_operation \<Rightarrow> ubus \<Rightarrow> ubus" where
  "l850_mutation_operation_free now k op u =
     (let release = l850_mutation_release_modem now (set_dispatched op);
          u1 = (case replacement op of None \<Rightarrow> u | Some r \<Rightarrow> with_modem r release u);
          u2 = (if Some (original op) \<noteq> replacement op then with_modem (original op) release u1 else u1)
      in u2\<lparr>mutation_operations := AList.delete k (mutation_operations u2)\<rparr>)"

definition l850_mutation_complete_buffer ::
    "int \<Rightarrow> nat \<Rightarrow> mutation_operation \<Rightarrow> reply \<Rightarrow> ubus \<Rightarrow> ubus" where
  "l850_mutation_complete_buffer now k op buffer u =
     l850_mutation_operation_free now k (op\<lparr>deferred := False\<rparr>)
       (if deferred op \<and> connected u \<and> context_initialized u \<and> \<not> ubus_stopping u
        then emit (Reply k buffer) u else u)"

definition l850_mutation_complete_failure ::
    "int \<Rightarrow> nat \<Rightarrow> mutation_operation \<Rightarrow> cstring \<Rightarrow> cstring \<Rightarrow> bool \<Rightarrow> ubus \<Rightarrow> ubus" where
  "l850_mutation_complete_failure now k op state err retry u =
     l850_mutation_complete_buffer now k op
       (Failure state err retry (l850_mutation_response_modem op) (replacement op \<noteq> None)
          (configuration_acknowledged op) (verification_stage op)) u"

text \<open>Only called with a replacement.\<close>

definition l850_mutation_complete_success ::
    "int \<Rightarrow> nat \<Rightarrow> mutation_operation \<Rightarrow> cell option \<Rightarrow> ubus \<Rightarrow> ubus" where
  "l850_mutation_complete_success now k op cell u =
     l850_mutation_complete_buffer now k op
       (Success (op_type op) (l850_mutation_response_modem op)
          (if op_type op = L850_MUTATION_SET then cell else None)) u"

section \<open>Guards\<close>

definition l850_mutation_error_is_uncertain :: "mutation_operation \<Rightarrow> gerror option \<Rightarrow> bool" where
  "l850_mutation_error_is_uncertain op error =
     (let remote = remote_of error in
      timed_out op \<or> transport_lost op \<or> advanced_error_has_unknown_outcome error remote \<or>
      remote_error_has_suffix remote ''.Core.Cancelled'')"

definition l850_mutation_original_is_valid ::
    "surroundings \<Rightarrow> mutation_operation \<Rightarrow> nat \<Rightarrow> ubus \<Rightarrow> bool" where
  "l850_mutation_original_is_valid w op source u =
     (let m = modem_at u (original op) in
      if \<not> live m \<or> generation m \<noteq> original_generation op \<or> source \<noteq> mm_object (proxy m) \<or>
         \<not> attest_mutation_target w m
      then False else mm_physdev (proxy m) = Some (op_physdev op))"

definition l850_mutation_replacement_is_valid ::
    "surroundings \<Rightarrow> mutation_operation \<Rightarrow> nat \<Rightarrow> ubus \<Rightarrow> bool" where
  "l850_mutation_replacement_is_valid w op source u =
     (case replacement op of
        None \<Rightarrow> False
      | Some r \<Rightarrow>
          (let m = modem_at u r in
           if \<not> live m \<or> generation m \<noteq> replacement_generation op \<or> source \<noteq> mm_object (proxy m) \<or>
              \<not> attest_mutation_target w m
           then False else mm_physdev (proxy m) = Some (op_physdev op)))"

definition object_of :: "nat \<Rightarrow> ubus \<Rightarrow> nat" where
  "object_of r u = mm_object (proxy (modem_at u r))"

definition l850_mutation_replace_cancellable :: "mutation_operation \<Rightarrow> mutation_operation" where
  "l850_mutation_replace_cancellable op = op\<lparr>op_cancelled := False\<rparr>"

section \<open>Reset and verification\<close>

definition l850_mutation_start_reprobe :: "int \<Rightarrow> nat \<Rightarrow> mutation_operation \<Rightarrow> ubus \<Rightarrow> ubus" where
  "l850_mutation_start_reprobe now k op u =
     store k ((l850_mutation_replace_cancellable (op\<lparr>op_phase := PHASE_REPROBE,
       phase_deadline := now + L850_REPROBE_TIMEOUT_SECONDS * MICROSECONDS_PER_SECOND\<rparr>))
       \<lparr>poll_source := True\<rparr>) u"

definition answered :: "mutation_operation \<Rightarrow> mutation_operation" where
  "answered op = op\<lparr>command_pending := False, pending_call := None\<rparr>"

definition l850_mutation_reset_ready ::
    "callback_env \<Rightarrow> nat \<Rightarrow> mutation_operation \<Rightarrow> gerror option \<Rightarrow> ubus \<Rightarrow> ubus" where
  "l850_mutation_reset_ready e k op0 error u =
     (let op = answered op0; now = monotonic_now e in
      if timed_out op \<or> transport_lost op
      then l850_mutation_complete_failure now k op ''outcome_unknown'' ''outcome_unknown'' False u
      else
        (let (err, finish) =
           (if error \<noteq> None \<and> l850_mutation_error_is_uncertain op error
            then (''operation_failed'', FINISH_UNCERTAIN)
            else if error \<noteq> None
            then (let err = fst (l850_normalize_error (built_with_mm_1_24 e) error False False)
                  in (err, if err = ''unavailable'' then FINISH_UNCLASSIFIED_FAILURE
                            else FINISH_DEFINITE_FAILURE))
            else (''operation_failed'', FINISH_CLEAN))
         in if \<not> reset_finish_should_reprobe finish
            then l850_mutation_complete_failure now k op ''lock_applied_reset_required'' err False u
            else l850_mutation_start_reprobe now k op u))"

definition l850_mutation_start_reset :: "callback_env \<Rightarrow> nat \<Rightarrow> mutation_operation \<Rightarrow> ubus \<Rightarrow> ubus" where
  "l850_mutation_start_reset e k op u =
     (if \<not> l850_mutation_original_is_valid (around e) op (object_of (original op) u) u
      then l850_mutation_complete_failure (monotonic_now e) k op
             ''lock_applied_reset_required'' ''device_gone'' False u
      else mm_modem_command k
             (l850_mutation_replace_cancellable (op\<lparr>op_phase := PHASE_RESET_COMMAND,
                reset_dispatched := True, command_pending := True\<rparr>))
             RESET_READY (original op) reset_command u)"

text \<open>The replacement is present whenever the phase is not the one before the reset.\<close>

definition l850_mutation_start_nvm_command :: "nat \<Rightarrow> mutation_operation \<Rightarrow> ubus \<Rightarrow> ubus" where
  "l850_mutation_start_nvm_command k op u =
     (let r = (if op_phase op = PHASE_PRE_RESET_NVM_VERIFY then original op else the (replacement op))
      in mm_modem_command k (l850_mutation_replace_cancellable (op\<lparr>command_pending := True\<rparr>))
           NVM_READY r nvm_query_command u)"

definition l850_mutation_start_nvm_verification ::
    "int \<Rightarrow> nat \<Rightarrow> mutation_operation \<Rightarrow> nvm_verify_stage \<Rightarrow> ubus \<Rightarrow> ubus" where
  "l850_mutation_start_nvm_verification now k op st u =
     l850_mutation_start_nvm_command k
       (op\<lparr>op_phase := (if st = VERIFY_PRE_RESET then PHASE_PRE_RESET_NVM_VERIFY else PHASE_NVM_VERIFY),
          phase_deadline := now + L850_NVM_VERIFY_TIMEOUT_SECONDS * MICROSECONDS_PER_SECOND,
          verification_stage := Some (if st = VERIFY_PRE_RESET then ''pre_reset_nvm'' else ''post_reset_nvm''),
          op_verifier := the (nvm_verifier_init (Some (op_verifier op)) st)\<rparr>) u"

definition l850_mutation_set_ready ::
    "callback_env \<Rightarrow> nat \<Rightarrow> mutation_operation \<Rightarrow> nat \<Rightarrow> gerror option \<Rightarrow> cstring option \<Rightarrow> ubus \<Rightarrow> ubus" where
  "l850_mutation_set_ready e k op0 source error response u =
     (let op = answered op0; now = monotonic_now e; m = modem_at u (original op) in
      if l850_mutation_error_is_uncertain op error \<or> \<not> live m \<or> source \<noteq> mm_object (proxy m) \<or>
         generation m \<noteq> original_generation op
      then l850_mutation_complete_failure now k op ''outcome_unknown'' ''outcome_unknown'' False u
      else if error \<noteq> None \<or> response = None
      then (let (err, retry) = l850_normalize_error (built_with_mm_1_24 e) error False False
            in l850_mutation_complete_failure now k op err
                 (if err = ''unavailable'' then ''operation_failed'' else err) retry u)
      else if \<not> set_response_is_success response
      then l850_mutation_complete_failure now k op ''malformed_response'' ''malformed_response'' False u
      else l850_mutation_start_nvm_verification now k (op\<lparr>configuration_acknowledged := True\<rparr>)
             VERIFY_PRE_RESET u)"

section \<open>Replacement\<close>

text \<open>The outer \<open>None\<close> is the ambiguous case; the loop over the snapshot stops at a second match.\<close>

fun replacement_loop :: "surroundings \<Rightarrow> mutation_operation \<Rightarrow> ubus \<Rightarrow> nat list \<Rightarrow> nat option \<Rightarrow> nat option option" where
  "replacement_loop w op u [] found = Some found"
| "replacement_loop w op u (r # rest) found =
     (let m = modem_at u r in
      if r = original op \<or> generation m = original_generation op
      then replacement_loop w op u rest found
      else if mm_physdev (proxy m) \<noteq> Some (op_physdev op) \<or> \<not> attest_mutation_target w m
      then replacement_loop w op u rest found
      else if found \<noteq> None then None
      else replacement_loop w op u rest (Some r))"

definition l850_mutation_find_replacement ::
    "surroundings \<Rightarrow> mutation_operation \<Rightarrow> ubus \<Rightarrow> nat option option" where
  "l850_mutation_find_replacement w op u =
     replacement_loop w op u (l850gl_bridge_snapshot_modems (ubus_bridge u)) None"

definition claim_modem :: "modem \<Rightarrow> modem" where
  "claim_modem m = m\<lparr>mutation_busy := True, mutation_kind := MUTATION_L850,
     mutation_cancellable := Some False\<rparr>"

text \<open>
  The branches of the poll by phase. A source that returns \<open>G_SOURCE_CONTINUE\<close> stays armed.
\<close>

definition poll_verify :: "callback_env \<Rightarrow> nat \<Rightarrow> mutation_operation \<Rightarrow> ubus \<Rightarrow> ubus" where
  "poll_verify e k op0 u =
     (let op = op0\<lparr>poll_source := False\<rparr>; now = monotonic_now e;
          pre_reset = (op_phase op = PHASE_PRE_RESET_NVM_VERIFY);
          source = (if pre_reset then object_of (original op) u else object_of (the (replacement op)) u)
      in if phase_deadline op \<le> now
         then l850_mutation_complete_failure now k op
                (if pre_reset then ''lock_applied_reset_required'' else ''verification_mismatch'')
                ''verification_mismatch'' False u
         else if (pre_reset \<and> \<not> l850_mutation_original_is_valid (around e) op source u) \<or>
            (\<not> pre_reset \<and> \<not> l850_mutation_replacement_is_valid (around e) op source u)
         then l850_mutation_complete_failure now k op
                (if pre_reset then ''lock_applied_reset_required'' else ''outcome_unknown'')
                ''outcome_unknown'' False u
         else l850_mutation_start_nvm_command k op u)"

definition poll_reprobe :: "callback_env \<Rightarrow> nat \<Rightarrow> mutation_operation \<Rightarrow> ubus \<Rightarrow> ubus" where
  "poll_reprobe e k op u =
     (let now = monotonic_now e; off = op\<lparr>poll_source := False\<rparr> in
      case l850_mutation_find_replacement (around e) op u of
        None \<Rightarrow>
          l850_mutation_complete_failure now k off
            ''verification_mismatch'' ''verification_mismatch'' False u
      | Some (Some r) \<Rightarrow>
          if mutation_busy (modem_at u r)
          then l850_mutation_complete_failure now k off ''outcome_unknown'' ''busy'' False u
          else
            (let op1 = off\<lparr>replacement := Some r,
                   replacement_generation := generation (modem_at u r), op_phase := PHASE_REGISTRATION,
                   phase_deadline := now + L850_REGISTRATION_TIMEOUT_SECONDS * MICROSECONDS_PER_SECOND\<rparr>;
                 u1 = with_modem r claim_modem u
             in if modem_is_registered (modem_at u1 r)
                then l850_mutation_start_nvm_verification now k op1 VERIFY_POST_RESET u1
                else store k (op1\<lparr>poll_source := True\<rparr>) u1)
      | Some None \<Rightarrow>
          if phase_deadline op \<le> now
          then l850_mutation_complete_failure now k off ''reprobe_timeout'' ''reprobe_timeout'' False u
          else u)"

definition poll_registration :: "callback_env \<Rightarrow> nat \<Rightarrow> mutation_operation \<Rightarrow> ubus \<Rightarrow> ubus" where
  "poll_registration e k op u =
     (let now = monotonic_now e; off = op\<lparr>poll_source := False\<rparr>; r = the (replacement op) in
      if \<not> l850_mutation_replacement_is_valid (around e) op (object_of r u) u
      then l850_mutation_complete_failure now k off ''outcome_unknown'' ''outcome_unknown'' False u
      else if modem_is_registered (modem_at u r)
      then l850_mutation_start_nvm_verification now k off VERIFY_POST_RESET u
      else if phase_deadline op \<le> now
      then l850_mutation_complete_failure now k off
             ''registration_timeout'' ''registration_timeout'' False u
      else u)"

definition l850_mutation_poll :: "callback_env \<Rightarrow> nat \<Rightarrow> mutation_operation \<Rightarrow> ubus \<Rightarrow> ubus" where
  "l850_mutation_poll e k op u =
     (let now = monotonic_now e; off = op\<lparr>poll_source := False\<rparr> in
      if timed_out op \<or> transport_lost op \<or> ubus_stopping u
      then l850_mutation_complete_failure now k off
             (if op_phase op = PHASE_PRE_RESET_NVM_VERIFY then ''lock_applied_reset_required''
              else ''outcome_unknown'') ''outcome_unknown'' False u
      else if op_phase op = PHASE_PRE_RESET_NVM_VERIFY \<or> op_phase op = PHASE_NVM_VERIFY
      then poll_verify e k op u
      else if op_phase op = PHASE_REPROBE then poll_reprobe e k op u
      else if op_phase op = PHASE_REGISTRATION then poll_registration e k op u
      else l850_mutation_complete_failure now k off ''outcome_unknown'' ''outcome_unknown'' False u)"

section \<open>Verification answers\<close>

text \<open>The loop over the scan: \<open>None\<close> when a band is not supported, else the last serving cell.\<close>

fun scan_serving :: "modem \<Rightarrow> cell list \<Rightarrow> cell option \<Rightarrow> cell option option" where
  "scan_serving m [] found = Some found"
| "scan_serving m (c # cells) found =
     (if \<not> lte_band_is_supported m (cell_band c) then None
      else scan_serving m cells (if serving c then Some c else found))"

text \<open>The end of the handler of the scan, once the report is parsed.\<close>

definition cell_scan_read ::
    "callback_env \<Rightarrow> nat \<Rightarrow> mutation_operation \<Rightarrow> cell list \<Rightarrow> ubus \<Rightarrow> ubus" where
  "cell_scan_read e k op scan u =
     (let now = monotonic_now e; r = the (replacement op);
          mismatch = l850_mutation_complete_failure now k op
            ''verification_mismatch'' ''verification_mismatch'' False
      in case scan_serving (modem_at u r) scan None of
           Some (Some c) \<Rightarrow>
             if cell_earfcn c \<noteq> op_earfcn op \<or> (op_has_pci op \<and> cell_pci c \<noteq> op_pci op)
             then mismatch u
             else
               (let (stored, m) = serving_cell_cache_store (modem_at u r) (cell_earfcn c)
                      (cell_pci c) (cell_band c) (Of_Int (rsrp_dbm c)) True (Of_Tenths (rsrq_tenths_db c)) True now
                      ''expert-postcondition'';
                    u1 = with_modem r (\<lambda>_. m) u
                in if \<not> stored then mismatch u1
                   else l850_mutation_complete_success now k op (Some c) u1)
         | _ \<Rightarrow> mismatch u)"

definition l850_mutation_cell_ready ::
    "callback_env \<Rightarrow> nat \<Rightarrow> mutation_operation \<Rightarrow> nat \<Rightarrow> gerror option \<Rightarrow> cstring option \<Rightarrow> ubus \<Rightarrow> ubus" where
  "l850_mutation_cell_ready e k op0 source error response u =
     (let op = answered op0; now = monotonic_now e in
      if \<not> l850_mutation_replacement_is_valid (around e) op source u \<or>
         l850_mutation_error_is_uncertain op error \<or> error \<noteq> None \<or> response = None
      then l850_mutation_complete_failure now k op ''outcome_unknown'' ''outcome_unknown'' False u
      else
        (case cell_parse (memory_left e) response (Some []) of
           (CELL_OK, Some scan) \<Rightarrow> cell_scan_read e k op scan u
         | _ \<Rightarrow> l850_mutation_complete_failure now k op
                  ''verification_mismatch'' ''verification_mismatch'' False u))"

text \<open>The end of the handler of an NVM read, from the comparison of the registers on.\<close>

definition nvm_registers_read ::
    "callback_env \<Rightarrow> nat \<Rightarrow> mutation_operation \<Rightarrow> lock_state \<Rightarrow> ubus \<Rightarrow> ubus" where
  "nvm_registers_read e k op lock u =
     (let now = monotonic_now e;
          pre_reset = (op_phase op = PHASE_PRE_RESET_NVM_VERIFY);
          matches = lock_state_matches (Some lock) (op_type op = L850_MUTATION_CLEAR)
            (op_earfcn op) (op_has_pci op) (op_pci op);
          (decision, v) = nvm_verifier_observe (Some (op_verifier op))
            (if matches then OBSERVATION_MATCH else OBSERVATION_MISMATCH);
          op1 = op\<lparr>op_verifier := the v\<rparr>
      in if decision = DECISION_FAIL_INVALID
         then l850_mutation_complete_failure now k op1
                (if pre_reset then ''lock_applied_reset_required'' else ''verification_mismatch'')
                ''malformed_response'' False u
         else if phase_deadline op1 \<le> now
         then l850_mutation_complete_failure now k op1
                (if pre_reset then ''lock_applied_reset_required'' else ''verification_mismatch'')
                ''verification_mismatch'' False u
         else if decision = DECISION_RETRY then store k (op1\<lparr>poll_source := True\<rparr>) u
         else
           (let op2 = op1\<lparr>verification_stage := None\<rparr> in
            if pre_reset then l850_mutation_start_reset e k op2 u
            else if op_type op2 = L850_MUTATION_CLEAR
            then l850_mutation_complete_success now k op2 None u
            else mm_modem_command k
                   (l850_mutation_replace_cancellable
                      (op2\<lparr>op_phase := PHASE_CELL_VERIFY, command_pending := True\<rparr>))
                   CELL_READY (the (replacement op2)) scan_command u))"

definition l850_mutation_nvm_ready ::
    "callback_env \<Rightarrow> nat \<Rightarrow> mutation_operation \<Rightarrow> nat \<Rightarrow> gerror option \<Rightarrow> cstring option \<Rightarrow> ubus \<Rightarrow> ubus" where
  "l850_mutation_nvm_ready e k op0 source error response u =
     (let op = answered op0; now = monotonic_now e;
          pre_reset = (op_phase op = PHASE_PRE_RESET_NVM_VERIFY)
      in if (op_phase op \<noteq> PHASE_PRE_RESET_NVM_VERIFY \<and> op_phase op \<noteq> PHASE_NVM_VERIFY) \<or>
            (pre_reset \<and> \<not> l850_mutation_original_is_valid (around e) op source u) \<or>
            (\<not> pre_reset \<and> \<not> l850_mutation_replacement_is_valid (around e) op source u) \<or>
            l850_mutation_error_is_uncertain op error \<or> error \<noteq> None \<or> response = None
         then l850_mutation_complete_failure now k op
                (if pre_reset then ''lock_applied_reset_required'' else ''outcome_unknown'')
                ''outcome_unknown'' False u
         else
           (case nvm_parse (memory_left e) response (Some zero_lock) of
              (CELL_OK, Some lock) \<Rightarrow> nvm_registers_read e k op lock u
            | _ \<Rightarrow>
                l850_mutation_complete_failure now k
                  (op\<lparr>op_verifier := the (snd (nvm_verifier_observe (Some (op_verifier op)) OBSERVATION_INVALID))\<rparr>)
                  (if pre_reset then ''lock_applied_reset_required'' else ''verification_mismatch'')
                  ''malformed_response'' False u))"

definition l850_mutation_timeout :: "nat \<Rightarrow> mutation_operation \<Rightarrow> ubus \<Rightarrow> ubus" where
  "l850_mutation_timeout k op u =
     store k (op\<lparr>timeout_source := False, timed_out := True, op_cancelled := True\<rparr>) u"

text \<open>The cancellation is seen when the command in flight answers; nothing is released here.\<close>

definition cancel_l850_mutation_operations :: "bool \<Rightarrow> ubus \<Rightarrow> ubus" where
  "cancel_l850_mutation_operations lost u =
     u\<lparr>mutation_operations := map (\<lambda>(k, op).
         (k, op\<lparr>deferred := False, transport_lost := lost, op_cancelled := True\<rparr>))
       (mutation_operations u)\<rparr>"

section \<open>Start\<close>

definition operation_record ::
    "nat \<Rightarrow> modem \<Rightarrow> cstring \<Rightarrow> mutation_type \<Rightarrow> u32 \<Rightarrow> bool \<Rightarrow> u16 \<Rightarrow> u16 \<Rightarrow> cstring option \<Rightarrow>
     mutation_operation" where
  "operation_record r m physdev t earfcn with_pci pci band command =
     \<lparr>op_type = t, op_phase = PHASE_PROTOCOL_PROBE, original = r, replacement = None,
      op_cancelled = False, original_generation = generation m, replacement_generation = 0,
      timeout_source = True, poll_source = False, phase_deadline = 0, op_physdev = physdev,
      set_command = (case command of None \<Rightarrow> [] | Some c \<Rightarrow> take (COMMAND_MAX - 1) c),
      op_earfcn = earfcn, op_pci = pci, op_band = band,
      op_verifier = \<lparr>stage = VERIFY_PRE_RESET, consecutive_matches = 0\<rparr>,
      verification_stage = None, op_has_pci = with_pci, timed_out = False, transport_lost = False,
      deferred = True, command_pending = False, set_dispatched = False,
      configuration_acknowledged = False, reset_dispatched = False, pending_call = None\<rparr>"

text \<open>The operation and the state with the modem claimed; \<open>None\<close> without a physical device.\<close>

definition l850_mutation_operation_new ::
    "nat \<Rightarrow> mutation_type \<Rightarrow> u32 \<Rightarrow> bool \<Rightarrow> u16 \<Rightarrow> u16 \<Rightarrow> cstring option \<Rightarrow> ubus \<Rightarrow>
     (nat \<times> mutation_operation \<times> ubus) option" where
  "l850_mutation_operation_new r t earfcn with_pci pci band command u =
     (case mm_physdev (proxy (modem_at u r)) of
        None \<Rightarrow> None
      | Some physdev \<Rightarrow>
          if physdev = [] then None
          else
            (let k = next_operation u;
                 op = operation_record r (modem_at u r) physdev t earfcn with_pci pci band command
             in Some (k, op, with_modem r claim_modem
                  (store k op (emit (Started k op) (u\<lparr>next_operation := Suc k\<rparr>))))))"

definition l850_mutation_dispatch_set :: "callback_env \<Rightarrow> nat \<Rightarrow> mutation_operation \<Rightarrow> ubus \<Rightarrow> ubus" where
  "l850_mutation_dispatch_set e k op u =
     (if \<not> l850_mutation_original_is_valid (around e) op (object_of (original op) u) u
      then l850_mutation_complete_failure (monotonic_now e) k op ''device_gone'' ''device_gone'' False u
      else mm_modem_command k
             (l850_mutation_replace_cancellable (op\<lparr>op_phase := PHASE_SET_COMMAND,
                set_dispatched := True, command_pending := True\<rparr>))
             SET_READY (original op)
             (if op_type op = L850_MUTATION_CLEAR then clear_command else set_command op) u)"

definition l850_mutation_probe_ready ::
    "callback_env \<Rightarrow> nat \<Rightarrow> mutation_operation \<Rightarrow> nat \<Rightarrow> gerror option \<Rightarrow> cstring option \<Rightarrow> ubus \<Rightarrow> ubus" where
  "l850_mutation_probe_ready e k op0 source error response u =
     (let op = answered op0; now = monotonic_now e in
      if op_phase op \<noteq> PHASE_PROTOCOL_PROBE \<or> \<not> l850_mutation_original_is_valid (around e) op source u
      then l850_mutation_complete_failure now k op ''device_gone'' ''device_gone'' False u
      else if error \<noteq> None \<or> response = None
      then (let (err, retry) = l850_normalize_error (built_with_mm_1_24 e) error (timed_out op)
                  (transport_lost op)
            in l850_mutation_complete_failure now k op err err retry u)
      else if fst (nvm_parse (memory_left e) response (Some zero_lock)) \<noteq> CELL_OK
      then l850_mutation_complete_failure now k op ''unsupported_protocol'' ''unsupported_protocol'' False u
      else l850_mutation_dispatch_set e k op u)"

definition send_l850_error :: "nat option \<Rightarrow> cstring \<Rightarrow> bool \<Rightarrow> u32 \<Rightarrow> ubus \<Rightarrow> ubus" where
  "send_l850_error m err retry retry_after u = emit (Refusal m err retry retry_after) u"

definition l850_mutation_start ::
    "nat \<Rightarrow> mutation_type \<Rightarrow> u32 \<Rightarrow> bool \<Rightarrow> u16 \<Rightarrow> u16 \<Rightarrow> cstring option \<Rightarrow> ubus \<Rightarrow> ubus" where
  "l850_mutation_start r t earfcn with_pci pci band command u =
     (case l850_mutation_operation_new r t earfcn with_pci pci band command u of
        None \<Rightarrow> send_l850_error (Some r) ''unsupported'' False 0 u
      | Some (k, op, u1) \<Rightarrow>
          mm_modem_command k (op\<lparr>command_pending := True\<rparr>) PROBE_READY (original op) nvm_query_command u1)"

section \<open>Requests\<close>

definition l850_modem_has_active_mutation :: "ubus \<Rightarrow> nat \<Rightarrow> bool" where
  "l850_modem_has_active_mutation u r =
     (case mm_physdev (proxy (modem_at u r)) of
        None \<Rightarrow> False
      | Some physdev \<Rightarrow>
          if physdev = [] then False
          else list_ex (\<lambda>(_, op). op_physdev op = physdev) (mutation_operations u))"

definition l850_modem_has_active_scan :: "ubus \<Rightarrow> nat \<Rightarrow> bool" where
  "l850_modem_has_active_scan u r = list_ex (\<lambda>q. q = r) (scan_modems u)"

definition l850_modem_has_active_carrier_query :: "ubus \<Rightarrow> nat \<Rightarrow> bool" where
  "l850_modem_has_active_carrier_query u r = list_ex (\<lambda>q. q = r) (carrier_modems u)"

text \<open>\<open>owner\<close> is whether ModemManager's name has an owner.\<close>

definition l850_requested_modem ::
    "surroundings \<Rightarrow> bool \<Rightarrow> ubus \<Rightarrow> cstring \<Rightarrow> u32 \<Rightarrow> cstring + nat" where
  "l850_requested_modem w owner u modem_id' gen =
     (if \<not> l850gl_identity_is_valid (Some modem_id') then Inl ''invalid_argument''
      else
        (case l850gl_bridge_find_modem (ubus_bridge u) (Some modem_id') of
           None \<Rightarrow> Inl (if l850gl_bridge_manager_available owner (ubus_bridge u)
                        then ''stale_identity'' else ''dependency_unavailable'')
         | Some r \<Rightarrow>
             if generation (modem_at u r) \<noteq> gen then Inl ''stale_generation''
             else if \<not> attest_mutation_target w (modem_at u r) then Inl ''unsupported''
             else if l850_modem_has_active_mutation u r \<or> l850_modem_has_active_scan u r \<or>
                l850_modem_has_active_carrier_query u r \<or> voltage_refresh_pending (modem_at u r)
             then Inl ''busy''
             else Inr r))"

text \<open>The fields of a request, absent when \<open>parse_exact_fields\<close> rejects the message.\<close>

record set_request =
  req_modem_id :: cstring
  req_generation :: u32
  req_confirm :: bool
  req_earfcn :: u32
  req_pci :: "u32 option"

definition method_set_cell_lock ::
    "callback_env \<Rightarrow> bool \<Rightarrow> set_request option \<Rightarrow> ubus \<Rightarrow> ubus" where
  "method_set_cell_lock e owner message u =
     (case message of
        None \<Rightarrow> send_l850_error None ''invalid_argument'' False 0 u
      | Some req \<Rightarrow>
          if \<not> req_confirm req then send_l850_error None ''invalid_argument'' False 0 u
          else
            (let earfcn = req_earfcn req; with_pci = (req_pci req \<noteq> None);
                 pci = (case req_pci req of None \<Rightarrow> 0 | Some p \<Rightarrow> p)
             in case earfcn_to_band earfcn of
                  None \<Rightarrow> send_l850_error None ''invalid_argument'' False 0 u
                | Some band \<Rightarrow>
                    if with_pci \<and> 503 < pci then send_l850_error None ''invalid_argument'' False 0 u
                    else
                      (case l850_requested_modem (around e) owner u (req_modem_id req) (req_generation req) of
                         Inl err \<Rightarrow>
                           send_l850_error None err
                             (err = ''dependency_unavailable'' \<or> err = ''busy'') 0 u
                       | Inr r \<Rightarrow>
                           if \<not> lte_band_is_supported (modem_at u r) band
                           then send_l850_error (Some r) ''not_ready'' True 0 u
                           else
                             (let retry_after = advanced_retry_after_ms (modem_at u r) (monotonic_now e)
                              in if mutation_busy (modem_at u r) \<or> voltage_refresh_pending (modem_at u r) \<or>
                                    0 < retry_after
                                 then send_l850_error (Some r) ''busy'' True retry_after u
                                 else
                                   (case build_set_command earfcn with_pci (ucast pci) (Some COMMAND_MAX) of
                                      (True, Some command) \<Rightarrow>
                                        l850_mutation_start r L850_MUTATION_SET earfcn with_pci (ucast pci)
                                          band (Some command) u
                                    | _ \<Rightarrow> send_l850_error (Some r) ''invalid_argument'' False 0 u)))))"

record clear_request =
  clr_modem_id :: cstring
  clr_generation :: u32
  clr_confirm :: bool

definition method_clear_cell_lock ::
    "callback_env \<Rightarrow> bool \<Rightarrow> clear_request option \<Rightarrow> ubus \<Rightarrow> ubus" where
  "method_clear_cell_lock e owner message u =
     (case message of
        None \<Rightarrow> send_l850_error None ''invalid_argument'' False 0 u
      | Some req \<Rightarrow>
          if \<not> clr_confirm req then send_l850_error None ''invalid_argument'' False 0 u
          else
            (case l850_requested_modem (around e) owner u (clr_modem_id req) (clr_generation req) of
               Inl err \<Rightarrow>
                 send_l850_error None err (err = ''dependency_unavailable'' \<or> err = ''busy'') 0 u
             | Inr r \<Rightarrow>
                 if \<not> supported_lte_bands_available (modem_at u r)
                 then send_l850_error (Some r) ''not_ready'' True 0 u
                 else
                   (let retry_after = advanced_retry_after_ms (modem_at u r) (monotonic_now e)
                    in if mutation_busy (modem_at u r) \<or> voltage_refresh_pending (modem_at u r) \<or>
                          0 < retry_after
                       then send_l850_error (Some r) ''busy'' True retry_after u
                       else l850_mutation_start r L850_MUTATION_CLEAR CLEAR_FREQUENCY False
                              PCI_WILDCARD 0 None u)))"

end
