(* ===== verification/Expert_Protocol.thy ===== *)
theory Expert_Protocol
  imports Expert_Mutation Modem_Contract
begin

text \<open>
  What the cell lock coordinator promises of one operation, as a condition on the order of its
  events, and the invariant of the service that carries the promise: how an operation's fields,
  its call in flight and its history correspond, and which modems it holds. The lemmas show what
  the bookkeeping steps (record an event, store, claim, release, send) keep of it.
\<close>

section \<open>The protocol\<close>

text \<open>
  What the coordinator promises of one operation, as a condition on each event given the events
  of the operation before it (newest first).
\<close>

fun event_op :: "event \<Rightarrow> nat option" where
  "event_op (Started k op) = Some k"
| "event_op (Command k cb r c) = Some k"
| "event_op (Answer k cb src err resp) = Some k"
| "event_op (Reply k rep) = Some k"
| "event_op (Refusal m err retry after) = None"

definition history :: "nat \<Rightarrow> event list \<Rightarrow> event list" where
  "history k t = filter (\<lambda>ev. event_op ev = Some k) t"

fun goal :: "event list \<Rightarrow> mutation_operation option" where
  "goal [] = None"
| "goal (Started k op # h) = Some op"
| "goal (ev # h) = goal h"

fun sent_commands :: "event list \<Rightarrow> callback list" where
  "sent_commands [] = []"
| "sent_commands (Command k cb r c # h) = cb # sent_commands h"
| "sent_commands (ev # h) = sent_commands h"

fun got_answers :: "event list \<Rightarrow> (callback \<times> gerror option \<times> cstring option) list" where
  "got_answers [] = []"
| "got_answers (Answer k cb src err resp # h) = (cb, err, resp) # got_answers h"
| "got_answers (ev # h) = got_answers h"

fun outstanding :: "event list \<Rightarrow> callback option" where
  "outstanding [] = None"
| "outstanding (Command k cb r c # h) = Some cb"
| "outstanding (Answer k cb src err resp # h) = None"
| "outstanding (ev # h) = outstanding h"

fun replied :: "event list \<Rightarrow> bool" where
  "replied [] = False"
| "replied (Reply k rep # h) = True"
| "replied (ev # h) = replied h"

text \<open>The answers since the reset command was sent.\<close>

fun since_reset :: "event list \<Rightarrow> (callback \<times> gerror option \<times> cstring option) list" where
  "since_reset [] = []"
| "since_reset (Command k cb r c # h) = (if cb = RESET_READY then [] else since_reset h)"
| "since_reset (Answer k cb src err resp # h) = (cb, err, resp) # since_reset h"
| "since_reset (ev # h) = since_reset h"

definition acknowledged :: "event list \<Rightarrow> bool" where
  "acknowledged h = list_ex (\<lambda>(cb, err, resp). cb = SET_READY \<and> err = None \<and> set_response_is_success resp)
     (got_answers h)"

text \<open>A read of the lock registers that shows what was asked for.\<close>

definition nvm_confirms ::
    "bool \<Rightarrow> u32 \<Rightarrow> bool \<Rightarrow> u16 \<Rightarrow> (callback \<times> gerror option \<times> cstring option) \<Rightarrow> bool" where
  "nvm_confirms clear earfcn with_pci pci = (\<lambda>(cb, err, resp). cb = NVM_READY \<and> err = None \<and>
     (case nvm_parse True resp (Some zero_lock) of
        (CELL_OK, Some lock) \<Rightarrow> lock_state_matches (Some lock) clear earfcn with_pci pci
      | _ \<Rightarrow> False))"

definition confirms :: "mutation_operation \<Rightarrow> (callback \<times> gerror option \<times> cstring option) \<Rightarrow> bool" where
  "confirms op =
     nvm_confirms (op_type op = L850_MUTATION_CLEAR) (op_earfcn op) (op_has_pci op) (op_pci op)"

text \<open>A scan whose serving cell is the one that was asked for.\<close>

definition scan_shows ::
    "u32 \<Rightarrow> bool \<Rightarrow> u16 \<Rightarrow> cell \<Rightarrow> (callback \<times> gerror option \<times> cstring option) \<Rightarrow> bool" where
  "scan_shows earfcn with_pci pci c = (\<lambda>(cb, err, resp). cb = CELL_READY \<and> err = None \<and>
     (case cell_parse True resp (Some []) of
        (CELL_OK, Some scan) \<Rightarrow> c \<in> set scan \<and> serving c \<and> cell_earfcn c = earfcn \<and>
          (with_pci \<longrightarrow> cell_pci c = pci)
      | _ \<Rightarrow> False))"

definition shows_cell ::
    "mutation_operation \<Rightarrow> cell \<Rightarrow> (callback \<times> gerror option \<times> cstring option) \<Rightarrow> bool" where
  "shows_cell op = scan_shows (op_earfcn op) (op_has_pci op) (op_pci op)"

definition probe_ok :: "(callback \<times> gerror option \<times> cstring option) \<Rightarrow> bool" where
  "probe_ok = (\<lambda>(cb, err, resp). cb = PROBE_READY \<and> err = None \<and>
     fst (nvm_parse True resp (Some zero_lock)) = CELL_OK)"

definition first_answer :: "((callback \<times> gerror option \<times> cstring option) \<Rightarrow> bool) \<Rightarrow> event list \<Rightarrow> bool" where
  "first_answer P h = (case got_answers h of [] \<Rightarrow> False | a # _ \<Rightarrow> P a)"

definition command_allowed :: "mutation_operation \<Rightarrow> callback \<Rightarrow> nat \<Rightarrow> cstring \<Rightarrow> event list \<Rightarrow> bool" where
  "command_allowed op cb r c h =
     (outstanding h = None \<and>
      (case cb of
         PROBE_READY \<Rightarrow> sent_commands h = [] \<and> r = original op \<and> c = nvm_query_command
       | SET_READY \<Rightarrow> SET_READY \<notin> set (sent_commands h) \<and> first_answer probe_ok h \<and> r = original op \<and>
           c = (if op_type op = L850_MUTATION_CLEAR then clear_command else set_command op)
       | NVM_READY \<Rightarrow> acknowledged h \<and> c = nvm_query_command
       | RESET_READY \<Rightarrow> RESET_READY \<notin> set (sent_commands h) \<and> acknowledged h \<and>
           2 \<le> length (takeWhile (confirms op) (got_answers h)) \<and> r = original op \<and> c = reset_command
       | CELL_READY \<Rightarrow> RESET_READY \<in> set (sent_commands h) \<and> list_ex (confirms op) (since_reset h) \<and>
           r \<noteq> original op \<and> c = scan_command))"

definition reply_allowed :: "mutation_operation \<Rightarrow> reply \<Rightarrow> event list \<Rightarrow> bool" where
  "reply_allowed op rep h =
     (case rep of
        Failure state err retry r repl ack st \<Rightarrow>
          (ack \<longrightarrow> acknowledged h) \<and> (retry \<longrightarrow> \<not> ack \<and> RESET_READY \<notin> set (sent_commands h)) \<and>
          (\<not> repl \<longrightarrow> r = original op)
      | Success t r cell \<Rightarrow>
          t = op_type op \<and> r \<noteq> original op \<and> acknowledged h \<and> RESET_READY \<in> set (sent_commands h) \<and>
          list_ex (confirms op) (since_reset h) \<and>
          (t = L850_MUTATION_SET \<longrightarrow> (\<exists>c. cell = Some c \<and> first_answer (shows_cell op c) h)))"

fun allowed :: "event \<Rightarrow> event list \<Rightarrow> bool" where
  "allowed (Started k op) h = (h = [])"
| "allowed (Command k cb r c) h = (case goal h of None \<Rightarrow> False | Some op \<Rightarrow> command_allowed op cb r c h)"
| "allowed (Answer k cb src err resp) h = (outstanding h = Some cb)"
| "allowed (Reply k rep) h = (case goal h of None \<Rightarrow> False | Some op \<Rightarrow> reply_allowed op rep h)"
| "allowed (Refusal m err retry after) h = True"

fun protocol :: "event list \<Rightarrow> bool" where
  "protocol [] = True"
| "protocol (ev # h) = (\<not> replied h \<and> allowed ev h \<and> protocol h)"

section \<open>Invariant\<close>

text \<open>What the phase of an operation says about its fields, its requests and its history.\<close>

definition same_goal :: "mutation_operation \<Rightarrow> mutation_operation \<Rightarrow> bool" where
  "same_goal op0 op \<longleftrightarrow> op_type op0 = op_type op \<and> op_earfcn op0 = op_earfcn op \<and>
     op_has_pci op0 = op_has_pci op \<and> op_pci op0 = op_pci op \<and> original op0 = original op \<and>
     set_command op0 = set_command op \<and> op_physdev op0 = op_physdev op \<and>
     original_generation op0 = original_generation op"

fun after_set :: "mutation_phase \<Rightarrow> bool" where
  "after_set PHASE_PROTOCOL_PROBE = False"
| "after_set _ = True"

fun after_ack :: "mutation_phase \<Rightarrow> bool" where
  "after_ack PHASE_PROTOCOL_PROBE = False"
| "after_ack PHASE_SET_COMMAND = False"
| "after_ack _ = True"

fun after_reset :: "mutation_phase \<Rightarrow> bool" where
  "after_reset PHASE_PROTOCOL_PROBE = False"
| "after_reset PHASE_SET_COMMAND = False"
| "after_reset PHASE_PRE_RESET_NVM_VERIFY = False"
| "after_reset _ = True"

fun after_replacement :: "mutation_phase \<Rightarrow> bool" where
  "after_replacement PHASE_REGISTRATION = True"
| "after_replacement PHASE_NVM_VERIFY = True"
| "after_replacement PHASE_CELL_VERIFY = True"
| "after_replacement _ = False"

fun phase_callback :: "mutation_phase \<Rightarrow> callback option" where
  "phase_callback PHASE_PROTOCOL_PROBE = Some PROBE_READY"
| "phase_callback PHASE_SET_COMMAND = Some SET_READY"
| "phase_callback PHASE_PRE_RESET_NVM_VERIFY = Some NVM_READY"
| "phase_callback PHASE_RESET_COMMAND = Some RESET_READY"
| "phase_callback PHASE_NVM_VERIFY = Some NVM_READY"
| "phase_callback PHASE_CELL_VERIFY = Some CELL_READY"
| "phase_callback _ = None"

text \<open>The part that also holds between an answer and what the handler makes of it.\<close>

definition op_history :: "mutation_operation \<Rightarrow> event list \<Rightarrow> bool" where
  "op_history op h \<longleftrightarrow> (\<exists>op0. goal h = Some op0 \<and> same_goal op0 op) \<and> \<not> replied h \<and> protocol h \<and>
     (SET_READY \<in> set (sent_commands h) \<longleftrightarrow> after_set (op_phase op)) \<and>
     (RESET_READY \<in> set (sent_commands h) \<longleftrightarrow> after_reset (op_phase op)) \<and>
     (set_dispatched op \<longleftrightarrow> after_set (op_phase op)) \<and>
     (configuration_acknowledged op \<longleftrightarrow> after_ack (op_phase op)) \<and>
     (reset_dispatched op \<longleftrightarrow> after_reset (op_phase op)) \<and>
     (configuration_acknowledged op \<longrightarrow> acknowledged h) \<and>
     (replacement op \<noteq> None \<longleftrightarrow> after_replacement (op_phase op))"

definition op_waits :: "mutation_operation \<Rightarrow> event list \<Rightarrow> bool" where
  "op_waits op h \<longleftrightarrow>
     (command_pending op \<longleftrightarrow> pending_call op \<noteq> None) \<and>
     (poll_source op \<longleftrightarrow> pending_call op = None) \<and>
     outstanding h = map_option fst (pending_call op) \<and>
     (pending_call op \<noteq> None \<longrightarrow> map_option fst (pending_call op) = phase_callback (op_phase op)) \<and>
     (pending_call op = None \<longrightarrow> op_phase op \<in> {PHASE_PRE_RESET_NVM_VERIFY, PHASE_REPROBE,
        PHASE_REGISTRATION, PHASE_NVM_VERIFY}) \<and>
     (op_phase op = PHASE_PRE_RESET_NVM_VERIFY \<longrightarrow> stage (op_verifier op) = VERIFY_PRE_RESET \<and>
        unat (consecutive_matches (op_verifier op)) \<le> length (takeWhile (confirms op) (got_answers h))) \<and>
     (op_phase op = PHASE_NVM_VERIFY \<longrightarrow> stage (op_verifier op) = VERIFY_POST_RESET) \<and>
     (op_phase op = PHASE_CELL_VERIFY \<longrightarrow> op_type op = L850_MUTATION_SET \<and>
        list_ex (confirms op) (since_reset h))"

definition op_modems :: "mutation_operation \<Rightarrow> bridge \<Rightarrow> bool" where
  "op_modems op b \<longleftrightarrow> original op < length (modems b) \<and>
     original_generation op = generation (modems b ! original op) \<and>
     (case replacement op of None \<Rightarrow> True
      | Some r \<Rightarrow> r < length (modems b) \<and> r \<noteq> original op \<and>
          replacement_generation op = generation (modems b ! r))"

definition held :: "mutation_operation \<Rightarrow> nat list" where
  "held op = original op # (case replacement op of None \<Rightarrow> [] | Some r \<Rightarrow> [r])"

definition held_all :: "ubus \<Rightarrow> nat list" where
  "held_all u = concat (map (held \<circ> snd) (mutation_operations u))"

text \<open>The modems locked by this component are those of its operations, each held once.\<close>

definition locks :: "ubus \<Rightarrow> bool" where
  "locks u \<longleftrightarrow> distinct (held_all u) \<and>
     (\<forall>r < length (modems (ubus_bridge u)). mutation_kind (modem_at u r) = MUTATION_L850 \<longleftrightarrow> r \<in> set (held_all u)) \<and>
     (\<forall>r < length (modems (ubus_bridge u)). mutation_kind (modem_at u r) = MUTATION_L850 \<longrightarrow> mutation_busy (modem_at u r))"

definition frame_inv :: "ubus \<Rightarrow> bool" where
  "frame_inv u \<longleftrightarrow> registry_inv (ubus_bridge u) \<and> locks u \<and>
     distinct (map fst (mutation_operations u)) \<and>
     distinct (map (op_physdev \<circ> snd) (mutation_operations u)) \<and>
     (\<forall>k. protocol (history k (trace u))) \<and>
     (\<forall>k \<ge> next_operation u. history k (trace u) = [] \<and> k \<notin> fst ` set (mutation_operations u))"

definition op_inv :: "ubus \<Rightarrow> nat \<Rightarrow> mutation_operation \<Rightarrow> bool" where
  "op_inv u k op \<longleftrightarrow> op_history op (history k (trace u)) \<and> op_waits op (history k (trace u)) \<and>
     op_modems op (ubus_bridge u)"

definition mutation_inv :: "ubus \<Rightarrow> bool" where
  "mutation_inv u \<longleftrightarrow> frame_inv u \<and> (\<forall>(k, op) \<in> set (mutation_operations u). op_inv u k op)"

text \<open>Inside a handler of operation \<open>k\<close>, which holds \<open>op\<close> by value.\<close>

definition outside :: "nat \<Rightarrow> mutation_operation \<Rightarrow> ubus \<Rightarrow> bool" where
  "outside k op u \<longleftrightarrow> frame_inv u \<and>
     (\<exists>op0. map_of (mutation_operations u) k = Some op0 \<and> held op0 = held op \<and> op_physdev op0 = op_physdev op) \<and>
     (\<forall>(k', op') \<in> set (mutation_operations u). k' \<noteq> k \<longrightarrow> op_inv u k' op') \<and>
     op_modems op (ubus_bridge u)"

definition inside :: "nat \<Rightarrow> mutation_operation \<Rightarrow> ubus \<Rightarrow> bool" where
  "inside k op u \<longleftrightarrow> outside k op u \<and> op_history op (history k (trace u))"

section \<open>Steps of the bookkeeping\<close>

lemma history_emit [simp]:
  "history k (ev # t) = (if event_op ev = Some k then ev # history k t else history k t)"
  by (simp add: history_def)

lemma emit_fields [simp]:
  "ubus_bridge (emit ev u) = ubus_bridge u" "mutation_operations (emit ev u) = mutation_operations u"
  "next_operation (emit ev u) = next_operation u" "trace (emit ev u) = ev # trace u"
  "connected (emit ev u) = connected u" "ubus_stopping (emit ev u) = ubus_stopping u"
  "context_initialized (emit ev u) = context_initialized u"
  by (simp_all add: emit_def)

lemma store_fields [simp]:
  "ubus_bridge (store k op u) = ubus_bridge u" "next_operation (store k op u) = next_operation u"
  "trace (store k op u) = trace u"
  "mutation_operations (store k op u) = AList.update k op (mutation_operations u)"
  by (simp_all add: store_def)

lemma with_modem_fields [simp]:
  "mutation_operations (with_modem r f u) = mutation_operations u"
  "next_operation (with_modem r f u) = next_operation u" "trace (with_modem r f u) = trace u"
  "ubus_bridge (with_modem r f u) = on_modem r f (ubus_bridge u)"
  "connected (with_modem r f u) = connected u" "ubus_stopping (with_modem r f u) = ubus_stopping u"
  "context_initialized (with_modem r f u) = context_initialized u"
  by (simp_all add: with_modem_def)

lemma op_inv_emit:
  "event_op ev \<noteq> Some k \<Longrightarrow> op_inv (emit ev u) k op = op_inv u k op"
  by (simp add: op_inv_def)

lemma outside_key: "outside k op u \<Longrightarrow> k < next_operation u"
proof -
  assume "outside k op u"
  then have "k \<in> fst ` set (mutation_operations u)" "frame_inv u"
    by (force simp: outside_def dest: map_of_SomeD)+
  then show "k < next_operation u" unfolding frame_inv_def by (meson not_le)
qed

lemma frame_emit:
  assumes "frame_inv u" and "event_op ev = Some k" and "k < next_operation u"
    and "allowed ev (history k (trace u))" and "\<not> replied (history k (trace u))"
  shows "frame_inv (emit ev u)"
  using assms unfolding frame_inv_def locks_def held_all_def by auto

lemma outside_emit:
  assumes "outside k op u" and "event_op ev = Some k"
    and "allowed ev (history k (trace u))" and "\<not> replied (history k (trace u))"
  shows "outside k op (emit ev u)"
  using assms frame_emit [OF _ assms(2) outside_key [OF assms(1)] assms(3,4)]
  unfolding outside_def by (auto simp: op_inv_emit)

lemma held_update:
  assumes "map_of t k = Some op0" and "f op0 = f op"
  shows "map (f \<circ> snd) (AList.update k op t) = map (f \<circ> snd) t"
  using assms by (induction t) (auto split: if_splits)

lemma mem_update:
  assumes "distinct (map fst t)" and "(k', v) \<in> set (AList.update k op t)"
  shows "if k' = k then v = op else (k', v) \<in> set t"
  using assms by (induction t) (force split: if_splits)+

lemma op_modems_cong:
  "original op' = original op \<Longrightarrow> original_generation op' = original_generation op \<Longrightarrow>
   replacement op' = replacement op \<Longrightarrow> replacement_generation op' = replacement_generation op \<Longrightarrow>
   op_modems op' b = op_modems op b"
  by (simp add: op_modems_def split: option.split)

lemma inside_store:
  assumes out: "outside k op u" and same: "held op' = held op" "op_physdev op' = op_physdev op"
    and ok: "op_inv u k op'"
  shows "mutation_inv (store k op' u)"
proof -
  obtain op0 where op0: "map_of (mutation_operations u) k = Some op0" "held op0 = held op'"
    "op_physdev op0 = op_physdev op'"
    using out same unfolding outside_def by auto
  have frame: "frame_inv u" using out by (simp add: outside_def)
  then have dist: "distinct (map fst (mutation_operations u))" by (simp add: frame_inv_def)
  have k: "k \<in> fst ` set (mutation_operations u)" using op0(1) by (force dest: map_of_SomeD)
  have "held_all (store k op' u) = held_all u"
    using held_update [of _ k op0 held op', OF op0(1,2)] by (simp add: held_all_def)
  moreover have "map (op_physdev \<circ> snd) (AList.update k op' (mutation_operations u)) =
      map (op_physdev \<circ> snd) (mutation_operations u)"
    using held_update [of _ k op0 op_physdev op', OF op0(1,3)] .
  ultimately have "frame_inv (store k op' u)"
    using frame k unfolding frame_inv_def locks_def
    by (auto simp: distinct_update keys_update)
  moreover have "op_inv (store k op' u) k' v" if "(k', v) \<in> set (mutation_operations (store k op' u))" for k' v
    using mem_update [OF dist, of k' v k op'] that out ok
    by (cases "k' = k") (auto simp: outside_def op_inv_def)
  ultimately show ?thesis by (auto simp: mutation_inv_def)
qed

lemma inside_command:
  assumes ins: "inside k op u" and same: "held op' = held op" "op_physdev op' = op_physdev op"
    and goal: "goal (history k (trace u)) = Some op0" and cmd: "command_allowed op0 cb r c (history k (trace u))"
    and hist: "op_history (op'\<lparr>pending_call := Some (cb, r)\<rparr>) (Command k cb r c # history k (trace u))"
    and waits: "op_waits (op'\<lparr>pending_call := Some (cb, r)\<rparr>) (Command k cb r c # history k (trace u))"
    and modems: "op_modems op' (ubus_bridge u)"
  shows "mutation_inv (mm_modem_command k op' cb r c u)"
  unfolding mm_modem_command_def
proof (rule inside_store [of k op])
  have "\<not> replied (history k (trace u))" using ins by (simp add: inside_def op_history_def)
  then show "outside k op (emit (Command k cb r c) u)"
    using ins goal cmd by (intro outside_emit) (simp_all add: inside_def)
  show "op_inv (emit (Command k cb r c) u) k (op'\<lparr>pending_call := Some (cb, r)\<rparr>)"
    using hist waits modems op_modems_cong [of "op'\<lparr>pending_call := Some (cb, r)\<rparr>" op']
    by (simp add: op_inv_def)
qed (use same in \<open>simp_all add: held_def\<close>)

section \<open>Releasing\<close>

text \<open>Changes of modems that keep what the coordinator relies on.\<close>

definition modem_rely :: "modem \<Rightarrow> modem \<Rightarrow> bool" where
  "modem_rely m m' \<longleftrightarrow> generation m' = generation m \<and>
     (mutation_kind m' = MUTATION_L850 \<longleftrightarrow> mutation_kind m = MUTATION_L850) \<and>
     (mutation_kind m = MUTATION_L850 \<longrightarrow> mutation_busy m' = mutation_busy m) \<and>
     advanced_cooldown_until m \<le> advanced_cooldown_until m'"

abbreviation bridge_rely :: "bridge \<Rightarrow> bridge \<Rightarrow> bool" where
  "bridge_rely \<equiv> registry_change modem_rely (\<lambda>m. mutation_kind m \<noteq> MUTATION_L850)"

lemma modem_rely_ops [simp]:
  "modem_rely m (modem_mark_removed m)" "modem_rely m (fst (query_sim m))"
  "modem_rely m (fst (query_bearers m))" "modem_rely m (fst (query_sms m))"
  "modem_rely m (fst (reconcile_messaging current force_epoch m))"
  subgoal by (simp add: modem_rely_def modem_mark_removed_def clear_sms_cache_def disconnect_messaging_signals_def)
  subgoal by (simp add: modem_rely_def query_sim_def)
  subgoal by (simp add: modem_rely_def query_bearers_def)
  subgoal by (simp add: modem_rely_def query_sms_def split: option.splits)
  subgoal by (auto simp: modem_rely_def reconcile_messaging_def Let_def query_sms_def sms_revision_bump_def
        clear_sms_cache_def disconnect_messaging_signals_def split: option.splits)
  done

interpretation expert: modem_contract modem_rely "\<lambda>m. mutation_kind m \<noteq> MUTATION_L850"
  by unfold_locales (simp_all, auto simp: modem_rely_def modem_new_def)

lemma op_modems_rely:
  "op_modems op b \<Longrightarrow> length (modems b) \<le> length (modems b') \<Longrightarrow>
   (\<And>r. r < length (modems b) \<Longrightarrow> generation (modems b' ! r) = generation (modems b ! r)) \<Longrightarrow> op_modems op b'"
  by (auto simp: op_modems_def split: option.splits)

lemma held_bound:
  assumes "op_modems op b" and "r \<in> set (held op)"
  shows "r < length (modems b)"
  using assms by (auto simp: op_modems_def held_def split: option.splits)

lemma held_all_bound:
  assumes "\<forall>(k, op) \<in> set (mutation_operations u). op_modems op (ubus_bridge u)" and "r \<in> set (held_all u)"
  shows "r < length (modems (ubus_bridge u))"
  using assms held_bound by (fastforce simp: held_all_def)

lemma locks_rely:
  assumes locks: "locks u" and rely: "bridge_rely (ubus_bridge u) b'"
    and bound: "\<And>r. r \<in> set (held_all u) \<Longrightarrow> r < length (modems (ubus_bridge u))"
  shows "locks (u\<lparr>ubus_bridge := b'\<rparr>)"
proof -
  have "held_all (u\<lparr>ubus_bridge := b'\<rparr>) = held_all u" by (simp add: held_all_def)
  moreover have "mutation_kind (modems b' ! r) = MUTATION_L850 \<longleftrightarrow> r \<in> set (held_all u)"
    "mutation_kind (modems b' ! r) = MUTATION_L850 \<Longrightarrow> mutation_busy (modems b' ! r)"
    if "r < length (modems b')" for r
    using locks rely that bound [of r] unfolding locks_def registry_change_def modem_rely_def
    by (cases "r < length (modems (ubus_bridge u))"; force)+
  ultimately show ?thesis using locks by (simp add: locks_def)
qed

lemma held_delete:
  assumes "distinct (map fst t)" and "map_of t k = Some op" and "distinct (concat (map (held \<circ> snd) t))"
  shows "distinct (concat (map (held \<circ> snd) (AList.delete k t)))"
    and "set (concat (map (held \<circ> snd) (AList.delete k t))) =
      set (concat (map (held \<circ> snd) t)) - set (held op)"
proof -
  have "distinct (concat (map (held \<circ> snd) (AList.delete k t))) \<and>
      set (concat (map (held \<circ> snd) (AList.delete k t))) =
        set (concat (map (held \<circ> snd) t)) - set (held op)"
    using assms
  proof (induction t)
    case (Cons x t)
    obtain k' op' where x: "x = (k', op')" by (cases x)
    show ?case
    proof (cases "k' = k")
      case True
      with Cons.prems x have "k \<notin> fst ` set t" "op' = op" by auto
      then have "AList.delete k (x # t) = t" using x True by (simp add: delete_id)
      then show ?thesis using Cons.prems x \<open>op' = op\<close> by auto
    next
      case False
      with Cons x have mem: "map_of t k = Some op" by simp
      then have "set (held op) \<subseteq> set (concat (map (held \<circ> snd) t))" by (force dest: map_of_SomeD)
      with Cons x False mem show ?thesis by auto
    qed
  qed simp
  then show "distinct (concat (map (held \<circ> snd) (AList.delete k t)))"
    "set (concat (map (held \<circ> snd) (AList.delete k t))) =
      set (concat (map (held \<circ> snd) t)) - set (held op)" by blast+
qed

lemma release_modem_fields:
  "generation (l850_mutation_release_modem now c m) = generation m"
  "live (l850_mutation_release_modem now c m) = live m"
  "modem_id (l850_mutation_release_modem now c m) = modem_id m"
  "mutation_kind (l850_mutation_release_modem now c m) \<noteq> MUTATION_L850"
  by (simp_all add: l850_mutation_release_modem_def l850_mutation_apply_cooldown_def Let_def)

lemma kept_mutation_fields:
  "same_tables m' m \<Longrightarrow> modem_id m' = modem_id m \<Longrightarrow> kept m m'"
  using sms_inv_cong [of m' m] by (simp add: kept_def same_tables_def)

lemma kept_release: "kept m (l850_mutation_release_modem now c m)"
  by (rule kept_mutation_fields)
    (simp_all add: same_tables_def l850_mutation_release_modem_def l850_mutation_apply_cooldown_def Let_def)

lemma kept_claim: "kept m (claim_modem m)"
  by (rule kept_mutation_fields) (simp_all add: same_tables_def claim_modem_def)

text \<open>What the release does to the heap: the held modems are released, the others untouched.\<close>

lemma operation_free_modems:
  fixes now k
  assumes "op_modems op (ubus_bridge u)"
  defines "u' \<equiv> l850_mutation_operation_free now k op u"
  shows "length (modems (ubus_bridge u')) = length (modems (ubus_bridge u))"
    and "\<And>r. r < length (modems (ubus_bridge u)) \<Longrightarrow> modem_at u' r =
      (if r \<in> set (held op) then l850_mutation_release_modem now (set_dispatched op) (modem_at u r)
       else modem_at u r)"
    and "mutation_operations u' = AList.delete k (mutation_operations u)"
    and "trace u' = trace u" and "next_operation u' = next_operation u"
  using assms
  by (auto simp: l850_mutation_operation_free_def Let_def op_modems_def held_def on_modem_nth
      split: option.splits)

lemma operation_free_registry:
  "registry_inv (ubus_bridge u) \<Longrightarrow> registry_inv (ubus_bridge (l850_mutation_operation_free now k op u))"
  by (auto simp: l850_mutation_operation_free_def Let_def registry_on_modem kept_release split: option.splits)

lemma outside_free:
  assumes out: "outside k op u"
  shows "mutation_inv (l850_mutation_operation_free now k op u)" (is "mutation_inv ?u")
proof -
  have frame: "frame_inv u" and om: "op_modems op (ubus_bridge u)"
    and others: "\<And>k' op'. (k', op') \<in> set (mutation_operations u) \<Longrightarrow> k' \<noteq> k \<Longrightarrow> op_inv u k' op'"
    using out by (auto simp: outside_def)
  obtain op0 where op0: "map_of (mutation_operations u) k = Some op0" "held op0 = held op"
    using out by (auto simp: outside_def)
  note f = operation_free_modems [OF om, where now = now and k = k]
  have dist: "distinct (map fst (mutation_operations u))" and locks: "locks u"
    using frame by (simp_all add: frame_inv_def)
  have all: "distinct (held_all ?u)" "set (held_all ?u) = set (held_all u) - set (held op)"
    using held_delete [OF dist op0(1)] locks unfolding held_all_def f(3) locks_def op0(2) by auto
  have "locks ?u"
    using locks all f(1,2) release_modem_fields(4) unfolding locks_def by (auto split: if_splits)
  moreover have "map (op_physdev \<circ> snd) (mutation_operations ?u) =
      map (op_physdev \<circ> snd) (filter (\<lambda>x. fst x \<noteq> k) (mutation_operations u))"
    by (simp add: f(3) delete_filter)
  ultimately have "frame_inv ?u"
    using frame operation_free_registry [of u now k op] unfolding frame_inv_def
    by (auto simp: f distinct_delete distinct_map_filter delete_filter)
  moreover have "op_inv ?u k' op'" if "(k', op') \<in> set (mutation_operations ?u)" for k' op'
  proof -
    have "(k', op') \<in> set (mutation_operations u)" "k' \<noteq> k" using that by (auto simp: f(3) delete_filter)
    from others [OF this] show ?thesis
      using f(1,2,4) release_modem_fields(1)
      by (auto simp: op_inv_def intro!: op_modems_rely [of op' "ubus_bridge u"])
  qed
  ultimately show ?thesis by (auto simp: mutation_inv_def)
qed

lemma outside_deferred [simp]: "outside k (op\<lparr>deferred := x\<rparr>) u = outside k op u"
proof -
  have "op_modems (op\<lparr>deferred := x\<rparr>) b = op_modems op b" for b by (rule op_modems_cong) simp_all
  then show ?thesis by (simp add: outside_def held_def)
qed

lemma inside_complete:
  assumes ins: "inside k op u" and goal: "goal (history k (trace u)) = Some op0"
    and rep: "reply_allowed op0 rep (history k (trace u))"
  shows "mutation_inv (l850_mutation_complete_buffer now k op rep u)"
proof -
  have out: "outside k op u" and "\<not> replied (history k (trace u))"
    using ins by (simp_all add: inside_def op_history_def)
  then have "outside k op (emit (Reply k rep) u)"
    using goal rep by (intro outside_emit) simp_all
  with out have "outside k (op\<lparr>deferred := False\<rparr>)
      (if deferred op \<and> connected u \<and> context_initialized u \<and> \<not> ubus_stopping u
       then emit (Reply k rep) u else u)" by auto
  then show ?thesis unfolding l850_mutation_complete_buffer_def by (rule outside_free)
qed

lemma inside_goal:
  assumes "inside k op u"
  obtains op0 where "goal (history k (trace u)) = Some op0" and "same_goal op0 op"
  using assms by (auto simp: inside_def op_history_def)

lemma inside_failure:
  assumes ins: "inside k op u"
    and retry: "retry \<longrightarrow> \<not> configuration_acknowledged op \<and> \<not> reset_dispatched op"
  shows "mutation_inv (l850_mutation_complete_failure now k op state err retry u)"
proof -
  obtain op0 where op0: "goal (history k (trace u)) = Some op0" "same_goal op0 op"
    using inside_goal [OF ins] .
  show ?thesis unfolding l850_mutation_complete_failure_def
    using ins retry op0(2) by (intro inside_complete [OF ins op0(1)])
      (auto simp: reply_allowed_def inside_def op_history_def same_goal_def
        l850_mutation_response_modem_def)
qed

end
