(* ===== verification/Expert_Handlers.thy ===== *)
theory Expert_Handlers
  imports Expert_Protocol
begin

text \<open>
  Every handler of the cell lock coordinator keeps the invariant of the service: the answers to the
  probe, the set command, the lock register reads, the reset and the scan, the poll in each phase,
  the timeout, the cancellation and the two requests.
\<close>

section \<open>Handlers\<close>

lemma answered_fields [simp]:
  "op_type (answered op) = op_type op" "op_phase (answered op) = op_phase op"
  "original (answered op) = original op" "replacement (answered op) = replacement op"
  "op_physdev (answered op) = op_physdev op" "op_verifier (answered op) = op_verifier op"
  "configuration_acknowledged (answered op) = configuration_acknowledged op"
  "set_dispatched (answered op) = set_dispatched op" "reset_dispatched (answered op) = reset_dispatched op"
  "poll_source (answered op) = poll_source op" "op_earfcn (answered op) = op_earfcn op"
  "op_pci (answered op) = op_pci op" "op_has_pci (answered op) = op_has_pci op"
  "set_command (answered op) = set_command op" "timed_out (answered op) = timed_out op"
  "original_generation (answered op) = original_generation op" "held (answered op) = held op"
  by (simp_all add: answered_def held_def)

lemma same_goal_answered [simp]: "same_goal op0 (answered op) = same_goal op0 op"
  by (simp add: same_goal_def)

lemma confirms_goal: "same_goal op0 op \<Longrightarrow> confirms op0 = confirms op"
  by (simp add: same_goal_def confirms_def)

lemma confirms_cong:
  "op_type op' = op_type op \<Longrightarrow> op_earfcn op' = op_earfcn op \<Longrightarrow> op_has_pci op' = op_has_pci op \<Longrightarrow>
   op_pci op' = op_pci op \<Longrightarrow> confirms op' = confirms op"
  by (simp add: confirms_def)

lemma shows_cell_goal: "same_goal op0 op \<Longrightarrow> shows_cell op0 = shows_cell op"
  by (simp add: same_goal_def shows_cell_def)

lemma inv_op:
  assumes "mutation_inv u" and "map_of (mutation_operations u) k = Some op"
  shows "inside k op u" and "op_waits op (history k (trace u))"
proof -
  have "op_inv u k op" using assms by (auto simp: mutation_inv_def dest: map_of_SomeD)
  with assms show "inside k op u" "op_waits op (history k (trace u))"
    by (auto simp: inside_def outside_def mutation_inv_def op_inv_def)
qed

text \<open>The state a handler starts in: the answer is recorded, the call is over.\<close>

lemma answer_phase:
  assumes inv: "mutation_inv u" and op: "map_of (mutation_operations u) k = Some op"
    and pend: "pending_call op = Some (cb, r)"
  shows "phase_callback (op_phase op) = Some cb" and "\<not> poll_source op"
    and "outstanding (history k (trace u)) = Some cb"
  using inv_op(2) [OF inv op] pend by (simp_all add: op_waits_def)

lemma answer_inside:
  assumes inv: "mutation_inv u" and op: "map_of (mutation_operations u) k = Some op"
    and pend: "pending_call op = Some (cb, r)"
  shows "inside k (answered op) (emit (Answer k cb src err resp) u)" (is "inside k _ ?u")
proof -
  note ins = inv_op [OF inv op] and out = answer_phase(3) [OF inv op pend]
  have "\<not> replied (history k (trace u))" using ins(1) by (simp add: inside_def op_history_def)
  then have "outside k op ?u" using ins(1) out by (intro outside_emit) (simp_all add: inside_def)
  moreover have "op_modems (answered op) b = op_modems op b" for b
    by (rule op_modems_cong) (simp_all add: answered_def)
  ultimately have "outside k (answered op) ?u" by (simp add: outside_def)
  moreover have "acknowledged (history k (trace u)) \<Longrightarrow>
      acknowledged (Answer k cb src err resp # history k (trace u))" by (simp add: acknowledged_def)
  ultimately show ?thesis
    using ins(1) out by (auto simp: inside_def op_history_def)
qed

lemma nvm_parse_allocated:
  "nvm_parse a resp st = (CELL_OK, lock) \<Longrightarrow> nvm_parse True resp st = (CELL_OK, lock)"
  by (cases a) (auto simp: nvm_parse_def split: option.splits if_splits)

lemma cell_parse_allocated:
  "cell_parse a resp st = (CELL_OK, scan) \<Longrightarrow> cell_parse True resp st = (CELL_OK, scan)"
  by (cases a) (auto simp: cell_parse_def split: option.splits if_splits)

lemma phase_callback_phases:
  "phase_callback p = Some PROBE_READY \<longleftrightarrow> p = PHASE_PROTOCOL_PROBE"
  "phase_callback p = Some SET_READY \<longleftrightarrow> p = PHASE_SET_COMMAND"
  "phase_callback p = Some RESET_READY \<longleftrightarrow> p = PHASE_RESET_COMMAND"
  "phase_callback p = Some CELL_READY \<longleftrightarrow> p = PHASE_CELL_VERIFY"
  "phase_callback p = Some NVM_READY \<longleftrightarrow> p = PHASE_PRE_RESET_NVM_VERIFY \<or> p = PHASE_NVM_VERIFY"
  by (cases p; simp)+

lemma inside_flags:
  assumes "inside k op u"
  shows "set_dispatched op \<longleftrightarrow> after_set (op_phase op)"
    and "configuration_acknowledged op \<longleftrightarrow> after_ack (op_phase op)"
    and "reset_dispatched op \<longleftrightarrow> after_reset (op_phase op)"
    and "replacement op \<noteq> None \<longleftrightarrow> after_replacement (op_phase op)"
    and "op_modems op (ubus_bridge u)"
  using assms by (simp_all add: inside_def op_history_def outside_def)

lemma probe_ready_inv:
  assumes inv: "mutation_inv u" and op: "map_of (mutation_operations u) k = Some op"
    and pend: "pending_call op = Some (PROBE_READY, r)"
  shows "mutation_inv (l850_mutation_probe_ready e k op src err resp
    (emit (Answer k PROBE_READY src err resp) u))"
proof -
  let ?u = "emit (Answer k PROBE_READY src err resp) u"
  note a = answer_inside [OF inv op pend, of src err resp] and ph = answer_phase [OF inv op pend]
  have phase: "op_phase op = PHASE_PROTOCOL_PROBE" using ph(1) by (simp add: phase_callback_phases)
  have fail: "mutation_inv (l850_mutation_complete_failure now k (answered op) s c retry ?u)" for now s c retry
    using inside_flags [OF a] phase by (intro inside_failure [OF a]) simp
  have set: "mutation_inv (l850_mutation_dispatch_set e k (answered op) ?u)"
    if "err = None" "fst (nvm_parse (memory_left e) resp (Some zero_lock)) = CELL_OK"
  proof (cases "l850_mutation_original_is_valid (around e) (answered op) (object_of (original op) ?u) ?u")
    case False
    then show ?thesis using fail by (simp add: l850_mutation_dispatch_set_def)
  next
    case True
    obtain op0 where op0: "goal (history k (trace ?u)) = Some op0" "same_goal op0 (answered op)"
      using inside_goal [OF a] .
    let ?op = "l850_mutation_replace_cancellable ((answered op)\<lparr>op_phase := PHASE_SET_COMMAND,
      set_dispatched := True, command_pending := True\<rparr>)"
    let ?c = "if op_type op = L850_MUTATION_CLEAR then clear_command else set_command op"
    have probe: "first_answer probe_ok (history k (trace ?u))"
      using that nvm_parse_allocated [of "memory_left e" resp "Some zero_lock"]
      by (cases "nvm_parse (memory_left e) resp (Some zero_lock)")
        (auto simp: first_answer_def probe_ok_def)
    have flags: "SET_READY \<notin> set (sent_commands (history k (trace ?u)))"
      using a phase by (auto simp: inside_def op_history_def)
    have cmd: "command_allowed op0 SET_READY (original op) ?c (history k (trace ?u))"
      using probe flags op0(2) by (auto simp: command_allowed_def same_goal_def)
    have hist: "op_history (?op\<lparr>pending_call := Some (SET_READY, original op)\<rparr>)
        (Command k SET_READY (original op) ?c # history k (trace ?u))"
      using a phase op0 cmd
      by (auto simp: inside_def op_history_def l850_mutation_replace_cancellable_def same_goal_def)
    have "op_modems ?op b = op_modems (answered op) b" for b
      by (rule op_modems_cong) (simp_all add: l850_mutation_replace_cancellable_def)
    with inside_flags(5) [OF a] ph(2)
    have "mutation_inv (mm_modem_command k ?op SET_READY (original op) ?c ?u)"
      by (intro inside_command [OF a _ _ op0(1) cmd hist])
        (simp_all add: op_waits_def l850_mutation_replace_cancellable_def held_def)
    with True show ?thesis by (auto simp: l850_mutation_dispatch_set_def)
  qed
  show ?thesis
    using fail set by (auto simp: l850_mutation_probe_ready_def Let_def split: prod.splits)
qed

lemma nvm_command_inv:
  assumes ins: "inside k op u" and out: "outstanding (history k (trace u)) = None"
    and same: "held op' = held op" "op_physdev op' = op_physdev op" "op_modems op' (ubus_bridge u)"
    and hist: "op_history op' (history k (trace u))" and poll: "\<not> poll_source op'"
    and verifier: "op_phase op' = PHASE_PRE_RESET_NVM_VERIFY \<and> stage (op_verifier op') = VERIFY_PRE_RESET \<and>
        unat (consecutive_matches (op_verifier op')) \<le>
          length (takeWhile (confirms op') (got_answers (history k (trace u)))) \<or>
      op_phase op' = PHASE_NVM_VERIFY \<and> stage (op_verifier op') = VERIFY_POST_RESET"
  shows "mutation_inv (l850_mutation_start_nvm_command k op' u)"
proof -
  let ?op = "l850_mutation_replace_cancellable (op'\<lparr>command_pending := True\<rparr>)"
  let ?r = "if op_phase op' = PHASE_PRE_RESET_NVM_VERIFY then original op' else the (replacement op')"
  obtain op0 where op0: "goal (history k (trace u)) = Some op0" "same_goal op0 op'"
    using hist by (auto simp: op_history_def)
  have ack: "acknowledged (history k (trace u))" using hist verifier by (auto simp: op_history_def)
  then have cmd: "command_allowed op0 NVM_READY ?r nvm_query_command (history k (trace u))"
    using out by (simp add: command_allowed_def)
  have "op_history (?op\<lparr>pending_call := Some (NVM_READY, ?r)\<rparr>)
      (Command k NVM_READY ?r nvm_query_command # history k (trace u))"
    using hist op0 cmd ack
    by (simp add: op_history_def l850_mutation_replace_cancellable_def same_goal_def acknowledged_def)
  moreover have "confirms (?op\<lparr>pending_call := Some (NVM_READY, ?r)\<rparr>) = confirms op'"
    by (rule confirms_cong) (simp_all add: l850_mutation_replace_cancellable_def)
  then have "op_waits (?op\<lparr>pending_call := Some (NVM_READY, ?r)\<rparr>)
      (Command k NVM_READY ?r nvm_query_command # history k (trace u))"
    using verifier poll by (auto simp: op_waits_def l850_mutation_replace_cancellable_def)
  moreover have "op_modems ?op b = op_modems op' b" for b
    by (rule op_modems_cong) (simp_all add: l850_mutation_replace_cancellable_def)
  ultimately have "mutation_inv (mm_modem_command k ?op NVM_READY ?r nvm_query_command u)"
    using same by (intro inside_command [OF ins _ _ op0(1) cmd])
      (simp_all add: l850_mutation_replace_cancellable_def held_def)
  then show ?thesis by (simp add: l850_mutation_start_nvm_command_def Let_def)
qed

lemma op_history_acknowledge:
  assumes "op_history op h" and "op_phase op = PHASE_SET_COMMAND" and "acknowledged h"
    and "op_phase op' = PHASE_PRE_RESET_NVM_VERIFY" and "configuration_acknowledged op'"
    and "set_dispatched op' = set_dispatched op" "reset_dispatched op' = reset_dispatched op"
    and "replacement op' = replacement op" and "\<And>op0. same_goal op0 op' = same_goal op0 op"
  shows "op_history op' h"
  using assms by (simp add: op_history_def)

lemma set_ready_inv:
  assumes inv: "mutation_inv u" and op: "map_of (mutation_operations u) k = Some op"
    and pend: "pending_call op = Some (SET_READY, r)"
  shows "mutation_inv (l850_mutation_set_ready e k op src err resp
    (emit (Answer k SET_READY src err resp) u))"
proof -
  let ?u = "emit (Answer k SET_READY src err resp) u"
  note a = answer_inside [OF inv op pend, of src err resp] and ph = answer_phase [OF inv op pend]
  have phase: "op_phase op = PHASE_SET_COMMAND" using ph(1) by (simp add: phase_callback_phases)
  have fail: "mutation_inv (l850_mutation_complete_failure now k (answered op) s c retry ?u)" for now s c retry
    using inside_flags [OF a] phase by (intro inside_failure [OF a]) simp
  have verify: "mutation_inv (l850_mutation_start_nvm_verification (monotonic_now e) k
      ((answered op)\<lparr>configuration_acknowledged := True\<rparr>) VERIFY_PRE_RESET ?u)"
    if "err = None" "set_response_is_success resp"
  proof -
    have ack: "acknowledged (history k (trace ?u))" using that by (simp add: acknowledged_def)
    let ?op = "(answered op)\<lparr>configuration_acknowledged := True, op_phase := PHASE_PRE_RESET_NVM_VERIFY,
      phase_deadline := monotonic_now e + L850_NVM_VERIFY_TIMEOUT_SECONDS * MICROSECONDS_PER_SECOND,
      verification_stage := Some ''pre_reset_nvm'',
      op_verifier := (op_verifier op)\<lparr>stage := VERIFY_PRE_RESET, consecutive_matches := 0\<rparr>\<rparr>"
    have "op_history (answered op) (history k (trace ?u))" using a by (simp add: inside_def)
    then have "op_history ?op (history k (trace ?u))"
      by (rule op_history_acknowledge) (use phase ack in \<open>simp_all add: same_goal_def\<close>)
    moreover have "op_modems ?op b = op_modems (answered op) b" for b
      by (rule op_modems_cong) simp_all
    ultimately have "mutation_inv (l850_mutation_start_nvm_command k ?op ?u)"
      using inside_flags(5) [OF a] ph(2)
      by (intro nvm_command_inv [OF a]) (simp_all add: held_def)
    then show ?thesis
      by (simp add: l850_mutation_start_nvm_verification_def nvm_verifier_init_def)
  qed
  show ?thesis
    using fail verify by (auto simp: l850_mutation_set_ready_def Let_def split: prod.splits)
qed

lemma reset_ready_inv:
  assumes inv: "mutation_inv u" and op: "map_of (mutation_operations u) k = Some op"
    and pend: "pending_call op = Some (RESET_READY, r)"
  shows "mutation_inv (l850_mutation_reset_ready e k op err
    (emit (Answer k RESET_READY src err resp) u))"
proof -
  let ?u = "emit (Answer k RESET_READY src err resp) u"
  note a = answer_inside [OF inv op pend, of src err resp] and ph = answer_phase [OF inv op pend]
  have phase: "op_phase op = PHASE_RESET_COMMAND" using ph(1) by (simp add: phase_callback_phases)
  have fail: "mutation_inv (l850_mutation_complete_failure now k (answered op) s c False ?u)" for now s c
    by (intro inside_failure [OF a]) simp
  have "mutation_inv (l850_mutation_start_reprobe (monotonic_now e) k (answered op) ?u)"
  proof -
    let ?op = "(l850_mutation_replace_cancellable ((answered op)\<lparr>op_phase := PHASE_REPROBE,
      phase_deadline := monotonic_now e + L850_REPROBE_TIMEOUT_SECONDS * MICROSECONDS_PER_SECOND\<rparr>))
      \<lparr>poll_source := True\<rparr>"
    have "op_history ?op (history k (trace ?u))"
      using a phase
      by (simp add: inside_def op_history_def l850_mutation_replace_cancellable_def same_goal_def)
    moreover have "op_waits ?op (history k (trace ?u))"
      by (simp add: op_waits_def l850_mutation_replace_cancellable_def answered_def)
    moreover have "op_modems ?op b = op_modems (answered op) b" for b
      by (rule op_modems_cong) (simp_all add: l850_mutation_replace_cancellable_def)
    ultimately have "op_inv ?u k ?op" using inside_flags(5) [OF a] by (simp add: op_inv_def)
    moreover have "held ?op = held (answered op)" "op_physdev ?op = op_physdev (answered op)"
      by (simp_all add: held_def l850_mutation_replace_cancellable_def)
    moreover have "outside k (answered op) ?u" using a by (simp add: inside_def)
    ultimately show ?thesis
      unfolding l850_mutation_start_reprobe_def by (blast intro: inside_store)
  qed
  then show ?thesis
    using fail by (auto simp: l850_mutation_reset_ready_def Let_def split: prod.splits)
qed

lemma inside_cong:
  assumes "held op' = held op" "op_modems op' (ubus_bridge u) = op_modems op (ubus_bridge u)"
    "op_physdev op' = op_physdev op"
    and "\<And>op0. same_goal op0 op' = same_goal op0 op" and "op_phase op' = op_phase op"
    "set_dispatched op' = set_dispatched op" "reset_dispatched op' = reset_dispatched op"
    "configuration_acknowledged op' = configuration_acknowledged op" "replacement op' = replacement op"
  shows "inside k op' u = inside k op u"
  using assms by (simp add: inside_def outside_def op_history_def)

lemma inside_updates [simp]:
  "inside k (op\<lparr>op_verifier := v\<rparr>) u = inside k op u"
  "inside k (op\<lparr>verification_stage := st\<rparr>) u = inside k op u"
  "inside k (op\<lparr>poll_source := p\<rparr>) u = inside k op u"
  by (rule inside_cong; simp add: held_def same_goal_def op_modems_def split: option.split)+

lemma observe_cases:
  assumes "nvm_verifier_observe (Some w) (if m then OBSERVATION_MATCH else OBSERVATION_MISMATCH) = (d, v)"
  shows "\<exists>w'. v = Some w' \<and> stage w' = stage w \<and> d \<noteq> DECISION_FAIL_INVALID \<and>
    (if m then unat (consecutive_matches w') \<le> Suc (unat (consecutive_matches w)) \<and>
       (d \<noteq> DECISION_RETRY \<longrightarrow> required_matches (stage w) \<le> consecutive_matches w')
     else consecutive_matches w' = 0 \<and> d = DECISION_RETRY)"
  using assms unat_plus1_less [of "consecutive_matches w" "required_matches (stage w)"]
  by (auto simp: nvm_verifier_observe_def Let_def split: if_splits)

lemma success_inv:
  assumes ins: "inside k op u" and phase: "after_replacement (op_phase op)"
    and nvm: "list_ex (confirms op) (since_reset (history k (trace u)))"
    and cell: "op_type op = L850_MUTATION_SET \<Longrightarrow>
      \<exists>c. cell = Some c \<and> first_answer (shows_cell op c) (history k (trace u))"
  shows "mutation_inv (l850_mutation_complete_success now k op cell u)"
proof -
  obtain op0 where op0: "goal (history k (trace u)) = Some op0" "same_goal op0 op"
    using inside_goal [OF ins] .
  note f = inside_flags [OF ins]
  have late: "after_ack (op_phase op)" "after_reset (op_phase op)"
    using phase by (cases "op_phase op"; simp)+
  have hist: "acknowledged (history k (trace u))" "RESET_READY \<in> set (sent_commands (history k (trace u)))"
    using ins f(2) late by (auto simp: inside_def op_history_def)
  have r: "l850_mutation_response_modem op \<noteq> original op"
    using f(4,5) phase by (auto simp: l850_mutation_response_modem_def op_modems_def split: option.splits)
  have eq: "confirms op0 = confirms op" "shows_cell op0 = shows_cell op" "op_type op0 = op_type op"
    "original op0 = original op"
    using confirms_goal [OF op0(2)] shows_cell_goal [OF op0(2)] op0(2) by (auto simp: same_goal_def)
  show ?thesis unfolding l850_mutation_complete_success_def
    using hist r nvm cell by (intro inside_complete [OF ins op0(1)]) (auto simp: reply_allowed_def eq)
qed

lemma reset_inv:
  assumes ins: "inside k op u" and out: "outstanding (history k (trace u)) = None"
    and phase: "op_phase op = PHASE_PRE_RESET_NVM_VERIFY" and poll: "\<not> poll_source op"
    and two: "2 \<le> length (takeWhile (confirms op) (got_answers (history k (trace u))))"
  shows "mutation_inv (l850_mutation_start_reset e k op u)"
proof (cases "l850_mutation_original_is_valid (around e) op (object_of (original op) u) u")
  case False
  have "mutation_inv (l850_mutation_complete_failure (monotonic_now e) k op
      ''lock_applied_reset_required'' ''device_gone'' False u)"
    by (rule inside_failure [OF ins]) simp
  with False show ?thesis by (simp add: l850_mutation_start_reset_def)
next
  case True
  obtain op0 where op0: "goal (history k (trace u)) = Some op0" "same_goal op0 op"
    using inside_goal [OF ins] .
  let ?op = "l850_mutation_replace_cancellable (op\<lparr>op_phase := PHASE_RESET_COMMAND,
    reset_dispatched := True, command_pending := True\<rparr>)"
  have hist: "op_history op (history k (trace u))" using ins by (simp add: inside_def)
  have cmd: "command_allowed op0 RESET_READY (original op) reset_command (history k (trace u))"
    using hist phase two out confirms_goal [OF op0(2)] op0(2)
    by (auto simp: command_allowed_def op_history_def same_goal_def)
  have "op_history (?op\<lparr>pending_call := Some (RESET_READY, original op)\<rparr>)
      (Command k RESET_READY (original op) reset_command # history k (trace u))"
    using hist phase op0 cmd
    by (auto simp: op_history_def l850_mutation_replace_cancellable_def same_goal_def acknowledged_def)
  moreover have "op_modems ?op b = op_modems op b" for b
    by (rule op_modems_cong) (simp_all add: l850_mutation_replace_cancellable_def)
  ultimately have "mutation_inv (mm_modem_command k ?op RESET_READY (original op) reset_command u)"
    using inside_flags(5) [OF ins] poll by (intro inside_command [OF ins _ _ op0(1) cmd])
      (simp_all add: op_waits_def l850_mutation_replace_cancellable_def held_def)
  with True show ?thesis by (simp add: l850_mutation_start_reset_def)
qed

lemma scan_inv_step:
  assumes ins: "inside k op u" and out: "outstanding (history k (trace u)) = None"
    and phase: "op_phase op = PHASE_NVM_VERIFY" and poll: "\<not> poll_source op"
    and set: "op_type op = L850_MUTATION_SET"
    and nvm: "list_ex (confirms op) (since_reset (history k (trace u)))"
  shows "mutation_inv (mm_modem_command k (l850_mutation_replace_cancellable
    (op\<lparr>op_phase := PHASE_CELL_VERIFY, command_pending := True\<rparr>)) CELL_READY (the (replacement op))
    scan_command u)" (is "mutation_inv (mm_modem_command k ?op CELL_READY ?r scan_command u)")
proof -
  obtain op0 where op0: "goal (history k (trace u)) = Some op0" "same_goal op0 op"
    using inside_goal [OF ins] .
  have hist: "op_history op (history k (trace u))" using ins by (simp add: inside_def)
  note f = inside_flags [OF ins]
  have r: "?r \<noteq> original op" using f(4,5) phase by (auto simp: op_modems_def)
  have cmd: "command_allowed op0 CELL_READY ?r scan_command (history k (trace u))"
    using hist phase nvm out r confirms_goal [OF op0(2)] op0(2)
    by (auto simp: command_allowed_def op_history_def same_goal_def)
  have "op_history (?op\<lparr>pending_call := Some (CELL_READY, ?r)\<rparr>)
      (Command k CELL_READY ?r scan_command # history k (trace u))"
    using hist phase op0 cmd
    by (auto simp: op_history_def l850_mutation_replace_cancellable_def same_goal_def acknowledged_def)
  moreover have "confirms (?op\<lparr>pending_call := Some (CELL_READY, ?r)\<rparr>) = confirms op"
    by (rule confirms_cong) (simp_all add: l850_mutation_replace_cancellable_def)
  then have "op_waits (?op\<lparr>pending_call := Some (CELL_READY, ?r)\<rparr>)
      (Command k CELL_READY ?r scan_command # history k (trace u))"
    using poll set nvm by (simp add: op_waits_def l850_mutation_replace_cancellable_def)
  moreover have "op_modems ?op b = op_modems op b" for b
    by (rule op_modems_cong) (simp_all add: l850_mutation_replace_cancellable_def)
  ultimately show ?thesis
    using f(5) by (intro inside_command [OF ins _ _ op0(1) cmd])
      (simp_all add: l850_mutation_replace_cancellable_def held_def)
qed

text \<open>What a readable report makes of a verification in progress.\<close>

lemma nvm_report_inv:
  assumes ins: "inside k op u" and hist: "history k (trace u) = Answer k NVM_READY src None resp # h"
    and phase: "op_phase op = PHASE_PRE_RESET_NVM_VERIFY \<or> op_phase op = PHASE_NVM_VERIFY"
    and pre: "op_phase op = PHASE_PRE_RESET_NVM_VERIFY \<Longrightarrow> stage (op_verifier op) = VERIFY_PRE_RESET \<and>
      unat (consecutive_matches (op_verifier op)) \<le> length (takeWhile (confirms op) (got_answers h))"
    and post: "op_phase op = PHASE_NVM_VERIFY \<Longrightarrow> stage (op_verifier op) = VERIFY_POST_RESET"
    and idle: "\<not> poll_source op" "pending_call op = None" "\<not> command_pending op"
    and obs: "nvm_verifier_observe (Some (op_verifier op))
      (if m then OBSERVATION_MATCH else OBSERVATION_MISMATCH) = (d, v)"
    and m: "m = confirms op (NVM_READY, None, resp)"
  shows "mutation_inv (store k ((op\<lparr>op_verifier := the v\<rparr>)\<lparr>poll_source := True\<rparr>) u)"
    and "d \<noteq> DECISION_RETRY \<Longrightarrow> op_phase op = PHASE_PRE_RESET_NVM_VERIFY \<Longrightarrow>
      mutation_inv (l850_mutation_start_reset e k (op\<lparr>op_verifier := the v, verification_stage := None\<rparr>) u)"
    and "d \<noteq> DECISION_RETRY \<Longrightarrow> list_ex (confirms op) (since_reset (history k (trace u)))"
proof -
  obtain w where w: "v = Some w" "stage w = stage (op_verifier op)"
    "if m then unat (consecutive_matches w) \<le> Suc (unat (consecutive_matches (op_verifier op))) \<and>
       (d \<noteq> DECISION_RETRY \<longrightarrow> required_matches (stage (op_verifier op)) \<le> consecutive_matches w)
     else consecutive_matches w = 0 \<and> d = DECISION_RETRY"
    using observe_cases [OF obs] by blast
  let ?A = "got_answers (history k (trace u))"
  have conf: "confirms (op\<lparr>op_verifier := w\<rparr>\<lparr>poll_source := True\<rparr>) = confirms op"
    "confirms (op\<lparr>op_verifier := w, verification_stage := None\<rparr>) = confirms op"
    by (rule confirms_cong; simp)+
  have counted: "unat (consecutive_matches w) \<le> length (takeWhile (confirms op) ?A)"
    if "op_phase op = PHASE_PRE_RESET_NVM_VERIFY"
    using w(3) pre [OF that] m by (auto simp: hist split: if_splits)
  have "op_history ((op\<lparr>op_verifier := w\<rparr>)\<lparr>poll_source := True\<rparr>) (history k (trace u))"
    using ins by (simp add: inside_def op_history_def same_goal_def)
  moreover have "op_waits ((op\<lparr>op_verifier := w\<rparr>)\<lparr>poll_source := True\<rparr>) (history k (trace u))"
    using idle w(2) pre post phase counted conf(1) by (auto simp: op_waits_def hist)
  moreover have "op_modems ((op\<lparr>op_verifier := w\<rparr>)\<lparr>poll_source := True\<rparr>) b = op_modems op b" for b
    by (rule op_modems_cong) simp_all
  ultimately show "mutation_inv (store k ((op\<lparr>op_verifier := the v\<rparr>)\<lparr>poll_source := True\<rparr>) u)"
    using ins inside_flags(5) [OF ins]
    by (intro inside_store [of k op]) (auto simp: w(1) inside_def op_inv_def held_def)
  show "list_ex (confirms op) (since_reset (history k (trace u)))" if "d \<noteq> DECISION_RETRY"
    using that w(3) m by (auto simp: hist split: if_splits)
  assume d: "d \<noteq> DECISION_RETRY" and ph: "op_phase op = PHASE_PRE_RESET_NVM_VERIFY"
  then have "2 \<le> consecutive_matches w" using w(3) pre [OF ph] by (auto split: if_splits)
  then have "2 \<le> length (takeWhile (confirms op) ?A)"
    using counted [OF ph] by (simp add: word_le_nat_alt)
  then show "mutation_inv (l850_mutation_start_reset e k (op\<lparr>op_verifier := the v, verification_stage := None\<rparr>) u)"
    using ins ph idle conf(2) by (intro reset_inv) (auto simp: w(1) hist)
qed

lemma nvm_ready_inv:
  assumes inv: "mutation_inv u" and op: "map_of (mutation_operations u) k = Some op"
    and pend: "pending_call op = Some (NVM_READY, r)"
  shows "mutation_inv (l850_mutation_nvm_ready e k op src err resp
    (emit (Answer k NVM_READY src err resp) u))"
proof -
  let ?u = "emit (Answer k NVM_READY src err resp) u" and ?op = "answered op"
  note a = answer_inside [OF inv op pend, of src err resp] and ph = answer_phase [OF inv op pend]
  have phase: "op_phase op = PHASE_PRE_RESET_NVM_VERIFY \<or> op_phase op = PHASE_NVM_VERIFY"
    using ph(1) by (simp add: phase_callback_phases)
  have fail: "mutation_inv (l850_mutation_complete_failure now k op' s c False ?u)"
    if "inside k op' ?u" for now s c op'
    by (rule inside_failure [OF that]) simp
  have read: "mutation_inv (nvm_registers_read e k ?op lock ?u)"
    if err: "err = None" and parse: "nvm_parse (memory_left e) resp (Some zero_lock) = (CELL_OK, Some lock)"
    for lock
  proof -
    let ?m = "lock_state_matches (Some lock) (op_type op = L850_MUTATION_CLEAR)
      (op_earfcn op) (op_has_pci op) (op_pci op)"
    have m: "?m = confirms ?op (NVM_READY, None, resp)"
      using nvm_parse_allocated [OF parse] by (simp add: confirms_def nvm_confirms_def)
    obtain d v where obs: "nvm_verifier_observe (Some (op_verifier ?op))
        (if ?m then OBSERVATION_MATCH else OBSERVATION_MISMATCH) = (d, v)" by fastforce
    have conf: "confirms ?op = confirms op" "confirms (?op\<lparr>op_verifier := w, verification_stage := None\<rparr>) = confirms ?op" for w
      by (rule confirms_cong; simp)+
    have waits: "op_waits op (history k (trace u))" by (rule inv_op(2) [OF inv op])
    have idle: "\<not> poll_source ?op" "pending_call ?op = None" "\<not> command_pending ?op"
      using ph(2) by (simp_all add: answered_def)
    have hist: "history k (trace ?u) = Answer k NVM_READY src None resp # history k (trace u)"
      using err by simp
    have pre: "op_phase ?op = PHASE_PRE_RESET_NVM_VERIFY \<Longrightarrow> stage (op_verifier ?op) = VERIFY_PRE_RESET \<and>
        unat (consecutive_matches (op_verifier ?op)) \<le>
          length (takeWhile (confirms ?op) (got_answers (history k (trace u))))"
      and post: "op_phase ?op = PHASE_NVM_VERIFY \<Longrightarrow> stage (op_verifier ?op) = VERIFY_POST_RESET"
      using waits conf(1) by (simp_all add: op_waits_def)
    have phase': "op_phase ?op = PHASE_PRE_RESET_NVM_VERIFY \<or> op_phase ?op = PHASE_NVM_VERIFY"
      using phase by simp
    note report = nvm_report_inv [OF a hist phase' pre post idle obs m]
    have "mutation_inv (l850_mutation_complete_success (monotonic_now e) k
        (?op\<lparr>op_verifier := the v, verification_stage := None\<rparr>) None ?u)"
      if "d \<noteq> DECISION_RETRY" "op_phase op = PHASE_NVM_VERIFY" "op_type op = L850_MUTATION_CLEAR"
      using that a report(3) conf(2) by (intro success_inv) (simp_all del: since_reset.simps history_emit)
    moreover have "mutation_inv (mm_modem_command k (l850_mutation_replace_cancellable
        (?op\<lparr>op_verifier := the v, verification_stage := None, op_phase := PHASE_CELL_VERIFY,
          command_pending := True\<rparr>)) CELL_READY (the (replacement op)) scan_command ?u)"
      if "d \<noteq> DECISION_RETRY" "op_phase op = PHASE_NVM_VERIFY" "op_type op \<noteq> L850_MUTATION_CLEAR"
    proof -
      have "op_type op = L850_MUTATION_SET" using that(3) by (cases "op_type op") simp_all
      then show ?thesis
        using scan_inv_step [of k "?op\<lparr>op_verifier := the v, verification_stage := None\<rparr>" ?u]
          that a report(3) conf(2) idle by (simp del: since_reset.simps)
    qed
    ultimately show ?thesis
      using report(1,2) fail [of "?op\<lparr>op_verifier := the v\<rparr>"] a phase obs
      unfolding nvm_registers_read_def Let_def by auto
  qed
  show ?thesis
    using fail [OF a] fail [of "?op\<lparr>op_verifier := w\<rparr>" for w] a read
    unfolding l850_mutation_nvm_ready_def Let_def
    by (auto split: prod.splits option.splits cell_parse_result.splits)
qed

lemma scan_serving_sound:
  "scan_serving m scan found = Some (Some c) \<Longrightarrow> found \<noteq> Some c \<Longrightarrow> c \<in> set scan \<and> serving c"
  by (induction m scan found rule: scan_serving.induct) (auto split: if_splits)

lemma rely_outside:
  assumes out: "outside k op u" and rely: "bridge_rely (ubus_bridge u) b'" and reg: "registry_inv b'"
  shows "outside k op (u\<lparr>ubus_bridge := b'\<rparr>)"
proof -
  have gen: "generation (modems b' ! r) = generation (modem_at u r)" if "r < length (modems (ubus_bridge u))" for r
    using rely that by (simp add: registry_change_def modem_rely_def)
  have len: "length (modems (ubus_bridge u)) \<le> length (modems b')" using rely by (simp add: registry_change_def)
  note om = op_modems_rely [OF _ len gen]
  obtain op0 where op0: "map_of (mutation_operations u) k = Some op0" "held op0 = held op"
    using out by (auto simp: outside_def)
  have "r < length (modems (ubus_bridge u))" if r: "r \<in> set (held_all u)" for r
  proof -
    obtain k' op' where mem: "(k', op') \<in> set (mutation_operations u)" "r \<in> set (held op')"
      using r by (auto simp: held_all_def)
    show ?thesis
    proof (cases "k' = k")
      case True
      have "distinct (map fst (mutation_operations u))" using out by (simp add: outside_def frame_inv_def)
      with mem True op0 have "held op' = held op" by (metis map_of_is_SomeI option.inject)
      with mem(2) out show ?thesis by (auto simp: outside_def intro: held_bound)
    next
      case False
      with mem out show ?thesis by (auto simp: outside_def op_inv_def intro: held_bound)
    qed
  qed
  then have "locks (u\<lparr>ubus_bridge := b'\<rparr>)"
    using out rely by (intro locks_rely) (auto simp: outside_def frame_inv_def)
  then have "frame_inv (u\<lparr>ubus_bridge := b'\<rparr>)"
    using out reg by (auto simp: outside_def frame_inv_def)
  then show ?thesis using out om by (auto simp: outside_def op_inv_def)
qed

lemma with_modem_bridge: "with_modem r f u = u\<lparr>ubus_bridge := on_modem r f (ubus_bridge u)\<rparr>"
  by (simp add: with_modem_def)

lemma inside_with_modem:
  assumes ins: "inside k op u" and "kept (modem_at u r) (f (modem_at u r))"
    and "modem_rely (modem_at u r) (f (modem_at u r))"
  shows "inside k op (with_modem r f u)"
proof -
  have "registry_inv (ubus_bridge u)" using ins by (simp add: inside_def outside_def frame_inv_def)
  then have "registry_inv (on_modem r f (ubus_bridge u))" using assms(2) by (intro registry_on_modem)
  then show ?thesis
    using ins rely_outside [of k op u] expert.change_on_modem [of r "ubus_bridge u" f] assms(3)
    unfolding with_modem_bridge inside_def by simp
qed

lemma serving_cell_cache_store_rely:
  assumes "serving_cell_cache_store m a b c d p x q now reason = (ok, m')"
  shows "kept m m'" and "modem_rely m m'"
proof -
  have m': "m' = m \<or> (\<exists>cache. m' = m\<lparr>serving_cell_cache := cache, serving_cell_reason := reason\<rparr>)"
    using assms by (auto simp: serving_cell_cache_store_def split: if_splits option.splits)
  then show "kept m m'" by (intro kept_mutation_fields) (auto simp: same_tables_def)
  show "modem_rely m m'" using m' by (auto simp: modem_rely_def)
qed

lemma cell_ready_inv:
  assumes inv: "mutation_inv u" and op: "map_of (mutation_operations u) k = Some op"
    and pend: "pending_call op = Some (CELL_READY, r)"
  shows "mutation_inv (l850_mutation_cell_ready e k op src err resp
    (emit (Answer k CELL_READY src err resp) u))"
proof -
  let ?u = "emit (Answer k CELL_READY src err resp) u" and ?op = "answered op"
  note a = answer_inside [OF inv op pend, of src err resp] and ph = answer_phase [OF inv op pend]
  have phase: "op_phase op = PHASE_CELL_VERIFY" using ph(1) by (simp add: phase_callback_phases)
  have fail: "mutation_inv (l850_mutation_complete_failure now k ?op s c False u')"
    if "inside k ?op u'" for now s c u'
    by (rule inside_failure [OF that]) simp
  have conf: "confirms ?op = confirms op" by (rule confirms_cong) simp_all
  have waits: "op_waits op (history k (trace u))" by (rule inv_op(2) [OF inv op])
  then have nvm: "list_ex (confirms ?op) (since_reset (history k (trace ?u)))"
    using phase conf by (auto simp: op_waits_def)
  have read: "mutation_inv (cell_scan_read e k ?op scan ?u)"
    if err: "err = None" and parse: "cell_parse (memory_left e) resp (Some []) = (CELL_OK, Some scan)" for scan
  proof (cases "\<exists>c. scan_serving (modem_at ?u (the (replacement op))) scan None = Some (Some c) \<and>
      cell_earfcn c = op_earfcn op \<and> (op_has_pci op \<longrightarrow> cell_pci c = op_pci op)")
    case False
    with fail [OF a] show ?thesis
      unfolding cell_scan_read_def Let_def by (auto split: option.splits)
  next
    case True
    then obtain c where c: "scan_serving (modem_at ?u (the (replacement op))) scan None = Some (Some c)"
      "cell_earfcn c = op_earfcn op" "op_has_pci op \<longrightarrow> cell_pci c = op_pci op" by blast
    obtain ok m where store: "serving_cell_cache_store (modem_at ?u (the (replacement op))) (cell_earfcn c)
        (cell_pci c) (cell_band c) (Of_Int (rsrp_dbm c)) True (Of_Tenths (rsrq_tenths_db c)) True (monotonic_now e)
        ''expert-postcondition'' = (ok, m)" by fastforce
    let ?u1 = "with_modem (the (replacement op)) (\<lambda>_. m) ?u"
    have a1: "inside k ?op ?u1"
      using serving_cell_cache_store_rely [OF store] by (intro inside_with_modem [OF a])
    have "shows_cell ?op c (CELL_READY, None, resp)"
      using c scan_serving_sound [OF c(1)] cell_parse_allocated [OF parse]
      by (simp add: shows_cell_def scan_shows_def)
    then have "first_answer (shows_cell ?op c) (history k (trace ?u1))"
      using err by (simp add: first_answer_def)
    then have "mutation_inv (l850_mutation_complete_success (monotonic_now e) k ?op (Some c) ?u1)"
      using phase nvm by (intro success_inv [OF a1]) simp_all
    with fail [OF a1] c store show ?thesis
      unfolding cell_scan_read_def Let_def by auto
  qed
  show ?thesis
    using fail [OF a] read unfolding l850_mutation_cell_ready_def Let_def
    by (auto split: prod.splits option.splits cell_parse_result.splits)
qed

section \<open>Polls\<close>

lemma post_verification_inv:
  assumes ins: "inside k op u" and out: "outstanding (history k (trace u)) = None"
    and phase: "op_phase op = PHASE_REGISTRATION" and poll: "\<not> poll_source op"
  shows "mutation_inv (l850_mutation_start_nvm_verification now k op VERIFY_POST_RESET u)"
proof -
  let ?op = "op\<lparr>op_phase := PHASE_NVM_VERIFY,
    phase_deadline := now + L850_NVM_VERIFY_TIMEOUT_SECONDS * MICROSECONDS_PER_SECOND,
    verification_stage := Some ''post_reset_nvm'',
    op_verifier := (op_verifier op)\<lparr>stage := VERIFY_POST_RESET, consecutive_matches := 0\<rparr>\<rparr>"
  have "op_history ?op (history k (trace u))"
    using ins phase by (simp add: inside_def op_history_def same_goal_def)
  moreover have "op_modems ?op b = op_modems op b" for b by (rule op_modems_cong) simp_all
  ultimately have "mutation_inv (l850_mutation_start_nvm_command k ?op u)"
    using inside_flags(5) [OF ins] poll out by (intro nvm_command_inv [OF ins]) (simp_all add: held_def)
  then show ?thesis by (simp add: l850_mutation_start_nvm_verification_def nvm_verifier_init_def)
qed

lemma poll_facts:
  assumes inv: "mutation_inv u" and op: "map_of (mutation_operations u) k = Some op" and poll: "poll_source op"
  shows "inside k op u" and "outstanding (history k (trace u)) = None" and "pending_call op = None"
    and "\<not> command_pending op" and "op_waits op (history k (trace u))"
  using inv_op [OF inv op] poll by (auto simp: op_waits_def)

lemma fail_off:
  "inside k op u \<Longrightarrow> mutation_inv (l850_mutation_complete_failure now k (op\<lparr>poll_source := False\<rparr>) s c False u)"
  by (rule inside_failure) simp_all

lemma poll_verify_inv:
  assumes inv: "mutation_inv u" and op: "map_of (mutation_operations u) k = Some op" and poll: "poll_source op"
    and phase: "op_phase op = PHASE_PRE_RESET_NVM_VERIFY \<or> op_phase op = PHASE_NVM_VERIFY"
  shows "mutation_inv (poll_verify e k op u)"
proof -
  note p = poll_facts [OF inv op poll]
  let ?op = "op\<lparr>poll_source := False\<rparr>"
  have conf: "confirms ?op = confirms op" by (rule confirms_cong) simp_all
  have "op_history ?op (history k (trace u))" "op_modems ?op (ubus_bridge u)"
    using p(1) inside_updates(3) [where k = k and op = op and p = False and u = u] by (simp_all add: inside_def outside_def del: inside_updates)
  then have "mutation_inv (l850_mutation_start_nvm_command k ?op u)"
    using p(5) phase conf by (intro nvm_command_inv [OF p(1,2)]) (auto simp: held_def op_waits_def)
  with fail_off [OF p(1)] show ?thesis unfolding poll_verify_def Let_def by auto
qed

lemma poll_registration_inv:
  assumes inv: "mutation_inv u" and op: "map_of (mutation_operations u) k = Some op" and poll: "poll_source op"
    and phase: "op_phase op = PHASE_REGISTRATION"
  shows "mutation_inv (poll_registration e k op u)"
proof -
  note p = poll_facts [OF inv op poll]
  have "mutation_inv (l850_mutation_start_nvm_verification (monotonic_now e) k
      (op\<lparr>poll_source := False\<rparr>) VERIFY_POST_RESET u)"
    using p(1,2) phase by (intro post_verification_inv) simp_all
  with fail_off [OF p(1)] inv show ?thesis unfolding poll_registration_def Let_def by auto
qed

lemma replacement_loop_sound:
  assumes "replacement_loop w op u rs found = Some (Some r)" and "found \<noteq> Some r"
  shows "r \<in> set rs \<and> r \<noteq> original op \<and> generation (modem_at u r) \<noteq> original_generation op \<and>
    mm_physdev (proxy (modem_at u r)) = Some (op_physdev op) \<and> attest_mutation_target w (modem_at u r)"
  using assms
  by (induction w op u rs found rule: replacement_loop.induct) (auto simp: Let_def split: if_splits)

lemma held_extend:
  assumes "map_of t k = Some op0" and "held op1 = held op0 @ [r]"
    and "r \<notin> set (concat (map (held \<circ> snd) t))" and "distinct (concat (map (held \<circ> snd) t))"
  shows "distinct (concat (map (held \<circ> snd) (AList.update k op1 t)))"
    and "set (concat (map (held \<circ> snd) (AList.update k op1 t))) = insert r (set (concat (map (held \<circ> snd) t)))"
proof -
  have "distinct (concat (map (held \<circ> snd) (AList.update k op1 t))) \<and>
    set (concat (map (held \<circ> snd) (AList.update k op1 t))) = insert r (set (concat (map (held \<circ> snd) t)))"
    using assms by (induction t) (auto split: if_splits)
  then show "distinct (concat (map (held \<circ> snd) (AList.update k op1 t)))"
    "set (concat (map (held \<circ> snd) (AList.update k op1 t))) = insert r (set (concat (map (held \<circ> snd) t)))"
    by blast+
qed

lemma update_twice: "AList.update k v (AList.update k w t) = AList.update k v t"
  by (induction t) auto

lemma store_twice: "store k v (store k w u) = store k v u"
  by (simp add: store_def update_twice)

lemma claim_modem_fields [simp]:
  "generation (claim_modem m) = generation m" "mutation_kind (claim_modem m) = MUTATION_L850"
  "mutation_busy (claim_modem m)"
  by (simp_all add: claim_modem_def)

lemma claim_inside:
  assumes ins: "inside k op u" and r: "r < length (modems (ubus_bridge u))" "\<not> mutation_busy (modem_at u r)"
    and phase: "op_phase op = PHASE_REPROBE" and ne: "r \<noteq> original op"
    and op1: "op1 = op\<lparr>poll_source := p, replacement := Some r, replacement_generation := generation (modem_at u r),
      op_phase := PHASE_REGISTRATION, phase_deadline := t\<rparr>"
  shows "inside k op1 (store k op1 (with_modem r claim_modem u))" (is "inside k op1 ?u")
proof -
  have out: "outside k op u" and frame: "frame_inv u" using ins by (simp_all add: inside_def outside_def)
  obtain op0 where op0: "map_of (mutation_operations u) k = Some op0" "held op0 = held op"
      "op_physdev op0 = op_physdev op"
    using out by (auto simp: outside_def)
  have rep: "replacement op = None" using inside_flags(4) [OF ins] phase by auto
  then have "held op1 = held op @ [r]" by (simp add: held_def op1)
  then have held1: "held op1 = held op0 @ [r]" using op0(2) by simp
  have locks: "locks u" using frame by (simp add: frame_inv_def)
  then have "r \<notin> set (held_all u)" using r unfolding locks_def by blast
  note ext = held_extend [OF op0(1) held1, folded held_all_def, OF this]
  have nth: "modem_at ?u q = (if q = r then claim_modem (modem_at u q) else modem_at u q)"
    if "q < length (modems (ubus_bridge u))" for q using that by (simp add: on_modem_nth)
  have "locks ?u"
    using locks ext nth unfolding locks_def held_all_def by auto
  moreover have "registry_inv (ubus_bridge ?u)"
    using frame kept_claim by (simp add: frame_inv_def registry_on_modem)
  moreover have "map (op_physdev \<circ> snd) (mutation_operations ?u) = map (op_physdev \<circ> snd) (mutation_operations u)"
    using held_update [of _ k op0 op_physdev op1, OF op0(1)] op0(3) by (simp add: op1)
  moreover have "k \<in> fst ` set (mutation_operations u)" using op0(1) by (force dest: map_of_SomeD)
  ultimately have frame': "frame_inv ?u"
    using frame unfolding frame_inv_def by (auto simp: distinct_update keys_update)
  have om: "op_modems op' (ubus_bridge ?u)" if "op_modems op' (ubus_bridge u)" for op'
    by (rule op_modems_rely [OF that]) (simp_all add: on_modem_nth)
  have dist: "distinct (map fst (mutation_operations u))" using frame by (simp add: frame_inv_def)
  have "op_inv ?u k' op'" if "(k', op') \<in> set (mutation_operations ?u)" "k' \<noteq> k" for k' op'
    using mem_update [OF dist, of k' op' k op1] that out om by (auto simp: outside_def op_inv_def)
  moreover have "op_modems op1 (ubus_bridge ?u)"
    using inside_flags(5) [OF ins] r(1) ne nth by (simp add: op_modems_def op1)
  ultimately have "outside k op1 ?u"
    using frame' by (auto simp: outside_def map_of_eq_None_iff update_conv')
  moreover have "op_history op1 (history k (trace ?u))"
    using ins phase by (simp add: inside_def op_history_def op1 same_goal_def)
  ultimately show ?thesis by (simp add: inside_def)
qed

lemma snapshot_bound:
  "registry_inv b \<Longrightarrow> r \<in> set (l850gl_bridge_snapshot_modems b) \<Longrightarrow> r < length (modems b)"
  by (auto simp: registry_inv_def l850gl_bridge_snapshot_modems_def)

lemma poll_reprobe_inv:
  assumes inv: "mutation_inv u" and op: "map_of (mutation_operations u) k = Some op" and poll: "poll_source op"
    and phase: "op_phase op = PHASE_REPROBE"
  shows "mutation_inv (poll_reprobe e k op u)"
proof -
  note p = poll_facts [OF inv op poll]
  have claimed: "mutation_inv (if modem_is_registered (modem_at (with_modem r claim_modem u) r)
      then l850_mutation_start_nvm_verification (monotonic_now e) k op1 VERIFY_POST_RESET (with_modem r claim_modem u)
      else store k (op1\<lparr>poll_source := True\<rparr>) (with_modem r claim_modem u))"
    if find: "l850_mutation_find_replacement (around e) op u = Some (Some r)"
      and busy: "\<not> mutation_busy (modem_at u r)"
      and op1: "op1 = op\<lparr>poll_source := False, replacement := Some r,
        replacement_generation := generation (modem_at u r), op_phase := PHASE_REGISTRATION,
        phase_deadline := t\<rparr>" for r op1 t
  proof -
    have reg: "registry_inv (ubus_bridge u)" using inv by (simp add: mutation_inv_def frame_inv_def)
    have r: "r \<in> set (l850gl_bridge_snapshot_modems (ubus_bridge u))" "r \<noteq> original op"
      using replacement_loop_sound [OF find [unfolded l850_mutation_find_replacement_def]] by simp_all
    note c = claim_inside [OF p(1) snapshot_bound [OF reg r(1)] busy phase r(2) op1]
    let ?u = "with_modem r claim_modem u"
    have "mutation_inv (l850_mutation_start_nvm_verification (monotonic_now e) k op1 VERIFY_POST_RESET (store k op1 ?u))"
      using p(2) by (intro post_verification_inv [OF c]) (simp_all add: op1)
    then have verify: "mutation_inv (l850_mutation_start_nvm_verification (monotonic_now e) k op1 VERIFY_POST_RESET ?u)"
      by (simp add: l850_mutation_start_nvm_verification_def l850_mutation_start_nvm_command_def
          mm_modem_command_def store_def emit_def Let_def update_twice)
    let ?op = "op1\<lparr>poll_source := True\<rparr>"
    have "inside k ?op (store k op1 ?u)" using c by simp
    then have "op_history ?op (history k (trace ?u))" "op_modems ?op (ubus_bridge ?u)"
      by (simp_all add: inside_def outside_def del: inside_updates)
    moreover have "op_waits ?op (history k (trace ?u))" using p(2-4) by (simp add: op_waits_def op1)
    ultimately have "mutation_inv (store k ?op (store k op1 ?u))"
      using c by (intro inside_store [of k op1]) (simp_all add: inside_def op_inv_def held_def)
    with verify show ?thesis by (simp add: store_twice)
  qed
  show ?thesis
    using fail_off [OF p(1)] inv claimed unfolding poll_reprobe_def Let_def
    by (auto split: option.splits)
qed

lemma poll_inv:
  assumes inv: "mutation_inv u" and op: "map_of (mutation_operations u) k = Some op" and poll: "poll_source op"
  shows "mutation_inv (l850_mutation_poll e k op u)"
  using fail_off [OF poll_facts(1) [OF assms]] poll_verify_inv [OF assms] poll_reprobe_inv [OF assms]
    poll_registration_inv [OF assms]
  unfolding l850_mutation_poll_def Let_def by auto

section \<open>Requests\<close>

lemma operation_new_inside:
  assumes inv: "mutation_inv u" and r: "r < length (modems (ubus_bridge u))" "\<not> mutation_busy (modem_at u r)"
    and active: "\<not> l850_modem_has_active_mutation u r"
    and new: "l850_mutation_operation_new r t earfcn with_pci pci band command u = Some (k, op, u1)"
  shows "inside k op u1" and "history k (trace u1) = [Started k op]"
    and "op_phase op = PHASE_PROTOCOL_PROBE" and "original op = r" and "\<not> poll_source op"
proof -
  obtain physdev where physdev: "mm_physdev (proxy (modem_at u r)) = Some physdev" "physdev \<noteq> []"
    using new by (auto simp: l850_mutation_operation_new_def split: option.splits if_splits)
  have k: "k = next_operation u"
    and op: "op = operation_record r (modem_at u r) physdev t earfcn with_pci pci band command"
    and u1: "u1 = with_modem r claim_modem (store k op (emit (Started k op) (u\<lparr>next_operation := Suc k\<rparr>)))"
    using new physdev by (auto simp: l850_mutation_operation_new_def Let_def)
  note fields = operation_record_def
  show "op_phase op = PHASE_PROTOCOL_PROBE" "original op = r" "\<not> poll_source op"
    by (simp_all add: op fields)
  have frame: "frame_inv u" using inv by (simp add: mutation_inv_def)
  then have fresh: "history k (trace u) = []" "k \<notin> fst ` set (mutation_operations u)"
    and locks: "locks u" by (auto simp: frame_inv_def k)
  show hist: "history k (trace u1) = [Started k op]" using fresh(1) by (simp add: u1)
  have ops: "mutation_operations u1 = mutation_operations u @ [(k, op)]"
    by (simp add: u1 update_new_key [OF fresh(2)])
  have held: "held_all u1 = held_all u @ [r]" by (simp add: held_all_def ops held_def op fields)
  have "r \<notin> set (held_all u)" using locks r unfolding locks_def by blast
  moreover have nth: "modem_at u1 q = (if q = r then claim_modem (modem_at u q) else modem_at u q)"
    if "q < length (modems (ubus_bridge u))" for q using that by (simp add: u1 on_modem_nth)
  have len: "length (modems (ubus_bridge u1)) = length (modems (ubus_bridge u))" by (simp add: u1)
  ultimately have "locks u1" using locks nth unfolding locks_def held len by auto
  moreover have "registry_inv (ubus_bridge u1)"
    using frame kept_claim by (simp add: u1 frame_inv_def registry_on_modem)
  moreover have "physdev \<notin> op_physdev ` snd ` set (mutation_operations u)"
    using active physdev by (auto simp: l850_modem_has_active_mutation_def list_ex_iff)
  moreover have rest: "trace u1 = Started k op # trace u" "next_operation u1 = Suc k"
    by (simp_all add: u1)
  moreover have "op_physdev op = physdev" by (simp add: op fields)
  ultimately have frame': "frame_inv u1"
    using frame fresh unfolding frame_inv_def ops rest by (auto simp: k)
  have om: "op_modems op' (ubus_bridge u1)" if "op_modems op' (ubus_bridge u)" for op'
    by (rule op_modems_rely [OF that]) (simp_all add: u1 on_modem_nth)
  have "op_inv u1 k' op'" if "(k', op') \<in> set (mutation_operations u)" for k' op'
  proof -
    have "op_inv u k' op'" using inv that by (auto simp: mutation_inv_def)
    moreover have "k' \<noteq> k" using fresh(2) that by force
    ultimately show ?thesis using om by (simp add: op_inv_def u1)
  qed
  moreover have "op_modems op (ubus_bridge u1)"
    using r(1) nth by (simp add: op_modems_def op fields len)
  ultimately have "outside k op u1"
    using frame' fresh(2) by (auto simp: outside_def ops map_of_eq_None_iff map_add_Some_iff)
  moreover have "op_history op [Started k op]"
    by (simp add: op_history_def op fields same_goal_def acknowledged_def)
  ultimately show "inside k op u1" by (simp add: inside_def hist)
qed

lemma refusal_inv: "mutation_inv u \<Longrightarrow> mutation_inv (send_l850_error m c retry after u)"
proof -
  assume "mutation_inv u"
  moreover have "op_inv (emit (Refusal m c retry after) u) k op = op_inv u k op" for k op
    by (rule op_inv_emit) simp
  ultimately show ?thesis
    by (auto simp: send_l850_error_def mutation_inv_def frame_inv_def locks_def held_all_def)
qed

lemma start_inv:
  assumes inv: "mutation_inv u" and r: "r < length (modems (ubus_bridge u))" "\<not> mutation_busy (modem_at u r)"
    and active: "\<not> l850_modem_has_active_mutation u r"
  shows "mutation_inv (l850_mutation_start r t earfcn with_pci pci band command u)"
proof (cases "l850_mutation_operation_new r t earfcn with_pci pci band command u")
  case None
  with refusal_inv [OF inv] show ?thesis by (simp add: l850_mutation_start_def)
next
  case (Some x)
  then obtain k op u1 where new: "l850_mutation_operation_new r t earfcn with_pci pci band command u = Some (k, op, u1)"
    by (cases x) auto
  note n = operation_new_inside [OF inv r active new]
  let ?op = "op\<lparr>command_pending := True\<rparr>"
  have goal: "goal (history k (trace u1)) = Some op" by (simp add: n(2))
  have cmd: "command_allowed op PROBE_READY (original op) nvm_query_command (history k (trace u1))"
    by (simp add: n(2) command_allowed_def)
  have "op_history (?op\<lparr>pending_call := Some (PROBE_READY, original op)\<rparr>)
      (Command k PROBE_READY (original op) nvm_query_command # history k (trace u1))"
    using n(1,3) cmd by (simp add: inside_def op_history_def n(2) same_goal_def acknowledged_def)
  moreover have "op_modems ?op b = op_modems op b" for b by (rule op_modems_cong) simp_all
  ultimately have "mutation_inv (mm_modem_command k ?op PROBE_READY (original op) nvm_query_command u1)"
    using inside_flags(5) [OF n(1)] n(3,5) by (intro inside_command [OF n(1) _ _ goal cmd])
      (simp_all add: op_waits_def held_def)
  then show ?thesis by (simp add: l850_mutation_start_def new)
qed

lemma find_bound:
  "registry_inv b \<Longrightarrow> l850gl_bridge_find_modem b i = Some r \<Longrightarrow> r < length (modems b)"
  by (auto simp: registry_inv_def l850gl_bridge_find_modem_def find_Some_iff in_set_conv_nth split: option.splits)
    (metis nth_map nth_mem length_map image_eqI)

lemma requested_sound:
  assumes "mutation_inv u" and "l850_requested_modem w owner u i gen = Inr r"
  shows "r < length (modems (ubus_bridge u))" and "\<not> l850_modem_has_active_mutation u r"
proof -
  have reg: "registry_inv (ubus_bridge u)" using assms(1) by (simp add: mutation_inv_def frame_inv_def)
  from assms(2) have "l850gl_bridge_find_modem (ubus_bridge u) (Some i) = Some r"
    and active: "\<not> l850_modem_has_active_mutation u r"
    by (auto simp: l850_requested_modem_def split: if_splits option.splits)
  with reg show "r < length (modems (ubus_bridge u))" by (blast intro: find_bound)
  show "\<not> l850_modem_has_active_mutation u r" by (rule active)
qed

lemma set_request_inv:
  assumes inv: "mutation_inv u"
  shows "mutation_inv (method_set_cell_lock e owner message u)"
  using refusal_inv [OF inv] start_inv [OF inv] requested_sound [OF inv]
  unfolding method_set_cell_lock_def Let_def
  by (auto split: option.splits sum.splits prod.splits bool.splits)

lemma clear_request_inv:
  assumes inv: "mutation_inv u"
  shows "mutation_inv (method_clear_cell_lock e owner message u)"
  using refusal_inv [OF inv] start_inv [OF inv] requested_sound [OF inv]
  unfolding method_clear_cell_lock_def Let_def
  by (auto split: option.splits sum.splits)

lemma timeout_inv:
  assumes inv: "mutation_inv u" and op: "map_of (mutation_operations u) k = Some op"
  shows "mutation_inv (l850_mutation_timeout k op u)"
proof -
  let ?op = "op\<lparr>timeout_source := False, timed_out := True, op_cancelled := True\<rparr>"
  note ins = inv_op [OF inv op]
  have "confirms ?op = confirms op" by (rule confirms_cong) simp_all
  moreover have "op_modems ?op b = op_modems op b" for b by (rule op_modems_cong) simp_all
  ultimately have "op_inv u k ?op"
    using ins inside_flags(5) [OF ins(1)]
    by (simp add: op_inv_def inside_def op_history_def op_waits_def same_goal_def)
  with ins(1) show ?thesis
    unfolding l850_mutation_timeout_def by (intro inside_store [of k op]) (simp_all add: inside_def held_def)
qed

lemma cancel_inv:
  assumes inv: "mutation_inv u"
  shows "mutation_inv (cancel_l850_mutation_operations lost u)" (is "mutation_inv ?u")
proof -
  let ?f = "\<lambda>op. op\<lparr>deferred := False, transport_lost := lost, op_cancelled := True\<rparr>"
  have ops: "mutation_operations ?u = map (\<lambda>(k, op). (k, ?f op)) (mutation_operations u)"
    by (simp add: cancel_l850_mutation_operations_def)
  have rest: "ubus_bridge ?u = ubus_bridge u" "trace ?u = trace u" "next_operation ?u = next_operation u"
    by (simp_all add: cancel_l850_mutation_operations_def)
  have "held_all ?u = held_all u"
    by (simp add: held_all_def ops comp_def case_prod_beta held_def)
  then have "frame_inv ?u"
    using inv unfolding mutation_inv_def frame_inv_def locks_def rest ops
    by (auto simp: comp_def case_prod_beta image_image)
  moreover have "op_inv ?u k (?f op)" if "op_inv u k op" for k op
  proof -
    have "confirms (?f op) = confirms op" by (rule confirms_cong) simp_all
    moreover have "op_modems (?f op) b = op_modems op b" for b by (rule op_modems_cong) simp_all
    ultimately show ?thesis
      using that by (simp add: op_inv_def rest op_history_def op_waits_def same_goal_def)
  qed
  ultimately show ?thesis using inv by (auto simp: mutation_inv_def ops)
qed

lemma environment_inv:
  assumes inv: "mutation_inv u" and reg: "registry_inv b'" and rely: "bridge_rely (ubus_bridge u) b'"
  shows "mutation_inv (u\<lparr>ubus_bridge := b'\<rparr>)"
proof -
  have "\<forall>(k, op) \<in> set (mutation_operations u). op_modems op (ubus_bridge u)"
    using inv by (auto simp: mutation_inv_def op_inv_def)
  then have "locks (u\<lparr>ubus_bridge := b'\<rparr>)"
    using inv rely held_all_bound by (intro locks_rely) (auto simp: mutation_inv_def frame_inv_def)
  moreover have "op_modems op b'" if "op_modems op (ubus_bridge u)" for op
    using rely by (intro op_modems_rely [OF that]) (auto simp: registry_change_def modem_rely_def)
  ultimately show ?thesis
    using inv reg by (auto simp: mutation_inv_def frame_inv_def op_inv_def)
qed

lemma flags_inv:
  assumes "ubus_bridge u' = ubus_bridge u" "mutation_operations u' = mutation_operations u"
    "trace u' = trace u" "next_operation u' = next_operation u"
  shows "mutation_inv u' = mutation_inv u"
  using assms by (simp add: mutation_inv_def frame_inv_def locks_def held_all_def op_inv_def)

end
