(* ===== verification/Expert_Service.thy ===== *)
theory Expert_Service
  imports Expert_Handlers
begin

text \<open>
  The coordinator inside the service: the bridge keeps the contract the coordinator relies on, every
  interleaving of requests, answers, timers, cancellations and bridge activity is a step relation,
  and its reachable states have the safety, exclusion and progress properties below.
\<close>

section \<open>Interleavings\<close>

text \<open>
  Every order of requests, answers, polls, timeouts, transport losses, queries of other kinds and
  changes of the modems by the rest of the program that keep the contract \<open>bridge_rely\<close>. An
  answer can only come for the call in flight, a timer only fires while it is armed.
\<close>

inductive mutation_step :: "ubus \<Rightarrow> ubus \<Rightarrow> bool" where
  set_request: "mutation_step u (method_set_cell_lock e owner message u)"
| clear_request: "mutation_step u (method_clear_cell_lock e owner message' u)"
| probe: "map_of (mutation_operations u) k = Some op \<Longrightarrow> pending_call op = Some (PROBE_READY, r) \<Longrightarrow>
    mutation_step u (l850_mutation_probe_ready e k op src err resp (emit (Answer k PROBE_READY src err resp) u))"
| set_answer: "map_of (mutation_operations u) k = Some op \<Longrightarrow> pending_call op = Some (SET_READY, r) \<Longrightarrow>
    mutation_step u (l850_mutation_set_ready e k op src err resp (emit (Answer k SET_READY src err resp) u))"
| nvm_answer: "map_of (mutation_operations u) k = Some op \<Longrightarrow> pending_call op = Some (NVM_READY, r) \<Longrightarrow>
    mutation_step u (l850_mutation_nvm_ready e k op src err resp (emit (Answer k NVM_READY src err resp) u))"
| reset_answer: "map_of (mutation_operations u) k = Some op \<Longrightarrow> pending_call op = Some (RESET_READY, r) \<Longrightarrow>
    mutation_step u (l850_mutation_reset_ready e k op err (emit (Answer k RESET_READY src err resp) u))"
| cell_answer: "map_of (mutation_operations u) k = Some op \<Longrightarrow> pending_call op = Some (CELL_READY, r) \<Longrightarrow>
    mutation_step u (l850_mutation_cell_ready e k op src err resp (emit (Answer k CELL_READY src err resp) u))"
| poll: "map_of (mutation_operations u) k = Some op \<Longrightarrow> poll_source op \<Longrightarrow>
    mutation_step u (l850_mutation_poll e k op u)"
| timeout: "map_of (mutation_operations u) k = Some op \<Longrightarrow> timeout_source op \<Longrightarrow>
    mutation_step u (l850_mutation_timeout k op u)"
| cancel: "mutation_step u (cancel_l850_mutation_operations lost u)"
| flags: "mutation_step u (u\<lparr>connected := c, context_initialized := i, ubus_stopping := s,
    scan_modems := scans, carrier_modems := carriers\<rparr>)"
| environment: "registry_inv b \<Longrightarrow> bridge_rely (ubus_bridge u) b \<Longrightarrow> mutation_step u (u\<lparr>ubus_bridge := b\<rparr>)"

lemma mutation_step_inv: "mutation_step u u' \<Longrightarrow> mutation_inv u \<Longrightarrow> mutation_inv u'"
  by (induction rule: mutation_step.induct)
    (simp_all add: set_request_inv clear_request_inv probe_ready_inv set_ready_inv nvm_ready_inv
      reset_ready_inv cell_ready_inv poll_inv timeout_inv cancel_inv environment_inv
      flags_inv [of "u\<lparr>connected := c, context_initialized := i, ubus_stopping := s,
        scan_modems := scans, carrier_modems := carriers\<rparr>" u for u c i s scans carriers])

text \<open>The service starts with no operation and any registry that holds no expert lock.\<close>

definition mutation_init :: "bridge \<Rightarrow> ubus" where
  "mutation_init b = \<lparr>ubus_bridge = b, connected = False, context_initialized = False,
     ubus_stopping = False, mutation_operations = [], scan_modems = [], carrier_modems = [],
     next_operation = 0, trace = []\<rparr>"

definition startable :: "bridge \<Rightarrow> bool" where
  "startable b \<longleftrightarrow> registry_inv b \<and> (\<forall>m \<in> set (modems b). mutation_kind m \<noteq> MUTATION_L850)"

lemma mutation_init_inv: "startable b \<Longrightarrow> mutation_inv (mutation_init b)"
  by (auto simp: mutation_init_def startable_def mutation_inv_def frame_inv_def locks_def held_all_def history_def)

lemma mutation_reachable_inv:
  "startable b \<Longrightarrow> mutation_step\<^sup>*\<^sup>* (mutation_init b) u \<Longrightarrow> mutation_inv u"
  by (rotate_tac 1, induction rule: rtranclp_induct) (auto intro: mutation_init_inv mutation_step_inv)

lemma startable_new: "startable l850gl_bridge_new"
  by (simp add: startable_def l850gl_bridge_new_def registry_inv_def registered_def)

lemma protocol_split:
  "protocol (later @ ev # h) \<Longrightarrow> allowed ev h \<and> \<not> replied h \<and> protocol h"
  by (induction later) auto

lemma history_append: "history k (xs @ ys) = history k xs @ history k ys"
  by (simp add: history_def)

lemma reachable_event:
  assumes "startable b" and "mutation_step\<^sup>*\<^sup>* (mutation_init b) u"
    and "trace u = later @ ev # earlier" and "event_op ev = Some k"
  shows "allowed ev (history k earlier)" and "\<not> replied (history k earlier)"
proof -
  have "protocol (history k (trace u))"
    using mutation_reachable_inv [OF assms(1,2)] by (simp add: mutation_inv_def frame_inv_def)
  then have "protocol (history k later @ ev # history k earlier)"
    using assms(3,4) by (simp add: history_append)
  then show "allowed ev (history k earlier)" "\<not> replied (history k earlier)"
    using protocol_split by blast+
qed

lemma goal_started: "goal h = Some op \<Longrightarrow> \<exists>k. Started k op \<in> set h"
  by (induction h rule: goal.induct) auto

lemma goal_started_history: "goal (history k t) = Some op \<Longrightarrow> Started k op \<in> set t"
  by (drule goal_started) (auto simp: history_def)

section \<open>Scripts\<close>

text \<open>
  An executable reading of the step relation: a script is a list of things that happen to the
  service, and an input that cannot happen (an answer nobody waits for, a timer that is not
  armed) changes nothing.
\<close>

datatype input =
    Set_Request callback_env bool "set_request option"
  | Clear_Request callback_env bool "clear_request option"
  | Call_Answered callback_env nat nat "gerror option" "cstring option"
  | Polled callback_env nat
  | Timed_Out nat
  | Cancelled bool
  | Bridge bridge_event
  | Flags bool bool bool "nat list" "nat list"

definition answer_ready ::
    "callback \<Rightarrow> callback_env \<Rightarrow> nat \<Rightarrow> mutation_operation \<Rightarrow> nat \<Rightarrow> gerror option \<Rightarrow> cstring option \<Rightarrow>
     ubus \<Rightarrow> ubus" where
  "answer_ready cb e k op src err resp u =
     (case cb of
        PROBE_READY \<Rightarrow> l850_mutation_probe_ready e k op src err resp u
      | SET_READY \<Rightarrow> l850_mutation_set_ready e k op src err resp u
      | NVM_READY \<Rightarrow> l850_mutation_nvm_ready e k op src err resp u
      | RESET_READY \<Rightarrow> l850_mutation_reset_ready e k op err u
      | CELL_READY \<Rightarrow> l850_mutation_cell_ready e k op src err resp u)"

definition deliver ::
    "callback_env \<Rightarrow> nat \<Rightarrow> nat \<Rightarrow> gerror option \<Rightarrow> cstring option \<Rightarrow> ubus \<Rightarrow> ubus" where
  "deliver e k src err resp u =
     (case map_of (mutation_operations u) k of
        None \<Rightarrow> u
      | Some op \<Rightarrow>
          (case pending_call op of
             None \<Rightarrow> u
           | Some (cb, r) \<Rightarrow> answer_ready cb e k op src err resp (emit (Answer k cb src err resp) u)))"

definition fire_poll :: "callback_env \<Rightarrow> nat \<Rightarrow> ubus \<Rightarrow> ubus" where
  "fire_poll e k u =
     (case map_of (mutation_operations u) k of
        None \<Rightarrow> u | Some op \<Rightarrow> if poll_source op then l850_mutation_poll e k op u else u)"

definition fire_timeout :: "nat \<Rightarrow> ubus \<Rightarrow> ubus" where
  "fire_timeout k u =
     (case map_of (mutation_operations u) k of
        None \<Rightarrow> u | Some op \<Rightarrow> if timeout_source op then l850_mutation_timeout k op u else u)"

definition exec :: "input \<Rightarrow> ubus \<Rightarrow> ubus" where
  "exec i u =
     (case i of
        Set_Request e owner message \<Rightarrow> method_set_cell_lock e owner message u
      | Clear_Request e owner message \<Rightarrow> method_clear_cell_lock e owner message u
      | Call_Answered e k src err resp \<Rightarrow> deliver e k src err resp u
      | Polled e k \<Rightarrow> fire_poll e k u
      | Timed_Out k \<Rightarrow> fire_timeout k u
      | Cancelled lost \<Rightarrow> cancel_l850_mutation_operations lost u
      | Bridge ev \<Rightarrow> u\<lparr>ubus_bridge := bridge_handle ev (ubus_bridge u)\<rparr>
      | Flags conn init stop scans carriers \<Rightarrow>
          u\<lparr>connected := conn, context_initialized := init, ubus_stopping := stop,
            scan_modems := scans, carrier_modems := carriers\<rparr>)"

lemma deliver_step: "mutation_step\<^sup>=\<^sup>= u (deliver e k src err resp u)"
proof (cases "map_of (mutation_operations u) k")
  case (Some op)
  show ?thesis
  proof (cases "pending_call op")
    case (Some x)
    then obtain cb r where "pending_call op = Some (cb, r)" by (cases x) auto
    with \<open>map_of _ k = Some op\<close> show ?thesis
      by (cases cb) (auto simp: deliver_def answer_ready_def intro: mutation_step.intros)
  qed (simp add: deliver_def \<open>map_of _ k = Some op\<close>)
qed (simp add: deliver_def)

lemma exec_step:
  assumes "mutation_inv u"
  shows "mutation_step\<^sup>*\<^sup>* u (exec i u)"
proof -
  have reg: "registry_inv (ubus_bridge u)" using assms by (simp add: mutation_inv_def frame_inv_def)
  have "mutation_step\<^sup>=\<^sup>= u (exec i u)"
  proof (cases i)
    case (Call_Answered e k src err resp)
    then show ?thesis using deliver_step by (simp add: exec_def)
  next
    case (Polled e k)
    then show ?thesis
      by (auto simp: exec_def fire_poll_def intro: mutation_step.intros split: option.splits)
  next
    case (Timed_Out k)
    then show ?thesis
      by (auto simp: exec_def fire_timeout_def intro: mutation_step.intros split: option.splits)
  next
    case (Bridge ev)
    then show ?thesis
      using registry_handle [OF reg] expert.change_handle
      by (auto simp: exec_def intro!: mutation_step.environment)
  qed (auto simp: exec_def intro: mutation_step.intros)
  then show ?thesis by auto
qed

lemma script_reachable:
  assumes "startable b"
  shows "mutation_step\<^sup>*\<^sup>* (mutation_init b) (fold exec script (mutation_init b))"
proof (induction script rule: rev_induct)
  case (snoc i script)
  have "mutation_step\<^sup>*\<^sup>* (fold exec script (mutation_init b)) (exec i (fold exec script (mutation_init b)))"
    using mutation_reachable_inv [OF assms snoc] by (rule exec_step)
  with snoc show ?case by simp
qed simp

definition expert_mm :: "nat \<Rightarrow> mm_modem" where
  "expert_mm n = sample_mm\<lparr>mm_object := n, mm_ports := Some [True], mm_physdev := Some ''/sys/devices/usb1'',
     mm_supported_bands := Some [(73, Some ''eutran-3'')]\<rparr>"

definition expert_object :: "nat \<Rightarrow> cstring \<Rightarrow> dbus_object" where
  "expert_object n path = \<lparr>object_path = path, is_mm_object = True, object_modem = Some (expert_mm n),
     object_messaging = None\<rparr>"

definition expert_env :: "int \<Rightarrow> callback_env" where
  "expert_env now = \<lparr>around = \<lparr>utf8_ok = (\<lambda>_. True),
       sysfs_tree = Some (Dir [(''devices'', Dir [(''usb1'', Dir
         [(''idVendor'', Regular [Read_Bytes ''2cb7'']), (''idProduct'', Regular [Read_Bytes ''0007''])])])])\<rparr>,
     built_with_mm_1_24 = True, memory_left = True, monotonic_now = now\<rparr>"

definition expert_random :: "8 word \<Rightarrow> random" where
  "expert_random b = [[Random_Bytes (replicate 16 b)]]"

definition modem_name :: cstring where
  "modem_name = the (generate_modem_id [Random_Bytes (replicate 16 1)])"

definition nvm_locked :: cstring where
  "nvm_locked = nvm_report [0, 1, 2, 3, 4] [1650, 3, 0, 3, 1]"

definition scan_report :: cstring where
  "scan_report = ''+XMCI: 4,310,260,100,123456,0,1650,19650,80,51,19,30,1,10''"

definition expert_request :: set_request where
  "expert_request = \<lparr>req_modem_id = modem_name, req_generation = 1, req_confirm = True,
     req_earfcn = 1650, req_pci = Some 0\<rparr>"

definition expert_script :: "input list" where
  "expert_script =
     [Flags True True False [] [],
      Bridge (Object_Added (\<lambda>_. True) (expert_random 1) (expert_object 7 ''/Modem/0'')),
      Set_Request (expert_env 1) True (Some expert_request),
      Call_Answered (expert_env 2) 0 7 None (Some nvm_locked),
      Call_Answered (expert_env 3) 0 7 None (Some L850_SET_SUCCESS),
      Call_Answered (expert_env 4) 0 7 None (Some nvm_locked),
      Polled (expert_env 5) 0,
      Call_Answered (expert_env 6) 0 7 None (Some nvm_locked),
      Call_Answered (expert_env 7) 0 7 None None,
      Bridge (Object_Removed (expert_object 7 ''/Modem/0'')),
      Bridge (Object_Added (\<lambda>_. True) (expert_random 2) (expert_object 8 ''/Modem/1'')),
      Polled (expert_env 8) 0,
      Call_Answered (expert_env 9) 0 8 None (Some nvm_locked),
      Call_Answered (expert_env 10) 0 8 None (Some scan_report)]"

definition expert_run :: "nat \<Rightarrow> ubus" where
  "expert_run n = fold exec (take n expert_script) (mutation_init l850gl_bridge_new)"

text \<open>What the run shows, evaluated once: the newest event, the reset, and the number of events.\<close>

definition run_shape :: "event list \<Rightarrow> event \<times> event \<times> nat" where
  "run_shape t = (t ! 0, t ! 6, length t)"

definition run_reply :: reply where
  "run_reply = Success L850_MUTATION_SET 1 (Some \<lparr>cell_type = 4, serving = True, cell_earfcn = 1650,
     cell_pci = 0, cell_band = 3, rsrp_dbm = - 90, rsrq_tenths_db = - 100\<rparr>)"

definition table_shape :: "ubus \<Rightarrow> (nat \<times> nat list \<times> mutation_phase \<times> callback option \<times> bool) list" where
  "table_shape u = map (\<lambda>(k, op). (k, held op, op_phase op, map_option fst (pending_call op),
     timed_out op)) (mutation_operations u)"

definition failed_run :: ubus where
  "failed_run = exec (Call_Answered (expert_env 6) 0 7 None (Some ''ERROR'')) (expert_run 5)"

definition failed_reply :: reply where
  "failed_reply = Failure ''lock_applied_reset_required'' ''malformed_response'' False 0 False True
     (Some ''pre_reset_nvm'')"

definition expert_shapes :: "ubus list \<Rightarrow> (event \<times> event \<times> nat) \<times>
    (nat \<times> nat list \<times> mutation_phase \<times> callback option \<times> bool) list \<times>
    (nat \<times> nat list \<times> mutation_phase \<times> callback option \<times> bool) list \<times> event list" where
  "expert_shapes us = (run_shape (trace (us ! 14)), table_shape (us ! 12), table_shape (fire_timeout 0 (us ! 4)),
     take 1 (trace (exec (Call_Answered (expert_env 6) 0 7 None (Some ''ERROR'')) (us ! 5))))"

lemma expert_sampled:
  "expert_shapes (runs exec expert_script (mutation_init l850gl_bridge_new)) =
     ((Reply 0 run_reply, Command 0 RESET_READY 0 reset_command, 16),
      [(0, [0, 1], PHASE_NVM_VERIFY, Some NVM_READY, False)],
      [(0, [0], PHASE_SET_COMMAND, Some SET_READY, True)], [Reply 0 failed_reply])"
  by code_simp

lemma expert_run_nth:
  assumes "n \<le> 14"
  shows "runs exec expert_script (mutation_init l850gl_bridge_new) ! n = expert_run n"
proof -
  have "length expert_script = 14" by (simp add: expert_script_def)
  with assms show ?thesis by (simp add: expert_run_def runs_nth)
qed

lemma expert_run_shape:
  "run_shape (trace (expert_run 14)) = (Reply 0 run_reply, Command 0 RESET_READY 0 reset_command, 16)"
  and expert_run_claimed: "table_shape (expert_run 12) = [(0, [0, 1], PHASE_NVM_VERIFY, Some NVM_READY, False)]"
  and expert_run_timed_out:
    "table_shape (fire_timeout 0 (expert_run 4)) = [(0, [0], PHASE_SET_COMMAND, Some SET_READY, True)]"
  and failed_run_shape: "take 1 (trace failed_run) = [Reply 0 failed_reply]"
  using expert_sampled by (simp_all add: expert_shapes_def expert_run_nth failed_run_def)

lemma expert_run_reachable: "mutation_step\<^sup>*\<^sup>* (mutation_init l850gl_bridge_new) (expert_run n)"
  unfolding expert_run_def by (rule script_reachable [OF startable_new])

lemma expert_exec_reachable:
  "mutation_step\<^sup>*\<^sup>* (mutation_init l850gl_bridge_new) (exec i (expert_run n))"
  using exec_step [OF mutation_reachable_inv [OF startable_new expert_run_reachable]]
    expert_run_reachable [of n] by (metis rtranclp_trans)

lemma failed_run_reachable: "mutation_step\<^sup>*\<^sup>* (mutation_init l850gl_bridge_new) failed_run"
  unfolding failed_run_def by (rule expert_exec_reachable)

lemma failed_run_at: "trace failed_run = [] @ Reply 0 failed_reply # drop 1 (trace failed_run)"
  using append_take_drop_id [of 1 "trace failed_run"] unfolding failed_run_shape by simp

lemma timed_out_reachable: "mutation_step\<^sup>*\<^sup>* (mutation_init l850gl_bridge_new) (fire_timeout 0 (expert_run 4))"
  using expert_exec_reachable [of "Timed_Out 0" 4] by (simp add: exec_def)

lemma held_claimed: "held_all (expert_run 12) = [0, 1]"
  using expert_run_claimed by (auto simp: held_all_def table_shape_def)

lemma expert_run_at:
  "trace (expert_run 14) = [] @ Reply 0 run_reply # drop 1 (trace (expert_run 14))"
  "trace (expert_run 14) = take 6 (trace (expert_run 14)) @ Command 0 RESET_READY 0 reset_command #
     drop 7 (trace (expert_run 14))"
  using id_take_nth_drop [of 0 "trace (expert_run 14)"] id_take_nth_drop [of 6 "trace (expert_run 14)"]
    expert_run_shape unfolding run_shape_def by (force, simp)

lemma table_shape_op:
  assumes "table_shape u = [(k, rs, p, cb, t)]"
  shows "\<exists>op. map_of (mutation_operations u) k = Some op \<and> held op = rs \<and> op_phase op = p \<and>
    map_option fst (pending_call op) = cb \<and> timed_out op = t"
  using assms by (auto simp: table_shape_def)

text \<open>The bridge never takes a lock away and never adds one. Whatever ModemManager or the bus
  does, every handler of the bridge keeps each admitted modem at its place with its generation,
  leaves the coordinator's locks and cool-downs as they are, and admits new modems unlocked; this
  is the contract under which the coordinator's guarantees hold.\<close>

lemma bridge_keeps_contract:
  "bridge_rely b (fst (l850gl_bridge_start b)) \<and>
   bridge_rely b (fst (retry_connect_cb b)) \<and>
   bridge_rely b (fst (bus_ready serial bus b)) \<and>
   bridge_rely b (fst (manager_ready validate serial conn closed mgr owner objects rnd b)) \<and>
   bridge_rely b (connection_closed conn b) \<and>
   bridge_rely b (l850gl_bridge_stop b) \<and>
   bridge_rely b (fst (object_added validate rnd obj b)) \<and>
   bridge_rely b (object_removed obj b) \<and>
   bridge_rely b (fst (interface_added validate rnd obj b)) \<and>
   bridge_rely b (fst (interface_removed validate rnd obj b)) \<and>
   bridge_rely b (fst (properties_changed validate rnd obj iface changed invalidated b)) \<and>
   bridge_rely b (fst (name_owner_changed validate owner objects rnd b)) \<and>
   bridge_rely b (fst (sms_reconcile_cb validate owner objects rnd b))"
  by (intro conjI expert.bridge_handlers)

lemma complete_operations [simp]:
  "mutation_operations (l850_mutation_complete_buffer now k op rep u) = AList.delete k (mutation_operations u)"
  "mutation_operations (l850_mutation_complete_failure now k op s c retry u) = AList.delete k (mutation_operations u)"
  "mutation_operations (l850_mutation_complete_success now k op cell u) = AList.delete k (mutation_operations u)"
  by (simp_all add: l850_mutation_complete_buffer_def l850_mutation_operation_free_def Let_def
      l850_mutation_complete_failure_def l850_mutation_complete_success_def split: option.split)

lemma map_of_delete [simp]: "map_of (AList.delete k t) k = None"
  by (simp add: delete_conv')

section \<open>Properties\<close>

text \<open>C1: The reset is never sent blindly. Whatever the order of requests, answers, timers and
  bridge activity, a reset command goes out only to the modem the operation was started on, once
  per operation, after the modem acknowledged the configuration, and directly after at least two
  consecutive reads of the lock registers that show what was asked for.\<close>

theorem reset_gate:
  assumes "startable b" and "mutation_step\<^sup>*\<^sup>* (mutation_init b) u"
    and "trace u = later @ Command k RESET_READY r c # earlier"
  defines "h \<equiv> history k earlier"
  shows "\<exists>op. Started k op \<in> set earlier \<and> r = original op \<and> c = reset_command \<and>
    RESET_READY \<notin> set (sent_commands h) \<and> acknowledged h \<and>
    2 \<le> length (takeWhile (confirms op) (got_answers h))"
proof -
  have "allowed (Command k RESET_READY r c) h"
    using reachable_event(1) [OF assms(1-3), of k] by (simp add: h_def)
  then obtain op where "goal h = Some op" and "command_allowed op RESET_READY r c h"
    by (auto split: option.splits)
  then show ?thesis
    using goal_started_history [of k earlier op] by (auto simp: command_allowed_def h_def)
qed

theorem reset_gate_witness:
  "\<exists>op. Started 0 op \<in> set (drop 7 (trace (expert_run 14))) \<and> original op = 0 \<and>
    2 \<le> length (takeWhile (confirms op) (got_answers (history 0 (drop 7 (trace (expert_run 14))))))"
  using reset_gate [OF startable_new expert_run_reachable expert_run_at(2)] by auto

text \<open>C2: Success is reported only when it was seen. A reply of success names a modem other than
  the one reset; before it the modem acknowledged the configuration, the reset was sent, a read of
  the lock registers after the reset showed what was asked for, and, for a lock, the answer just
  received is a scan whose serving cell is the requested one and is the cell in the reply.\<close>

theorem success_gate:
  assumes "startable b" and "mutation_step\<^sup>*\<^sup>* (mutation_init b) u"
    and "trace u = later @ Reply k (Success t r cell) # earlier"
  defines "h \<equiv> history k earlier"
  shows "\<exists>op. Started k op \<in> set earlier \<and> t = op_type op \<and> r \<noteq> original op \<and> acknowledged h \<and>
    RESET_READY \<in> set (sent_commands h) \<and> list_ex (confirms op) (since_reset h) \<and>
    (t = L850_MUTATION_SET \<longrightarrow> (\<exists>c. cell = Some c \<and> first_answer (shows_cell op c) h))"
proof -
  have "allowed (Reply k (Success t r cell)) h"
    using reachable_event(1) [OF assms(1-3), of k] by (simp add: h_def)
  then obtain op where "goal h = Some op" and "reply_allowed op (Success t r cell) h"
    by (auto split: option.splits)
  then show ?thesis
    using goal_started_history [of k earlier op] unfolding h_def reply_allowed_def by auto
qed

theorem success_gate_witness:
  "RESET_READY \<in> set (sent_commands (history 0 (drop 1 (trace (expert_run 14)))))"
  using success_gate [OF startable_new expert_run_reachable expert_run_at(1) [unfolded run_reply_def]] by blast

text \<open>C7: Failures are honest. A failure that claims the configuration was acknowledged comes after
  the acknowledgement, a failure that invites a retry comes before it and before any reset, and one
  that does not name a replacement names the modem the operation was started on.\<close>

theorem failure_honest:
  assumes "startable b" and "mutation_step\<^sup>*\<^sup>* (mutation_init b) u"
    and "trace u = later @ Reply k (Failure state err retry r repl ack st) # earlier"
  defines "h \<equiv> history k earlier"
  shows "\<exists>op. Started k op \<in> set earlier \<and> (ack \<longrightarrow> acknowledged h) \<and>
    (retry \<longrightarrow> \<not> ack \<and> RESET_READY \<notin> set (sent_commands h)) \<and> (\<not> repl \<longrightarrow> r = original op)"
proof -
  have "allowed (Reply k (Failure state err retry r repl ack st)) h"
    using reachable_event(1) [OF assms(1-3), of k] by (simp add: h_def)
  then obtain op where "goal h = Some op" and "reply_allowed op (Failure state err retry r repl ack st) h"
    by (auto split: option.splits)
  then show ?thesis
    using goal_started_history [of k earlier op] unfolding h_def reply_allowed_def by auto
qed

theorem failure_honest_witness:
  "\<exists>op. Started 0 op \<in> set (drop 1 (trace failed_run)) \<and> 0 = original op"
  using failure_honest [OF startable_new failed_run_reachable failed_run_at [unfolded failed_reply_def]] by blast

lemma protocol_once:
  assumes "protocol h"
  shows "count_list (sent_commands h) SET_READY \<le> 1" and "count_list (sent_commands h) RESET_READY \<le> 1"
    and "list_all (\<lambda>ev. \<not> replied [ev]) (tl h)"
proof -
  have none: "\<not> replied h \<Longrightarrow> list_all (\<lambda>ev. \<not> replied [ev]) h" for h by (induction h rule: replied.induct) auto
  have "count_list (sent_commands h) SET_READY \<le> 1 \<and> count_list (sent_commands h) RESET_READY \<le> 1"
    using assms
  proof (induction h)
    case (Cons ev h)
    show ?case
    proof (cases ev)
      case (Command k cb r c)
      with Cons.prems obtain op where "command_allowed op cb r c h" by (auto split: option.splits)
      with Cons Command show ?thesis
        by (auto simp: command_allowed_def count_list_0_iff [THEN iffD2] split: callback.splits)
    qed (use Cons in simp_all)
  qed simp
  then show "count_list (sent_commands h) SET_READY \<le> 1" "count_list (sent_commands h) RESET_READY \<le> 1"
    by blast+
  show "list_all (\<lambda>ev. \<not> replied [ev]) (tl h)" using assms none by (cases h) auto
qed

text \<open>C4: Every operation sets the configuration at most once, resets at most once, and replies at
  most once; the reply is the last thing that happens to it.\<close>

theorem operation_at_most_once:
  assumes "startable b" and "mutation_step\<^sup>*\<^sup>* (mutation_init b) u"
  defines "h \<equiv> \<lambda>k. history k (trace u)"
  shows "\<forall>k. count_list (sent_commands (h k)) SET_READY \<le> 1 \<and>
    count_list (sent_commands (h k)) RESET_READY \<le> 1 \<and> list_all (\<lambda>ev. \<not> replied [ev]) (tl (h k))"
proof
  fix k
  have "protocol (h k)"
    using mutation_reachable_inv [OF assms(1,2)] by (simp add: h_def mutation_inv_def frame_inv_def)
  then show "count_list (sent_commands (h k)) SET_READY \<le> 1 \<and>
      count_list (sent_commands (h k)) RESET_READY \<le> 1 \<and> list_all (\<lambda>ev. \<not> replied [ev]) (tl (h k))"
    using protocol_once by blast
qed

theorem operation_at_most_once_witness:
  "count_list (sent_commands (history 0 (trace (expert_run 14)))) RESET_READY \<le> 1"
  using operation_at_most_once [OF startable_new expert_run_reachable] by blast

text \<open>C3: Mutual exclusion. No modem is held by two operations, as original or as replacement, and
  no two operations work on the same physical device; a modem is locked for this kind of
  operation exactly while one of them holds it, and is then busy for every other kind.\<close>

theorem modem_exclusion:
  assumes "startable b" and "mutation_step\<^sup>*\<^sup>* (mutation_init b) u"
  shows "distinct (held_all u) \<and> distinct (map (op_physdev \<circ> snd) (mutation_operations u)) \<and>
    (\<forall>r < length (modems (ubus_bridge u)).
      (mutation_kind (modem_at u r) = MUTATION_L850 \<longleftrightarrow> r \<in> set (held_all u)) \<and>
      (r \<in> set (held_all u) \<longrightarrow> mutation_busy (modem_at u r)))"
  using mutation_reachable_inv [OF assms]
  by (simp add: mutation_inv_def frame_inv_def locks_def)

theorem modem_exclusion_witness:
  "held_all (expert_run 12) = [0, 1] \<and> distinct (held_all (expert_run 12))"
  using modem_exclusion [OF startable_new expert_run_reachable] held_claimed by blast

text \<open>C6: Nothing hangs silently. At every moment every operation waits for exactly one thing: the
  answer to the one command it has outstanding, or its poll timer, which is then armed.\<close>

theorem operation_always_waits:
  assumes "startable b" and "mutation_step\<^sup>*\<^sup>* (mutation_init b) u"
    and "map_of (mutation_operations u) k = Some op"
  shows "(\<exists>cb r. pending_call op = Some (cb, r) \<and> outstanding (history k (trace u)) = Some cb \<and> \<not> poll_source op) \<or>
    pending_call op = None \<and> outstanding (history k (trace u)) = None \<and> poll_source op"
  using inv_op(2) [OF mutation_reachable_inv [OF assms(1,2)] assms(3)]
  by (cases "pending_call op") (auto simp: op_waits_def)

theorem operation_always_waits_witness:
  "\<exists>op. map_of (mutation_operations (expert_run 12)) 0 = Some op \<and> \<not> poll_source op"
proof -
  obtain op where op: "map_of (mutation_operations (expert_run 12)) 0 = Some op"
    and "map_option fst (pending_call op) = Some NVM_READY"
    using table_shape_op [OF expert_run_claimed] by blast
  with operation_always_waits [OF startable_new expert_run_reachable op] show ?thesis by auto
qed

text \<open>The next thing an operation waits for.\<close>

definition wake :: "callback_env \<Rightarrow> nat \<Rightarrow> nat \<Rightarrow> gerror option \<Rightarrow> cstring option \<Rightarrow> ubus \<Rightarrow> ubus" where
  "wake e k src err resp u =
     (case map_of (mutation_operations u) k of
        None \<Rightarrow> u
      | Some op \<Rightarrow> if pending_call op \<noteq> None then deliver e k src err resp u else fire_poll e k u)"

lemma uncertain_lost:
  "timed_out op \<or> transport_lost op \<Longrightarrow> l850_mutation_error_is_uncertain op err"
  by (auto simp: l850_mutation_error_is_uncertain_def Let_def)

lemma lost_answered [simp]: "transport_lost (answered op) = transport_lost op"
  by (simp add: answered_def)

lemma lost_dispatch:
  assumes "map_of (mutation_operations (l850_mutation_dispatch_set e k op u)) k = Some op'"
  shows "op_phase op' = PHASE_SET_COMMAND \<and> pending_call op' \<noteq> None \<and>
    timed_out op' = timed_out op \<and> transport_lost op' = transport_lost op"
  using assms
  by (auto simp: l850_mutation_dispatch_set_def mm_modem_command_def l850_mutation_replace_cancellable_def
      update_conv' split: if_splits)

text \<open>C5: A timed out or cancelled operation ends. Once the operation timed out or its transport was
  lost, the next answer or poll it waits for, whatever it says, removes it; the one exception is a
  register probe that succeeds, after which the set command is sent and its answer removes it.\<close>

theorem lost_operation_ends:
  assumes "startable b" and "mutation_step\<^sup>*\<^sup>* (mutation_init b) u"
    and "map_of (mutation_operations u) k = Some op" and "timed_out op \<or> transport_lost op"
  shows "case map_of (mutation_operations (wake e k src err resp u)) k of
      None \<Rightarrow> True
    | Some op' \<Rightarrow> op_phase op = PHASE_PROTOCOL_PROBE \<and> op_phase op' = PHASE_SET_COMMAND \<and>
        pending_call op' \<noteq> None \<and> (timed_out op' \<or> transport_lost op')"
proof -
  note inv = mutation_reachable_inv [OF assms(1,2)]
  note waits = inv_op(2) [OF inv assms(3)] and lost = uncertain_lost [of "answered op"] assms(4)
  show ?thesis
  proof (cases "pending_call op")
    case None
    with waits have "poll_source op" by (simp add: op_waits_def)
    with None assms(3,4) show ?thesis by (auto simp: wake_def fire_poll_def l850_mutation_poll_def Let_def)
  next
    case (Some x)
    then obtain cb r where pend: "pending_call op = Some (cb, r)" by (cases x) auto
    note phase = answer_phase(1) [OF inv assms(3) pend]
    show ?thesis
    proof (cases cb)
      case PROBE_READY
      then have "op_phase op = PHASE_PROTOCOL_PROBE" using phase by (simp add: phase_callback_phases)
      with pend assms(3,4) PROBE_READY show ?thesis
        by (auto simp: wake_def deliver_def answer_ready_def l850_mutation_probe_ready_def Let_def
            split: option.splits prod.splits dest: lost_dispatch)
    qed (use pend assms(3) lost in \<open>auto simp: wake_def deliver_def answer_ready_def
        l850_mutation_set_ready_def l850_mutation_nvm_ready_def l850_mutation_reset_ready_def
        l850_mutation_cell_ready_def Let_def\<close>)
  qed
qed

theorem lost_operation_ends_witness:
  "map_of (mutation_operations (wake (expert_env 9) 0 7 None (Some L850_SET_SUCCESS)
     (fire_timeout 0 (expert_run 4)))) 0 = None"
proof -
  obtain op where op: "map_of (mutation_operations (fire_timeout 0 (expert_run 4))) 0 = Some op"
    and "op_phase op = PHASE_SET_COMMAND" "timed_out op"
    using table_shape_op [OF expert_run_timed_out] by blast
  with lost_operation_ends [OF startable_new timed_out_reachable op, of "expert_env 9" 7 None "Some L850_SET_SUCCESS"]
  show ?thesis by (auto split: option.splits)
qed

text \<open>C8: Completion releases everything. The operation leaves the table, its reply goes out exactly
  when the request is still deferred on a live connection, every modem it held is idle again, and
  under a cool-down of at least sixty seconds when the configuration was touched; no other modem
  changes.\<close>

theorem completion_releases:
  fixes now rep
  assumes "startable b" and "mutation_step\<^sup>*\<^sup>* (mutation_init b) u"
    and "map_of (mutation_operations u) k = Some op"
  defines "u' \<equiv> l850_mutation_complete_buffer now k op rep u"
  shows "map_of (mutation_operations u') k = None \<and>
    trace u' = (if deferred op \<and> connected u \<and> context_initialized u \<and> \<not> ubus_stopping u
      then Reply k rep # trace u else trace u) \<and>
    (\<forall>r \<in> set (held op). mutation_kind (modem_at u' r) = MUTATION_NONE \<and> \<not> mutation_busy (modem_at u' r) \<and>
      (set_dispatched op \<longrightarrow> now + L850_POST_MUTATION_COOLDOWN_SECONDS * MICROSECONDS_PER_SECOND
         \<le> advanced_cooldown_until (modem_at u' r))) \<and>
    (\<forall>r < length (modems (ubus_bridge u)). r \<notin> set (held op) \<longrightarrow> modem_at u' r = modem_at u r)"
proof (intro conjI)
  note inv = mutation_reachable_inv [OF assms(1,2)]
  note om = inside_flags(5) [OF inv_op(1) [OF inv assms(3)]]
  let ?w = "if deferred op \<and> connected u \<and> context_initialized u \<and> \<not> ubus_stopping u
    then emit (Reply k rep) u else u"
  let ?op = "op\<lparr>deferred := False\<rparr>"
  have om': "op_modems ?op (ubus_bridge ?w)"
    using om op_modems_cong [of ?op op "ubus_bridge u"] by simp
  note f = operation_free_modems [OF om', where now = now and k = k]
  have u': "u' = l850_mutation_operation_free now k ?op ?w"
    by (simp add: u'_def l850_mutation_complete_buffer_def)
  have held: "held ?op = held op" by (simp add: held_def)
  have bound: "r < length (modems (ubus_bridge u))" if "r \<in> set (held op)" for r
    using om that by (auto simp: op_modems_def held_def split: option.splits)
  have lock: "mutation_kind (modem_at u r) = MUTATION_L850" if "r \<in> set (held op)" for r
  proof -
    have "r \<in> set (held_all u)" using that assms(3) by (force simp: held_all_def dest: map_of_SomeD)
    then show ?thesis using inv bound [OF that] by (auto simp: mutation_inv_def frame_inv_def locks_def)
  qed
  show "map_of (mutation_operations u') k = None" by (simp add: u'_def)
  show "trace u' = (if deferred op \<and> connected u \<and> context_initialized u \<and> \<not> ubus_stopping u
      then Reply k rep # trace u else trace u)" unfolding u' f(4) by simp
  have nth: "modem_at u' r = (if r \<in> set (held op) then l850_mutation_release_modem now (set_dispatched op) (modem_at u r)
       else modem_at u r)" if "r < length (modems (ubus_bridge u))" for r
    using f(2) [of r] that unfolding u' held by simp
  show "\<forall>r < length (modems (ubus_bridge u)). r \<notin> set (held op) \<longrightarrow> modem_at u' r = modem_at u r"
    using nth by simp
  show "\<forall>r \<in> set (held op). mutation_kind (modem_at u' r) = MUTATION_NONE \<and> \<not> mutation_busy (modem_at u' r) \<and>
      (set_dispatched op \<longrightarrow> now + L850_POST_MUTATION_COOLDOWN_SECONDS * MICROSECONDS_PER_SECOND
         \<le> advanced_cooldown_until (modem_at u' r))"
    using nth bound lock
    by (simp add: l850_mutation_release_modem_def l850_mutation_apply_cooldown_def Let_def)
qed

theorem completion_releases_witness:
  "\<exists>op. map_of (mutation_operations (expert_run 12)) 0 = Some op \<and>
     \<not> mutation_busy (modem_at (l850_mutation_complete_buffer 9 0 op run_reply (expert_run 12)) 0) \<and>
     \<not> mutation_busy (modem_at (l850_mutation_complete_buffer 9 0 op run_reply (expert_run 12)) 1)"
proof -
  obtain op where op: "map_of (mutation_operations (expert_run 12)) 0 = Some op" and "held op = [0, 1]"
    using table_shape_op [OF expert_run_claimed] by blast
  with completion_releases [OF startable_new expert_run_reachable op, of 9 run_reply] show ?thesis by auto
qed

end
