(* ===== verification/Coordinator_Contract.thy ===== *)
theory Coordinator_Contract
  imports Expert_Service
begin

text \<open>
  What a component that locks modems beside the cell lock coordinator may rely on: the contract
  with the bridge of \<open>Modem_Contract\<close>, extended by the three changes the coordinator makes to a
  modem (claim one that is not busy, release its own, store a serving cell). \<open>good\<close> is what the
  component knows of every modem. The locale shows that every input of the coordinator keeps the
  contract; the message and the radio operations interpret it.
\<close>

section \<open>The contract\<close>

definition everywhere :: "(modem \<Rightarrow> bool) \<Rightarrow> bridge \<Rightarrow> bool" where
  "everywhere good b \<longleftrightarrow> (\<forall>r < length (modems b). good (modems b ! r))"

text \<open>A modem locked for one kind of operation is busy.\<close>

definition locked_for :: "mutation_kind \<Rightarrow> modem \<Rightarrow> bool" where
  "locked_for kind m \<longleftrightarrow> (mutation_kind m = kind \<longrightarrow> mutation_busy m)"

lemma coordinator_book [simp]:
  "ubus_bridge (store k op u) = ubus_bridge u" "ubus_bridge (emit ev u) = ubus_bridge u"
  "ubus_bridge (mm_modem_command k op cb r c u) = ubus_bridge u"
  "ubus_bridge (l850_mutation_start_reprobe now k op u) = ubus_bridge u"
  "ubus_bridge (l850_mutation_start_nvm_command k op u) = ubus_bridge u"
  "ubus_bridge (l850_mutation_start_nvm_verification now k op st u) = ubus_bridge u"
  by (simp_all add: store_def emit_def mm_modem_command_def l850_mutation_start_reprobe_def
      l850_mutation_start_nvm_command_def l850_mutation_start_nvm_verification_def Let_def)

locale coordinator_client = modem_contract +
  fixes good :: "modem \<Rightarrow> bool"
  assumes claim: "good m \<Longrightarrow> \<not> mutation_busy m \<Longrightarrow> rely m (claim_modem m)"
    and release: "rely m (l850_mutation_release_modem now cooldown m)"
    and cell_store: "serving_cell_cache_store m a b c d p x q now reason = (ok, m') \<Longrightarrow> rely m m'"
begin

abbreviation change :: "ubus \<Rightarrow> ubus \<Rightarrow> bool" where
  "change u u' \<equiv> registry_change rely fresh (ubus_bridge u) (ubus_bridge u')"

lemma change_with: "rely (modem_at u r) (f (modem_at u r)) \<Longrightarrow> change u (with_modem r f u)"
  by (simp add: with_modem_def change_on_modem)

lemma change_bridge: "ubus_bridge u' = ubus_bridge u \<Longrightarrow> change u u'"
  by (simp add: change_same)

lemma change_free: "change u (l850_mutation_operation_free now k op u)"
proof -
  let ?f = "l850_mutation_release_modem now (set_dispatched op)"
  have step: "change u (with_modem r ?f v)" if "change u v" for r v
    using that release by (blast intro: change_trans change_with)
  have "change u u" by (rule change_bridge) simp
  with step show ?thesis
    by (auto simp: l850_mutation_operation_free_def Let_def split: option.split)
qed

lemma change_complete [simp]:
  "change u (l850_mutation_complete_buffer now k op rep u)"
  "change u (l850_mutation_complete_failure now k op st err retry u)"
  "change u (l850_mutation_complete_success now k op cell u)"
proof -
  show b: "change u (l850_mutation_complete_buffer now k op rep u)" for rep
    using change_free [of "emit (Reply k rep) u"] change_free [of u]
    by (simp add: l850_mutation_complete_buffer_def)
  show "change u (l850_mutation_complete_failure now k op st err retry u)"
    "change u (l850_mutation_complete_success now k op cell u)"
    by (simp_all add: l850_mutation_complete_failure_def l850_mutation_complete_success_def b)
qed

lemma change_emit [simp]: "change (emit ev u) u' = change u u'"
  by (rule change_cong) simp_all

lemma change_claim:
  assumes "everywhere good (ubus_bridge u)" and "\<not> mutation_busy (modem_at u r)"
  shows "change u (with_modem r claim_modem u)"
  using assms change_on_modem [of r "ubus_bridge u" claim_modem] claim
  by (auto simp: with_modem_def everywhere_def)

lemma change_cell:
  assumes "serving_cell_cache_store (modem_at u r) a b c d p x q now reason = (ok, m)"
  shows "change u (with_modem r (\<lambda>_. m) u)"
  using cell_store [OF assms] by (intro change_with)

lemma change_dispatch [simp]: "change u (l850_mutation_dispatch_set e k op u)"
  "change u (l850_mutation_start_reset e k op u)"
  by (simp_all add: l850_mutation_dispatch_set_def l850_mutation_start_reset_def change_bridge)

lemma change_probe [simp]: "change u (l850_mutation_probe_ready e k op src err resp u)"
  by (simp add: l850_mutation_probe_ready_def Let_def split: prod.split)

lemma change_set [simp]: "change u (l850_mutation_set_ready e k op src err resp u)"
  by (simp add: l850_mutation_set_ready_def Let_def change_bridge split: prod.split)

lemma change_reset [simp]: "change u (l850_mutation_reset_ready e k op err u)"
  by (simp add: l850_mutation_reset_ready_def Let_def change_bridge split: prod.split)

lemma change_nvm [simp]: "change u (l850_mutation_nvm_ready e k op src err resp u)"
proof -
  have read: "change u (nvm_registers_read e k op' lock u)" for op' lock
    by (simp add: nvm_registers_read_def Let_def change_bridge split: prod.split)
  obtain res lock where p: "nvm_parse (memory_left e) resp (Some zero_lock) = (res, lock)" by fastforce
  show ?thesis
    by (cases res; cases lock) (simp_all add: l850_mutation_nvm_ready_def Let_def p read)
qed

lemma change_scan [simp]: "change u (cell_scan_read e k op scan u)"
proof -
  have "change u (let (stored, m) = serving_cell_cache_store (modem_at u r) a b c d p x q now reason;
      u1 = with_modem r (\<lambda>_. m) u in if \<not> stored then l850_mutation_complete_failure n k op f g h u1
      else l850_mutation_complete_success n k op (Some cc) u1)" for r a b c d p x q now reason n f g h cc
  proof -
    obtain ok m where store: "serving_cell_cache_store (modem_at u r) a b c d p x q now reason = (ok, m)" by fastforce
    from change_cell [OF store] show ?thesis
      by (auto simp: store Let_def intro: change_trans [OF _ change_complete(2)]
          change_trans [OF _ change_complete(3)])
  qed
  then show ?thesis
    by (auto simp: cell_scan_read_def Let_def case_prod_beta split: option.split)
qed

lemma change_cell_ready [simp]: "change u (l850_mutation_cell_ready e k op src err resp u)"
  by (auto simp: l850_mutation_cell_ready_def Let_def split: prod.split cell_parse_result.split option.split)

lemma change_poll:
  assumes "everywhere good (ubus_bridge u)"
  shows "change u (l850_mutation_poll e k op u)"
proof -
  note same = change_bridge [of u u]
  have "change u (poll_reprobe e k op u)"
    using change_claim [OF assms] same
    by (auto simp: poll_reprobe_def Let_def split: option.split)
  then show ?thesis
    using same by (simp add: l850_mutation_poll_def poll_verify_def poll_registration_def Let_def)
qed

lemma change_start:
  assumes "everywhere good (ubus_bridge u)" and "\<not> mutation_busy (modem_at u r)"
  shows "change u (l850_mutation_start r t earfcn with_pci pci band command u)"
proof -
  have "change u (with_modem r claim_modem (store k op (emit ev (u\<lparr>next_operation := n\<rparr>))))" for k op ev n
    using change_claim [OF assms] by (simp add: registry_change_def)
  then show ?thesis
    by (auto simp: l850_mutation_start_def l850_mutation_operation_new_def send_l850_error_def Let_def
        change_bridge split: option.split)
qed

lemma change_requests:
  assumes "everywhere good (ubus_bridge u)"
  shows "change u (method_set_cell_lock e owner message u)"
    and "change u (method_clear_cell_lock e owner message' u)"
proof -
  have refuse: "change u (send_l850_error m err retry after u)" for m err retry after
    by (simp add: send_l850_error_def change_bridge)
  show "change u (method_set_cell_lock e owner message u)"
    using change_start [OF assms] refuse
    by (auto simp: method_set_cell_lock_def Let_def split: option.split sum.split prod.split bool.split)
  show "change u (method_clear_cell_lock e owner message' u)"
    using change_start [OF assms] refuse
    by (auto simp: method_clear_cell_lock_def Let_def split: option.split sum.split)
qed

lemma change_exec:
  assumes "everywhere good (ubus_bridge u)"
  shows "change u (exec i u)"
proof -
  have same: "change u u" by (rule change_bridge) simp
  have "change u (answer_ready cb e k op src err resp u)" for cb e k op src err resp u
    by (cases cb) (simp_all add: answer_ready_def)
  then have "change u (answer_ready cb e k op src err resp (emit ev u))" for cb e k op src err resp ev
    by (metis change_emit)
  then have deliver: "change u (deliver e k src err resp u)" for e k src err resp
    using same by (auto simp: deliver_def split: option.split)
  have fire: "change u (fire_poll e k u)" "change u (fire_timeout k u)" for e k
    using same change_poll [OF assms]
    by (auto simp: fire_poll_def fire_timeout_def l850_mutation_timeout_def change_bridge split: option.split)
  show ?thesis
  proof (cases i)
    case (Bridge ev)
    then show ?thesis by (simp add: exec_def change_handle)
  qed (use deliver fire change_requests [OF assms] in
      \<open>auto simp: exec_def cancel_l850_mutation_operations_def change_bridge\<close>)
qed

end

end
