(* ===== verification/Sms_Operation.thy ===== *)
theory Sms_Operation
  imports Expert_Service
begin

text \<open>
  Sending and deleting messages (\<open>ubus_glib.c\<close>, the functions \<open>sms_operation_*\<close>, the three
  callbacks and the two methods). An operation is a heap object in the table \<open>sms_operations\<close>
  from its creation to its release, named by a number; a handler gets it by value. The rest of
  the service, with the modems, is \<open>service\<close>.

  Cancellables are compared by identity when an operation is released: \<open>cancellable_owner\<close> is
  the operation whose cancellable the modem's field was last set to by this component. A
  cancelled call still answers, sooner, so an answer may come at any time with any result.
  \<open>so_pending\<close> is the call in flight; the trace records, newest first, what was started, sent
  and answered, and is not part of the program's state. A callback reads the clock as one
  instant.
\<close>

section \<open>State\<close>

datatype mm_sms_state = MM_SMS_STORED | MM_SMS_RECEIVING | MM_SMS_RECEIVED | MM_SMS_SENDING
  | MM_SMS_SENT | MM_SMS_UNKNOWN

definition sms_state_name :: "mm_sms_state \<Rightarrow> cstring" where
  "sms_state_name st =
     (case st of
        MM_SMS_STORED \<Rightarrow> ''stored''
      | MM_SMS_RECEIVING \<Rightarrow> ''receiving''
      | MM_SMS_RECEIVED \<Rightarrow> ''received''
      | MM_SMS_SENDING \<Rightarrow> ''sending''
      | MM_SMS_SENT \<Rightarrow> ''sent''
      | MM_SMS_UNKNOWN \<Rightarrow> ''unknown'')"

datatype sms_call = CREATE_CALL | SEND_CALL | DELETE_CALL

record sms_operation =
  so_type :: sms_operation_type
  so_modem :: nat
  so_messaging :: nat
  so_properties :: "(cstring \<times> cstring) option"
  so_sms :: "mm_sms option"
  so_entry :: "sms_entry option"
  so_cancelled :: bool
  so_generation :: u32
  so_messaging_generation :: u32
  so_timeout_source :: bool
  so_client_token :: "cstring option"
  so_sms_id :: "cstring option"
  so_request_digest :: "u8 list"
  so_has_request_digest :: bool
  so_timed_out :: bool
  so_send_dispatched :: bool
  so_transport_lost :: bool
  so_deferred :: bool
  so_pending :: "sms_call option"

text \<open>
  Replies: an error with code, message and whether it is retryable; a message sent with the
  modem, its messaging generation, identifier, state and whether the result was remembered; a
  message deleted.
\<close>

datatype sms_reply =
    Sms_Error cstring cstring bool
  | Sms_Sent nat u32 cstring cstring bool
  | Sms_Gone nat u32 cstring

datatype sms_event =
    Sms_Started nat nat sms_operation_type "cstring option"
  | Sms_Called nat sms_call nat "(cstring \<times> cstring) option"
  | Sms_Answered nat sms_call bool
  | Sms_Replied nat sms_reply
  | Sms_Direct sms_reply

record sms_service =
  service :: ubus
  sms_operations :: "(nat \<times> sms_operation) list"
  cancellable_owner :: "(nat \<times> nat) list"
  next_sms_operation :: nat
  sms_trace :: "sms_event list"

text \<open>
  What a handler reads of its surroundings: the modem attestation's, the build, the clock, the
  random source, GLib's text and path functions, SHA-256, whether its context can be
  allocated, whether ModemManager's name has an owner, and the state and path the message
  proxies show.
\<close>

record sms_env =
  env_around :: surroundings
  env_mm_1_24 :: bool
  env_now :: int
  env_random :: random
  env_utf8 :: glib_utf8
  env_object_path :: "cstring \<Rightarrow> bool"
  env_sha256 :: "u8 list \<Rightarrow> u8 list"
  env_memory :: bool
  env_owner :: bool
  env_sms_state :: "nat \<Rightarrow> mm_sms_state"
  env_sms_path :: "nat \<Rightarrow> cstring option"

abbreviation sms_modem_at :: "sms_service \<Rightarrow> nat \<Rightarrow> modem" where
  "sms_modem_at s r \<equiv> modem_at (service s) r"

definition sms_with_modem :: "nat \<Rightarrow> (modem \<Rightarrow> modem) \<Rightarrow> sms_service \<Rightarrow> sms_service" where
  "sms_with_modem r f s = s\<lparr>service := with_modem r f (service s)\<rparr>"

definition sms_emit :: "sms_event \<Rightarrow> sms_service \<Rightarrow> sms_service" where
  "sms_emit ev s = s\<lparr>sms_trace := ev # sms_trace s\<rparr>"

definition sms_put :: "nat \<Rightarrow> sms_operation \<Rightarrow> sms_service \<Rightarrow> sms_service" where
  "sms_put k op s = s\<lparr>sms_operations := AList.update k op (sms_operations s)\<rparr>"

text \<open>An asynchronous call of libmm: it goes out and its callback will run once.\<close>

definition sms_call_async ::
    "nat \<Rightarrow> sms_operation \<Rightarrow> sms_call \<Rightarrow> (cstring \<times> cstring) option \<Rightarrow> sms_service \<Rightarrow> sms_service" where
  "sms_call_async k op call args s =
     sms_put k (op\<lparr>so_pending := Some call\<rparr>) (sms_emit (Sms_Called k call (so_modem op) args) s)"

section \<open>Completion\<close>

definition sms_operation_stale_code :: "sms_operation \<Rightarrow> modem \<Rightarrow> cstring option" where
  "sms_operation_stale_code op m =
     (if \<not> live m then Some ''device_gone''
      else if generation m \<noteq> so_generation op then Some ''stale_generation''
      else if messaging_generation m \<noteq> so_messaging_generation op \<or> messaging m \<noteq> Some (so_messaging op)
      then Some ''stale_messaging_generation''
      else None)"

definition sms_operation_timeout :: "nat \<Rightarrow> sms_operation \<Rightarrow> sms_service \<Rightarrow> sms_service" where
  "sms_operation_timeout k op s =
     sms_put k (op\<lparr>so_timeout_source := False, so_timed_out := True, so_cancelled := True\<rparr>) s"

definition sms_operation_arm_timeout :: "sms_operation \<Rightarrow> sms_operation" where
  "sms_operation_arm_timeout op = op\<lparr>so_timed_out := False, so_timeout_source := True\<rparr>"

definition sms_unlock_modem :: "modem \<Rightarrow> modem" where
  "sms_unlock_modem m =
     m\<lparr>mutation_cancellable := None, mutation_busy := False, mutation_kind := MUTATION_NONE\<rparr>"

definition sms_operation_free :: "nat \<Rightarrow> sms_operation \<Rightarrow> sms_service \<Rightarrow> sms_service" where
  "sms_operation_free k op s =
     (let r = so_modem op;
          s1 = sms_with_modem r (\<lambda>m. l850gl_modem_release_sms_id m (so_sms_id op)) s;
          s2 = (if mutation_kind (sms_modem_at s1 r) = MUTATION_SMS \<and> map_of (cancellable_owner s1) r = Some k
                then (sms_with_modem r sms_unlock_modem s1)
                  \<lparr>cancellable_owner := AList.delete r (cancellable_owner s1)\<rparr>
                else s1)
      in s2\<lparr>sms_operations := AList.delete k (sms_operations s2)\<rparr>)"

definition sms_operation_complete_buffer ::
    "nat \<Rightarrow> sms_operation \<Rightarrow> sms_reply \<Rightarrow> sms_service \<Rightarrow> sms_service" where
  "sms_operation_complete_buffer k op buffer s =
     sms_operation_free k (op\<lparr>so_deferred := False\<rparr>)
       (if so_deferred op \<and> connected (service s) \<and> context_initialized (service s) \<and>
           \<not> ubus_stopping (service s)
        then sms_emit (Sms_Replied k buffer) s else s)"

text \<open>The memory of outcomes of one modem (\<open>sms_dedupe_store\<close> and \<open>sms_dedupe_remove\<close>).\<close>

definition remember :: "int \<Rightarrow> cstring option \<Rightarrow> sms_outcome \<Rightarrow> modem \<Rightarrow> modem" where
  "remember now token out m =
     m\<lparr>dedupe_queue := the (sms_dedupe_store now now now (Some (dedupe_queue m)) token out)\<rparr>"

definition forget :: "int \<Rightarrow> cstring option \<Rightarrow> modem \<Rightarrow> modem" where
  "forget now token m =
     (case token of None \<Rightarrow> m
      | Some t \<Rightarrow> m\<lparr>dedupe_queue := sms_dedupe_remove now (dedupe_queue m) t\<rparr>)"

definition sms_operation_complete_error ::
    "sms_env \<Rightarrow> nat \<Rightarrow> sms_operation \<Rightarrow> cstring \<Rightarrow> cstring \<Rightarrow> bool \<Rightarrow> sms_service \<Rightarrow> sms_service" where
  "sms_operation_complete_error e k op err message retry s =
     (let r = so_modem op;
          s1 = (if so_type op = SMS_OPERATION_SEND
                then if sms_operation_stale_code op (sms_modem_at s r) = None \<and> err = ''outcome_unknown''
                     then sms_with_modem r (remember (env_now e) (so_client_token op)
                            \<lparr>out_digest = Some (so_request_digest op), out_ok = False,
                             out_sms_id = so_sms_id op, out_state = None, out_error_code = Some err,
                             out_retryable = False\<rparr>) s
                     else sms_with_modem r (forget (env_now e) (so_client_token op)) s
                else s)
      in sms_operation_complete_buffer k op (Sms_Error err message retry) s1)"

definition sms_view :: "sms_operation \<Rightarrow> modem \<Rightarrow> sms_operation_view" where
  "sms_view op m =
     \<lparr>sms_type = so_type op,
      sms_modem = Some \<lparr>view_live = live m, view_generation = generation m,
        view_messaging_generation = messaging_generation m, view_messaging = messaging m\<rparr>,
      sms_generation = so_generation op, sms_messaging_generation = so_messaging_generation op,
      sms_messaging = so_messaging op, sms_timed_out = so_timed_out op,
      sms_send_dispatched = so_send_dispatched op, sms_transport_lost = so_transport_lost op\<rparr>"

definition sms_operation_complete_normalized_error ::
    "sms_env \<Rightarrow> nat \<Rightarrow> sms_operation \<Rightarrow> gerror option \<Rightarrow> sms_service \<Rightarrow> sms_service" where
  "sms_operation_complete_normalized_error e k op error s =
     (let normalized = normalize_sms_error (env_mm_1_24 e) error (sms_view op (sms_modem_at s (so_modem op)))
      in sms_operation_complete_error e k op (norm_code normalized) (norm_message normalized)
           (norm_retryable normalized) s)"

text \<open>Only called with a message and an identifier.\<close>

definition sms_operation_complete_send ::
    "sms_env \<Rightarrow> nat \<Rightarrow> sms_operation \<Rightarrow> bool \<Rightarrow> sms_service \<Rightarrow> sms_service" where
  "sms_operation_complete_send e k op store_dedupe s =
     (let r = so_modem op;
          state = sms_state_name (env_sms_state e (mm_sms_object (the (so_sms op))));
          s1 = (if store_dedupe
                then sms_with_modem r (remember (env_now e) (so_client_token op)
                       \<lparr>out_digest = Some (so_request_digest op), out_ok = True,
                        out_sms_id = so_sms_id op, out_state = Some state, out_error_code = None,
                        out_retryable = False\<rparr>) s
                else s)
      in sms_operation_complete_buffer k op
           (Sms_Sent r (so_messaging_generation op) (the (so_sms_id op)) state False) s1)"

definition sms_operation_complete_delete :: "nat \<Rightarrow> sms_operation \<Rightarrow> sms_service \<Rightarrow> sms_service" where
  "sms_operation_complete_delete k op s =
     sms_operation_complete_buffer k op
       (Sms_Gone (so_modem op) (so_messaging_generation op) (the (so_sms_id op))) s"

section \<open>Callbacks\<close>

definition sms_answered :: "sms_operation \<Rightarrow> sms_operation" where
  "sms_answered op = op\<lparr>so_pending := None\<rparr>"

definition sms_send_ready ::
    "sms_env \<Rightarrow> nat \<Rightarrow> sms_operation \<Rightarrow> bool \<Rightarrow> gerror option \<Rightarrow> sms_service \<Rightarrow> sms_service" where
  "sms_send_ready e k op0 was_sent error s =
     (let op = sms_answered op0; r = so_modem op in
      if \<not> was_sent then sms_operation_complete_normalized_error e k op error s
      else if sms_operation_stale_code op (sms_modem_at s r) \<noteq> None
      then sms_operation_complete_send e k op False s
      else sms_operation_complete_send e k op True
             (sms_with_modem r (\<lambda>m. fst (l850gl_modem_refresh_sms m)) s))"

definition sms_complete_code :: "sms_env \<Rightarrow> nat \<Rightarrow> sms_operation \<Rightarrow> cstring \<Rightarrow> sms_service \<Rightarrow> sms_service" where
  "sms_complete_code e k op err s =
     sms_operation_complete_error e k op err (sms_error_message err) False s"

text \<open>The part of the handler after the message was admitted.\<close>

definition sms_dispatch_send :: "sms_env \<Rightarrow> nat \<Rightarrow> sms_operation \<Rightarrow> sms_service \<Rightarrow> sms_service" where
  "sms_dispatch_send e k op s =
     (let r = so_modem op in
      case sms_operation_stale_code op (sms_modem_at s r) of
        Some stale \<Rightarrow> sms_complete_code e k op stale s
      | None \<Rightarrow>
          if \<not> attest_mutation_target (env_around e) (sms_modem_at s r)
          then sms_complete_code e k op ''unsupported'' s
          else sms_call_async k (sms_operation_arm_timeout (op\<lparr>so_send_dispatched := True\<rparr>)) SEND_CALL None s)"

text \<open>The part that admits the created message under the reserved identifier.\<close>

definition sms_admit_created :: "sms_env \<Rightarrow> nat \<Rightarrow> sms_operation \<Rightarrow> mm_sms \<Rightarrow> sms_service \<Rightarrow> sms_service" where
  "sms_admit_created e k op sms s =
     (let r = so_modem op in
      case l850gl_modem_admit_reserved_sms (env_object_path e) (env_random e) (sms_modem_at s r) sms
          (so_sms_id op) of
        (None, m, rnd) \<Rightarrow> sms_complete_code e k op ''internal_error'' (sms_with_modem r (\<lambda>_. m) s)
      | (Some entry, m, rnd) \<Rightarrow>
          sms_dispatch_send e k (op\<lparr>so_entry := Some entry\<rparr>) (sms_with_modem r (\<lambda>_. m) s))"

definition sms_create_ready ::
    "sms_env \<Rightarrow> nat \<Rightarrow> sms_operation \<Rightarrow> mm_sms option \<Rightarrow> gerror option \<Rightarrow> sms_service \<Rightarrow> sms_service" where
  "sms_create_ready e k op0 result error s =
     (let op = (sms_answered op0)\<lparr>so_properties := None\<rparr>; r = so_modem op in
      case result of
        None \<Rightarrow> sms_operation_complete_normalized_error e k op error s
      | Some sms \<Rightarrow>
          (let op1 = op\<lparr>so_sms := Some sms\<rparr> in
           case sms_operation_stale_code op1 (sms_modem_at s r) of
             Some stale \<Rightarrow> sms_complete_code e k op1 stale s
           | None \<Rightarrow> sms_admit_created e k op1 sms s))"

definition sms_delete_ready ::
    "sms_env \<Rightarrow> nat \<Rightarrow> sms_operation \<Rightarrow> bool \<Rightarrow> gerror option \<Rightarrow> sms_service \<Rightarrow> sms_service" where
  "sms_delete_ready e k op0 deleted error s =
     (let op = sms_answered op0; r = so_modem op in
      if \<not> deleted then sms_operation_complete_normalized_error e k op error s
      else sms_operation_complete_delete k op
             (if sms_operation_stale_code op (sms_modem_at s r) = None
              then sms_with_modem r (\<lambda>m. fst (l850gl_modem_refresh_sms m)) s else s))"

definition cancel_sms_operations :: "bool \<Rightarrow> sms_service \<Rightarrow> sms_service" where
  "cancel_sms_operations lost s =
     s\<lparr>sms_operations := map (\<lambda>(k, op).
         (k, op\<lparr>so_deferred := False, so_transport_lost := lost, so_cancelled := True\<rparr>)) (sms_operations s)\<rparr>"

section \<open>Requests\<close>

definition sms_claim_modem :: "modem \<Rightarrow> modem" where
  "sms_claim_modem m = m\<lparr>mutation_busy := True, mutation_kind := MUTATION_SMS,
     mutation_cancellable := Some False\<rparr>"

text \<open>Only called for a modem with a messaging interface.\<close>

definition sms_operation_new ::
    "nat \<Rightarrow> sms_operation_type \<Rightarrow> cstring option \<Rightarrow> sms_service \<Rightarrow> nat \<times> sms_operation \<times> sms_service" where
  "sms_operation_new r t token s =
     (let k = next_sms_operation s; m = sms_modem_at s r;
          op = sms_operation_arm_timeout
            \<lparr>so_type = t, so_modem = r, so_messaging = the (messaging m), so_properties = None,
             so_sms = None, so_entry = None, so_cancelled = False, so_generation = generation m,
             so_messaging_generation = messaging_generation m, so_timeout_source = False,
             so_client_token = None, so_sms_id = None,
             so_request_digest = replicate SMS_SHA256_DIGEST_LEN 0, so_has_request_digest = False,
             so_timed_out = False, so_send_dispatched = False, so_transport_lost = False,
             so_deferred = True, so_pending = None\<rparr>
      in (k, op, sms_with_modem r sms_claim_modem
            (sms_put k op (sms_emit (Sms_Started k r t token)
               (s\<lparr>next_sms_operation := Suc k, cancellable_owner := AList.update r k (cancellable_owner s)\<rparr>)))))"

definition sms_mutation_modem ::
    "sms_env \<Rightarrow> sms_service \<Rightarrow> cstring \<Rightarrow> u32 \<Rightarrow> u32 \<Rightarrow> cstring + nat" where
  "sms_mutation_modem e s modem_id' gen messaging_gen =
     (case l850gl_bridge_find_modem (ubus_bridge (service s)) (Some modem_id') of
        None \<Rightarrow> Inl (if l850gl_bridge_manager_available (env_owner e) (ubus_bridge (service s))
                     then ''stale_identity'' else ''dependency_unavailable'')
      | Some r \<Rightarrow>
          (let m = sms_modem_at s r in
           if generation m \<noteq> gen then Inl ''stale_generation''
           else if messaging_generation m \<noteq> messaging_gen then Inl ''stale_messaging_generation''
           else if messaging m = None then Inl ''unsupported''
           else if \<not> attest_mutation_target (env_around e) m then Inl ''unsupported''
           else if l850_modem_has_active_mutation (service s) r \<or> l850_modem_has_active_scan (service s) r \<or>
              l850_modem_has_active_carrier_query (service s) r \<or> voltage_refresh_pending m
           then Inl ''busy''
           else Inr r))"

definition send_error :: "cstring \<Rightarrow> cstring \<Rightarrow> bool \<Rightarrow> sms_service \<Rightarrow> sms_service" where
  "send_error err message retry s = sms_emit (Sms_Direct (Sms_Error err message retry)) s"

definition send_sms_mutation_lookup_error :: "cstring \<Rightarrow> sms_service \<Rightarrow> sms_service" where
  "send_sms_mutation_lookup_error err s =
     send_error err (sms_error_message err)
       (err = ''dependency_unavailable'' \<or> err = ''not_ready'' \<or> err = ''busy'') s"

text \<open>An entry that is not a success always has an error code.\<close>

definition send_cached_sms_result :: "nat \<Rightarrow> sms_dedupe \<Rightarrow> sms_service \<Rightarrow> sms_service" where
  "send_cached_sms_result r cached s =
     (if \<not> dedupe_ok cached
      then send_error (the (error_code cached)) (sms_error_message (the (error_code cached)))
             (retryable cached) s
      else sms_emit (Sms_Direct (Sms_Sent r (messaging_generation (sms_modem_at s r))
             (case dedupe_sms_id cached of None \<Rightarrow> [] | Some i \<Rightarrow> i)
             (case dedupe_state cached of None \<Rightarrow> ''unknown'' | Some st \<Rightarrow> st) True)) s)"

text \<open>The fields of a request, absent when \<open>parse_exact_fields\<close> rejects the message.\<close>

record send_request =
  snd_modem_id :: cstring
  snd_generation :: u32
  snd_messaging_generation :: u32
  snd_recipient :: cstring
  snd_text :: cstring
  snd_client_token :: cstring

definition sms_invalid_message :: cstring where
  "sms_invalid_message = ''recipient, text, modem_id, or client_token is invalid''"

definition sms_token_reused_message :: cstring where
  "sms_token_reused_message = ''client_token was already used for different SMS content''"

text \<open>The end of the method, from the creation of the operation on.\<close>

definition sms_send_start ::
    "sms_env \<Rightarrow> nat \<Rightarrow> send_request \<Rightarrow> u8 list \<Rightarrow> cstring \<Rightarrow> sms_service \<Rightarrow> sms_service" where
  "sms_send_start e r req digest sms_id s =
     (case sms_operation_new r SMS_OPERATION_SEND (Some (snd_client_token req)) s of
        (k, op0, s1) \<Rightarrow>
          (let op = op0\<lparr>so_properties := Some (snd_recipient req, snd_text req),
                 so_client_token := Some (snd_client_token req), so_sms_id := Some sms_id,
                 so_request_digest := digest, so_has_request_digest := True\<rparr>;
               s2 = sms_with_modem r (remember (env_now e) (Some (snd_client_token req))
                 \<lparr>out_digest = Some digest, out_ok = False, out_sms_id = Some sms_id, out_state = None,
                  out_error_code = Some ''busy'', out_retryable = True\<rparr>) s1
           in if \<not> attest_mutation_target (env_around e) (sms_modem_at s2 r)
              then sms_complete_code e k op ''unsupported'' s2
              else sms_call_async k op CREATE_CALL (so_properties op) s2))"

text \<open>The middle of the method, once the modem is found.\<close>

definition sms_send_on ::
    "sms_env \<Rightarrow> nat \<Rightarrow> send_request \<Rightarrow> u8 list \<Rightarrow> sms_service \<Rightarrow> sms_service" where
  "sms_send_on e r req digest s =
     (case sms_dedupe_find (env_now e) (dedupe_queue (sms_modem_at s r)) (snd_client_token req) of
        (cached, queue) \<Rightarrow>
          (let s1 = sms_with_modem r (\<lambda>m. m\<lparr>dedupe_queue := queue\<rparr>) s in
           case cached of
             Some entry \<Rightarrow>
               if \<not> sms_dedupe_digest_matches (Some entry) (Some digest)
               then send_error ''invalid_argument'' sms_token_reused_message False s1
               else send_cached_sms_result r entry s1
           | None \<Rightarrow>
               if mutation_busy (sms_modem_at s1 r) then send_sms_mutation_lookup_error ''busy'' s1
               else
                 (case l850gl_modem_reserve_sms_id (env_random e) (sms_modem_at s1 r) of
                    (None, m, rnd) \<Rightarrow>
                      send_sms_mutation_lookup_error ''internal_error'' (sms_with_modem r (\<lambda>_. m) s1)
                  | (Some sms_id, m, rnd) \<Rightarrow>
                      sms_send_start e r req digest sms_id (sms_with_modem r (\<lambda>_. m) s1))))"

definition method_send_sms :: "sms_env \<Rightarrow> send_request option \<Rightarrow> sms_service \<Rightarrow> sms_service" where
  "method_send_sms e message s =
     (case message of
        None \<Rightarrow>
          send_error ''invalid_argument'' ''send_sms requires exactly modem_id, generation, messaging_generation, recipient, text, and client_token''
            False s
      | Some req \<Rightarrow>
          if \<not> l850gl_identity_is_valid (Some (snd_modem_id req)) \<or>
             \<not> sms_recipient_is_valid (Some (snd_recipient req)) \<or>
             \<not> sms_outbound_text_is_valid (env_utf8 e) (Some (snd_text req)) \<or>
             \<not> l850gl_sms_operation_token_is_valid (Some (snd_client_token req))
          then send_error ''invalid_argument'' sms_invalid_message False s
          else
            (case sms_request_digest (env_sha256 e) (env_memory e) (Some (snd_recipient req))
                (Some (snd_text req)) of
               (True, Some digest) \<Rightarrow>
                 (case sms_mutation_modem e s (snd_modem_id req) (snd_generation req)
                      (snd_messaging_generation req) of
                    Inl err \<Rightarrow> send_sms_mutation_lookup_error err s
                  | Inr r \<Rightarrow> sms_send_on e r req digest s)
             | _ \<Rightarrow> send_error ''internal_error'' (sms_error_message ''internal_error'') False s))"

record delete_request =
  del_modem_id :: cstring
  del_generation :: u32
  del_messaging_generation :: u32
  del_sms_id :: cstring
  del_confirm :: bool

text \<open>The end of the method, once the entry is found; a cached entry has its message proxy.\<close>

definition sms_delete_start ::
    "sms_env \<Rightarrow> nat \<Rightarrow> delete_request \<Rightarrow> sms_entry \<Rightarrow> sms_service \<Rightarrow> sms_service" where
  "sms_delete_start e r req entry s =
     (let object = the (sms_object entry) in
      if env_sms_state e object = MM_SMS_SENDING then send_sms_mutation_lookup_error ''busy'' s
      else
        (case env_sms_path e object of
           None \<Rightarrow> send_sms_mutation_lookup_error ''internal_error'' s
         | Some path \<Rightarrow>
             if \<not> env_object_path e path then send_sms_mutation_lookup_error ''internal_error'' s
             else
               (case sms_operation_new r SMS_OPERATION_DELETE None s of
                  (k, op0, s1) \<Rightarrow>
                    (let op = op0\<lparr>so_entry := Some entry, so_sms_id := Some (del_sms_id req)\<rparr> in
                     if \<not> attest_mutation_target (env_around e) (sms_modem_at s1 r)
                     then sms_complete_code e k op ''unsupported'' s1
                     else sms_call_async k op DELETE_CALL (Some (path, [])) s1))))"

definition method_delete_sms :: "sms_env \<Rightarrow> delete_request option \<Rightarrow> sms_service \<Rightarrow> sms_service" where
  "method_delete_sms e message s =
     (case message of
        None \<Rightarrow>
          send_error ''invalid_argument'' ''delete_sms requires exactly modem_id, generation, messaging_generation, sms_id, and confirm''
            False s
      | Some req \<Rightarrow>
          if \<not> l850gl_identity_is_valid (Some (del_modem_id req)) \<or>
             \<not> l850gl_sms_identity_is_valid (Some (del_sms_id req)) \<or> \<not> del_confirm req
          then send_error ''invalid_argument'' ''valid modem_id, sms_id, and confirm=true are required'' False s
          else
            (case sms_mutation_modem e s (del_modem_id req) (del_generation req)
                (del_messaging_generation req) of
               Inl err \<Rightarrow> send_sms_mutation_lookup_error err s
             | Inr r \<Rightarrow>
                 (let m = sms_modem_at s r in
                  if sms_cache_state m \<noteq> ''ready'' \<and> sms_cache_state m \<noteq> ''ready-truncated''
                  then send_sms_mutation_lookup_error ''not_ready''
                         (sms_with_modem r (\<lambda>m. fst (l850gl_modem_refresh_sms m)) s)
                  else if mutation_busy m then send_sms_mutation_lookup_error ''busy'' s
                  else
                    (case l850gl_modem_find_sms m (Some (del_sms_id req)) of
                       None \<Rightarrow> send_sms_mutation_lookup_error ''not_found'' s
                     | Some entry \<Rightarrow> sms_delete_start e r req entry s))))"

end
