(* ===== verification/Sms_Protocol.thy ===== *)
theory Sms_Protocol
  imports Sms_Operation
begin

text \<open>
  What the service promises of one message operation, as a condition on the order of its events,
  and the invariant that carries the promise: how an operation's fields, its call in flight and
  its history correspond, and that it alone holds its modem. The lemmas show what the steps every
  handler is made of (record an event, change the modem's memory of messages, store, send,
  complete and release) keep of it.
\<close>

section \<open>The life of an operation\<close>

fun sms_event_op :: "sms_event \<Rightarrow> nat option" where
  "sms_event_op (Sms_Started k r t token) = Some k"
| "sms_event_op (Sms_Called k call r args) = Some k"
| "sms_event_op (Sms_Answered k call ok) = Some k"
| "sms_event_op (Sms_Replied k rep) = Some k"
| "sms_event_op (Sms_Direct rep) = None"

definition sms_history :: "nat \<Rightarrow> sms_event list \<Rightarrow> sms_event list" where
  "sms_history k t = filter (\<lambda>ev. sms_event_op ev = Some k) t"

text \<open>A reply says what the last answer said.\<close>

fun sms_reply_truth :: "sms_reply \<Rightarrow> sms_event list \<Rightarrow> bool" where
  "sms_reply_truth (Sms_Error err message retry) (Sms_Started k r t token # h) = True"
| "sms_reply_truth (Sms_Error err message retry) (Sms_Answered k call ok # h) = (call = CREATE_CALL \<or> ok = False)"
| "sms_reply_truth (Sms_Sent r gen i st dup) (Sms_Answered k call ok # h) = (call = SEND_CALL \<and> ok \<and> dup = False)"
| "sms_reply_truth (Sms_Gone r gen i) (Sms_Answered k call ok # h) = (call = DELETE_CALL \<and> ok)"
| "sms_reply_truth rep h = False"

fun sms_call_allowed :: "sms_call \<Rightarrow> nat \<Rightarrow> sms_event list \<Rightarrow> bool" where
  "sms_call_allowed CREATE_CALL r h = (case h of [Sms_Started k q t token] \<Rightarrow> q = r \<and> t = SMS_OPERATION_SEND | _ \<Rightarrow> False)"
| "sms_call_allowed DELETE_CALL r h = (case h of [Sms_Started k q t token] \<Rightarrow> q = r \<and> t = SMS_OPERATION_DELETE | _ \<Rightarrow> False)"
| "sms_call_allowed SEND_CALL r h =
     (case h of Sms_Answered k call ok # Sms_Called k' call' q args # _ \<Rightarrow> call = CREATE_CALL \<and> ok \<and> q = r | _ \<Rightarrow> False)"

fun sms_allowed :: "sms_event \<Rightarrow> sms_event list \<Rightarrow> bool" where
  "sms_allowed (Sms_Started k r t token) h = (h = [])"
| "sms_allowed (Sms_Called k call r args) h = sms_call_allowed call r h"
| "sms_allowed (Sms_Answered k call ok) h = (case h of Sms_Called k' call' r args # _ \<Rightarrow> call' = call | _ \<Rightarrow> False)"
| "sms_allowed (Sms_Replied k rep) h = sms_reply_truth rep h"
| "sms_allowed (Sms_Direct rep) h = True"

fun sms_protocol :: "sms_event list \<Rightarrow> bool" where
  "sms_protocol [] = True"
| "sms_protocol (ev # h) = (sms_allowed ev h \<and> sms_protocol h)"

section \<open>Invariant\<close>

definition sms_waits :: "nat \<Rightarrow> sms_operation \<Rightarrow> sms_event list \<Rightarrow> bool" where
  "sms_waits k op h \<longleftrightarrow>
     (case h of Sms_Called k' call r args # _ \<Rightarrow> so_pending op = Some call \<and> r = so_modem op | _ \<Rightarrow> False) \<and>
     (so_pending op = Some DELETE_CALL \<longleftrightarrow> so_type op = SMS_OPERATION_DELETE) \<and>
     (so_send_dispatched op \<longleftrightarrow> so_pending op = Some SEND_CALL)"

definition sms_held :: "sms_service \<Rightarrow> nat list" where
  "sms_held s = map (so_modem \<circ> snd) (sms_operations s)"

definition sms_frame :: "sms_service \<Rightarrow> bool" where
  "sms_frame s \<longleftrightarrow> mutation_inv (service s) \<and> distinct (map fst (sms_operations s)) \<and>
     distinct (sms_held s) \<and> (\<forall>r \<in> set (sms_held s). r < length (modems (ubus_bridge (service s)))) \<and>
     (\<forall>r < length (modems (ubus_bridge (service s))).
        (mutation_kind (sms_modem_at s r) = MUTATION_SMS \<longleftrightarrow> r \<in> set (sms_held s)) \<and>
        (r \<in> set (sms_held s) \<longrightarrow> mutation_busy (sms_modem_at s r)) \<and>
        dedupe_inv (dedupe_queue (sms_modem_at s r))) \<and>
     (\<forall>(k, op) \<in> set (sms_operations s). map_of (cancellable_owner s) (so_modem op) = Some k) \<and>
     (\<forall>k. sms_protocol (sms_history k (sms_trace s))) \<and>
     (\<forall>k \<ge> next_sms_operation s. sms_history k (sms_trace s) = [] \<and> k \<notin> fst ` set (sms_operations s))"

definition sms_op_ok :: "sms_service \<Rightarrow> nat \<Rightarrow> sms_operation \<Rightarrow> bool" where
  "sms_op_ok s k op \<longleftrightarrow> sms_waits k op (sms_history k (sms_trace s))"

definition sms_service_inv :: "sms_service \<Rightarrow> bool" where
  "sms_service_inv s \<longleftrightarrow> sms_frame s \<and> (\<forall>(k, op) \<in> set (sms_operations s). sms_op_ok s k op)"

text \<open>Inside a handler of operation \<open>k\<close>, which holds \<open>op\<close> by value.\<close>

definition sms_inside :: "nat \<Rightarrow> sms_operation \<Rightarrow> sms_service \<Rightarrow> bool" where
  "sms_inside k op s \<longleftrightarrow> sms_frame s \<and>
     (\<exists>op0. map_of (sms_operations s) k = Some op0 \<and> so_modem op0 = so_modem op) \<and>
     (\<forall>(k', op') \<in> set (sms_operations s). k' \<noteq> k \<longrightarrow> sms_op_ok s k' op')"

section \<open>Changes of one modem\<close>

text \<open>What the requests that only read keep of a modem.\<close>

definition reader_view :: "modem \<Rightarrow> mm_modem \<times> bool \<times> bool \<times> serving_cell option" where
  "reader_view m = (proxy m, voltage_refresh_pending m, serving_cell_refresh_pending m, serving_cell_cache m)"

definition sms_quiet :: "modem \<Rightarrow> modem \<Rightarrow> bool" where
  "sms_quiet m m' \<longleftrightarrow> kept m m' \<and> mutation_kind m' = mutation_kind m \<and> mutation_busy m' = mutation_busy m \<and>
     advanced_cooldown_until m' = advanced_cooldown_until m \<and> reader_view m' = reader_view m \<and>
     (dedupe_inv (dedupe_queue m) \<longrightarrow> dedupe_inv (dedupe_queue m'))"

lemma quiet_same_tables:
  "same_tables m' m \<Longrightarrow> modem_id m' = modem_id m \<Longrightarrow> mutation_kind m' = mutation_kind m \<Longrightarrow>
   mutation_busy m' = mutation_busy m \<Longrightarrow> advanced_cooldown_until m' = advanced_cooldown_until m \<Longrightarrow>
   reader_view m' = reader_view m \<Longrightarrow> (dedupe_inv (dedupe_queue m) \<Longrightarrow> dedupe_inv (dedupe_queue m')) \<Longrightarrow> sms_quiet m m'"
  using kept_mutation_fields [of m' m] by (simp add: sms_quiet_def)

lemma quiet_remember: "sms_quiet m (remember now token out m)"
proof (rule quiet_same_tables)
  assume "dedupe_inv (dedupe_queue m)"
  from store_inv [OF this, of now now now token out]
  show "dedupe_inv (dedupe_queue (remember now token out m))" by (auto simp: remember_def)
qed (simp_all add: remember_def same_tables_def reader_view_def)

lemma quiet_forget: "sms_quiet m (forget now token m)"
  by (rule quiet_same_tables) (auto simp: forget_def same_tables_def reader_view_def remove_inv split: option.split)

lemma quiet_find: "sms_quiet m (m\<lparr>dedupe_queue := snd (sms_dedupe_find now (dedupe_queue m) t)\<rparr>)"
  by (rule quiet_same_tables) (simp_all add: same_tables_def reader_view_def find_inv)

lemma quiet_refresh: "sms_quiet m (fst (l850gl_modem_refresh_sms m))"
  by (rule quiet_same_tables)
    (auto simp: l850gl_modem_refresh_sms_def query_sms_def same_tables_def reader_view_def split: option.split)

lemma quiet_release: "sms_quiet m (l850gl_modem_release_sms_id m i)"
  using sms_inv_release [of m i]
  by (auto simp: sms_quiet_def kept_def reader_view_def l850gl_modem_release_sms_id_def split: option.split)

lemma quiet_reserve:
  "l850gl_modem_reserve_sms_id rnd m = (i, m', rnd') \<Longrightarrow> sms_quiet m m'"
  using sms_inv_reserve [of m rnd i m' rnd']
  by (auto simp: sms_quiet_def kept_def reader_view_def l850gl_modem_reserve_sms_id_def
      split: option.splits prod.splits if_splits)

lemma admit_fields:
  assumes "modem_admit_sms objpath rnd m sms i = (e, m', rnd')"
  shows "live m' = live m" "modem_id m' = modem_id m" "generation m' = generation m"
    "mutation_kind m' = mutation_kind m" "mutation_busy m' = mutation_busy m"
    "advanced_cooldown_until m' = advanced_cooldown_until m" "dedupe_queue m' = dedupe_queue m"
    "reader_view m' = reader_view m"
  using assms
  by (auto simp: modem_admit_sms_def reader_view_def Let_def sms_revision_bump_def l850gl_modem_release_sms_id_def
      clear_sms_cache_def split: if_splits option.splits prod.splits)

lemma quiet_admit:
  assumes "l850gl_modem_admit_reserved_sms objpath rnd m sms i = (e, m', rnd')"
  shows "sms_quiet m m'"
  using assms admit_fields [of objpath rnd m sms i e m' rnd'] sms_inv_admit [of m objpath rnd sms i e m' rnd']
  by (simp add: l850gl_modem_admit_reserved_sms_def sms_quiet_def kept_def)

lemmas quiet_changes = quiet_remember quiet_forget quiet_find quiet_refresh quiet_release

section \<open>Bookkeeping\<close>

lemma sms_history_Cons [simp]:
  "sms_history k (ev # t) = (if sms_event_op ev = Some k then ev # sms_history k t else sms_history k t)"
  by (simp add: sms_history_def)

lemma sms_emit_fields [simp]:
  "service (sms_emit ev s) = service s" "sms_operations (sms_emit ev s) = sms_operations s"
  "cancellable_owner (sms_emit ev s) = cancellable_owner s"
  "next_sms_operation (sms_emit ev s) = next_sms_operation s" "sms_trace (sms_emit ev s) = ev # sms_trace s"
  by (simp_all add: sms_emit_def)

lemma sms_put_fields [simp]:
  "service (sms_put k op s) = service s" "cancellable_owner (sms_put k op s) = cancellable_owner s"
  "next_sms_operation (sms_put k op s) = next_sms_operation s" "sms_trace (sms_put k op s) = sms_trace s"
  "sms_operations (sms_put k op s) = AList.update k op (sms_operations s)"
  by (simp_all add: sms_put_def)

lemma sms_with_modem_fields [simp]:
  "sms_operations (sms_with_modem r f s) = sms_operations s"
  "cancellable_owner (sms_with_modem r f s) = cancellable_owner s"
  "next_sms_operation (sms_with_modem r f s) = next_sms_operation s"
  "sms_trace (sms_with_modem r f s) = sms_trace s"
  "service (sms_with_modem r f s) = with_modem r f (service s)"
  by (simp_all add: sms_with_modem_def)

lemma sms_modem_nth: "q < length (modems (ubus_bridge (service s))) \<Longrightarrow>
    sms_modem_at (sms_with_modem r f s) q = (if q = r then f (sms_modem_at s q) else sms_modem_at s q)"
  by (simp add: on_modem_nth)

text \<open>A change of a modem that both components tolerate.\<close>

lemma sms_change_inv:
  assumes "mutation_inv (service s)"
    and "kept (sms_modem_at s r) (f (sms_modem_at s r))" and "modem_rely (sms_modem_at s r) (f (sms_modem_at s r))"
  shows "mutation_inv (service (sms_with_modem r f s))"
proof -
  have "registry_inv (ubus_bridge (service s))" using assms(1) by (simp add: mutation_inv_def frame_inv_def)
  then have "registry_inv (on_modem r f (ubus_bridge (service s)))"
    using assms(2) by (intro registry_on_modem)
  moreover have "bridge_rely (ubus_bridge (service s)) (on_modem r f (ubus_bridge (service s)))"
    using assms(3) by (intro expert.change_on_modem)
  ultimately show ?thesis
    using environment_inv [OF assms(1)] by (simp add: with_modem_def)
qed

lemma quiet_rely: "sms_quiet m m' \<Longrightarrow> modem_rely m m'"
  by (auto simp: sms_quiet_def kept_def modem_rely_def)

lemma sms_frame_quiet:
  assumes "sms_frame s" and q: "sms_quiet (sms_modem_at s r) (f (sms_modem_at s r))"
  shows "sms_frame (sms_with_modem r f s)"
proof -
  have "mutation_inv (service (sms_with_modem r f s))"
    using assms quiet_rely [OF q] by (intro sms_change_inv) (simp_all add: sms_frame_def sms_quiet_def)
  moreover have "sms_held (sms_with_modem r f s) = sms_held s" by (simp add: sms_held_def)
  ultimately show ?thesis
    using assms by (simp add: sms_frame_def sms_quiet_def on_modem_nth)
qed

lemma sms_inside_quiet:
  assumes "sms_inside k op s" and "sms_quiet (sms_modem_at s r) (f (sms_modem_at s r))"
  shows "sms_inside k op (sms_with_modem r f s)"
  using assms sms_frame_quiet by (auto simp: sms_inside_def sms_op_ok_def)

lemma sms_inside_cong: "so_modem op' = so_modem op \<Longrightarrow> sms_inside k op' s = sms_inside k op s"
  by (simp add: sms_inside_def)

lemma sms_inside_key: "sms_inside k op s \<Longrightarrow> k < next_sms_operation s"
  unfolding sms_inside_def sms_frame_def
  by (metis (no_types, lifting) fst_conv image_eqI linorder_not_less map_of_SomeD)

lemma sms_frame_emit:
  assumes "sms_frame s" and "sms_event_op ev = Some k" and "k < next_sms_operation s"
    and "sms_allowed ev (sms_history k (sms_trace s))"
  shows "sms_frame (sms_emit ev s)"
  using assms by (auto simp: sms_frame_def sms_held_def)

lemma sms_inside_emit:
  assumes ins: "sms_inside k op s" and ev: "sms_event_op ev = Some k"
    and "sms_allowed ev (sms_history k (sms_trace s))"
  shows "sms_inside k op (sms_emit ev s)"
proof -
  have "sms_frame (sms_emit ev s)"
    using assms sms_inside_key [OF ins] by (intro sms_frame_emit) (simp_all add: sms_inside_def)
  with ins ev show ?thesis by (auto simp: sms_inside_def sms_op_ok_def)
qed

lemma sms_held_update:
  assumes "map_of t k = Some op0" and "f op' = f op0"
  shows "map (f \<circ> snd) (AList.update k op' t) = map (f \<circ> snd) t"
  using assms by (induction t) auto

lemma sms_inside_put:
  assumes ins: "sms_inside k op s" and m: "so_modem op' = so_modem op"
    and ok: "sms_op_ok s k op'"
  shows "sms_service_inv (sms_put k op' s)"
proof -
  obtain op0 where op0: "map_of (sms_operations s) k = Some op0" "so_modem op0 = so_modem op"
    using ins by (auto simp: sms_inside_def)
  have held: "sms_held (sms_put k op' s) = sms_held s"
    using sms_held_update [OF op0(1), of so_modem op'] op0(2) m by (simp add: sms_held_def)
  have mem: "k \<in> fst ` set (sms_operations s)" using op0(1) by (force dest: map_of_SomeD)
  have dist: "distinct (map fst (sms_operations s))" using ins by (simp add: sms_inside_def sms_frame_def)
  have own: "map_of (cancellable_owner s) (so_modem op') = Some k"
  proof -
    have "(k, op0) \<in> set (sms_operations s)" using op0(1) by (rule map_of_SomeD)
    then have "map_of (cancellable_owner s) (so_modem op0) = Some k"
      using ins unfolding sms_inside_def sms_frame_def by blast
    then show ?thesis using op0(2) m by simp
  qed
  have set: "x \<in> set (AList.update k op' (sms_operations s)) \<Longrightarrow>
      x = (k, op') \<or> x \<in> set (sms_operations s) \<and> fst x \<noteq> k" for x
    using mem_update [OF dist, of "fst x" "snd x" k op'] by (cases x) (auto split: if_splits)
  have "sms_frame (sms_put k op' s)"
    using ins held mem own set unfolding sms_inside_def sms_frame_def
    by (auto simp: distinct_update keys_update split_beta) (metis fst_conv snd_conv prod.collapse)+
  then show ?thesis
    using ins ok set by (fastforce simp: sms_service_inv_def sms_inside_def sms_op_ok_def)
qed

lemma sms_held_delete:
  assumes "distinct (map fst t)" and "distinct (map (f \<circ> snd) t)" and "map_of t k = Some op"
  shows "distinct (map (f \<circ> snd) (AList.delete k t)) \<and>
    set (map (f \<circ> snd) (AList.delete k t)) = set (map (f \<circ> snd) t) - {f op}"
proof -
  have mem: "(k, op) \<in> set t" using assms(3) by (rule map_of_SomeD)
  have "{x \<in> set t. fst x \<noteq> k} = set t - {(k, op)}"
    using assms(1) mem by (auto dest: eq_key_imp_eq_value)
  moreover have "(f \<circ> snd) ` (set t - {(k, op)}) = (f \<circ> snd) ` set t - {f op}"
    using assms(2) mem inj_on_image_set_diff [of "f \<circ> snd" "set t" "set t" "{(k, op)}"]
    by (simp add: distinct_map)
  ultimately show ?thesis
    using assms(2) by (simp add: delete_filter distinct_map_filter)
qed

lemma sms_inside_own:
  assumes "sms_inside k op s"
  shows "so_modem op \<in> set (sms_held s)" and "so_modem op < length (modems (ubus_bridge (service s)))"
    and "mutation_kind (sms_modem_at s (so_modem op)) = MUTATION_SMS"
    and "map_of (cancellable_owner s) (so_modem op) = Some k"
proof -
  obtain op0 where "map_of (sms_operations s) k = Some op0" and m: "so_modem op0 = so_modem op"
    using assms by (auto simp: sms_inside_def)
  then have mem: "(k, op0) \<in> set (sms_operations s)" by (simp add: map_of_SomeD)
  then show held: "so_modem op \<in> set (sms_held s)" using m by (force simp: sms_held_def)
  show "so_modem op < length (modems (ubus_bridge (service s)))"
    and "mutation_kind (sms_modem_at s (so_modem op)) = MUTATION_SMS"
    using assms held by (auto simp: sms_inside_def sms_frame_def)
  show "map_of (cancellable_owner s) (so_modem op) = Some k"
    using assms mem m unfolding sms_inside_def sms_frame_def by fastforce
qed

lemma kept_unlock: "kept m (sms_unlock_modem m)"
  by (rule kept_mutation_fields) (simp_all add: same_tables_def sms_unlock_modem_def)

lemma sms_unlock_inv:
  assumes ins: "sms_inside k op s" and r: "r = so_modem op"
  shows "sms_service_inv (sms_with_modem r sms_unlock_modem s
    \<lparr>cancellable_owner := AList.delete r (cancellable_owner s), sms_operations := AList.delete k (sms_operations s)\<rparr>)"
    (is "sms_service_inv ?s")
proof -
  note own = sms_inside_own [OF ins, folded r]
  obtain op0 where op0: "map_of (sms_operations s) k = Some op0" "so_modem op0 = r"
    using ins r by (auto simp: sms_inside_def)
  have frame: "sms_frame s" using ins by (simp add: sms_inside_def)
  then have dist: "distinct (map fst (sms_operations s))" "distinct (map (so_modem \<circ> snd) (sms_operations s))"
    by (simp_all add: sms_frame_def sms_held_def)
  have held: "distinct (sms_held ?s)" "set (sms_held ?s) = set (sms_held s) - {r}"
    using sms_held_delete [OF dist op0(1)] op0(2) by (simp_all add: sms_held_def)
  have "modem_rely (sms_modem_at s r) (sms_unlock_modem (sms_modem_at s r))"
    using own(3) by (simp add: modem_rely_def sms_unlock_modem_def)
  then have "mutation_inv (with_modem r sms_unlock_modem (service s))"
    using frame kept_unlock sms_change_inv [of s r sms_unlock_modem] by (simp add: sms_frame_def)
  moreover have "map_of (AList.delete r (cancellable_owner s)) (so_modem op') = Some k'"
    if "(k', op') \<in> set (sms_operations s)" "k' \<noteq> k" for k' op'
  proof -
    have "so_modem op' \<noteq> r"
    proof
      assume "so_modem op' = r"
      with that(1) frame have "map_of (cancellable_owner s) r = Some k'"
        unfolding sms_frame_def by fastforce
      with own(4) that(2) show False by simp
    qed
    moreover have "map_of (cancellable_owner s) (so_modem op') = Some k'"
      using that(1) frame unfolding sms_frame_def by fastforce
    ultimately show ?thesis by (simp add: delete_conv')
  qed
  moreover have "(mutation_kind (sms_modem_at ?s q) = MUTATION_SMS \<longleftrightarrow> q \<in> set (sms_held ?s)) \<and>
      (q \<in> set (sms_held ?s) \<longrightarrow> mutation_busy (sms_modem_at ?s q)) \<and>
      dedupe_inv (dedupe_queue (sms_modem_at ?s q))"
    if "q < length (modems (ubus_bridge (service ?s)))" for q
  proof -
    have q: "q < length (modems (ubus_bridge (service s)))" using that by simp
    have "sms_modem_at ?s q = (if q = r then sms_unlock_modem (sms_modem_at s q) else sms_modem_at s q)"
      using q by (simp add: on_modem_nth)
    with q frame held(2) show ?thesis by (auto simp: sms_frame_def sms_unlock_modem_def)
  qed
  moreover have "\<forall>q \<in> set (sms_held ?s). q < length (modems (ubus_bridge (service ?s)))"
    using frame held(2) by (simp add: sms_frame_def)
  moreover have "distinct (map fst (AList.delete k (sms_operations s)))" using dist(1) by (rule distinct_delete)
  ultimately have "sms_frame ?s"
    using frame held(1) unfolding sms_frame_def by (simp add: delete_filter) blast
  then show ?thesis
    using ins by (auto simp: sms_service_inv_def sms_inside_def sms_op_ok_def delete_filter)
qed

lemma sms_inside_free:
  assumes ins: "sms_inside k op s"
  shows "sms_service_inv (sms_operation_free k op s)"
proof -
  let ?r = "so_modem op"
  let ?s = "sms_with_modem ?r (\<lambda>m. l850gl_modem_release_sms_id m (so_sms_id op)) s"
  have ins': "sms_inside k op ?s" using ins quiet_release by (intro sms_inside_quiet)
  note own = sms_inside_own [OF ins']
  from sms_unlock_inv [OF ins' refl] own(3,4) show ?thesis
    by (simp add: sms_operation_free_def Let_def sms_with_modem_def)
qed

lemma sms_inside_complete:
  assumes ins: "sms_inside k op s" and truth: "sms_reply_truth rep (sms_history k (sms_trace s))"
  shows "sms_service_inv (sms_operation_complete_buffer k op rep s)"
proof -
  have "sms_inside k op (sms_emit (Sms_Replied k rep) s)"
    using truth by (intro sms_inside_emit [OF ins]) simp_all
  then show ?thesis
    unfolding sms_operation_complete_buffer_def
    by (intro sms_inside_free) (simp add: ins sms_inside_cong [of "op\<lparr>so_deferred := False\<rparr>" op])
qed

text \<open>Between an answer, or the start, and what the handler makes of it.\<close>

definition sms_error_time :: "sms_event list \<Rightarrow> bool" where
  "sms_error_time h \<longleftrightarrow> sms_reply_truth (Sms_Error [] [] False) h"

lemma sms_error_truth: "sms_error_time h \<Longrightarrow> sms_reply_truth (Sms_Error err message retry) h"
  by (cases h; cases "hd h") (auto simp: sms_error_time_def)

lemma sms_inside_memory:
  assumes "sms_inside k op s"
  shows "sms_inside k op (sms_with_modem r (remember now token out) s)"
    and "sms_inside k op (sms_with_modem r (forget now token) s)"
  using assms quiet_remember quiet_forget by (blast intro: sms_inside_quiet)+

lemma sms_inside_error:
  assumes ins: "sms_inside k op s" and "sms_error_time (sms_history k (sms_trace s))"
  shows "sms_service_inv (sms_operation_complete_error e k op err message retry s)"
  using sms_inside_memory [OF ins] ins assms(2)
  by (auto simp: sms_operation_complete_error_def Let_def intro!: sms_inside_complete sms_error_truth)

lemma sms_inside_normalized:
  assumes "sms_inside k op s" and "sms_error_time (sms_history k (sms_trace s))"
  shows "sms_service_inv (sms_operation_complete_normalized_error e k op error s)"
  using sms_inside_error [OF assms] by (simp add: sms_operation_complete_normalized_error_def Let_def)

lemma sms_inside_code:
  assumes "sms_inside k op s" and "sms_error_time (sms_history k (sms_trace s))"
  shows "sms_service_inv (sms_complete_code e k op err s)"
  using sms_inside_error [OF assms] by (simp add: sms_complete_code_def)

lemma sms_inside_send:
  assumes ins: "sms_inside k op s" and "sms_history k (sms_trace s) = Sms_Answered k SEND_CALL True # h"
  shows "sms_service_inv (sms_operation_complete_send e k op st s)"
  using sms_inside_memory(1) [OF ins] ins assms(2)
  by (auto simp: sms_operation_complete_send_def Let_def intro!: sms_inside_complete)

lemma sms_inside_delete:
  assumes ins: "sms_inside k op s" and "sms_history k (sms_trace s) = Sms_Answered k DELETE_CALL True # h"
  shows "sms_service_inv (sms_operation_complete_delete k op s)"
  using ins assms(2) by (simp add: sms_operation_complete_delete_def sms_inside_complete)

lemma sms_inside_call:
  assumes ins: "sms_inside k op s" and m: "so_modem op' = so_modem op"
    and "sms_call_allowed call (so_modem op) (sms_history k (sms_trace s))"
    and "call = DELETE_CALL \<longleftrightarrow> so_type op' = SMS_OPERATION_DELETE" and "so_send_dispatched op' \<longleftrightarrow> call = SEND_CALL"
  shows "sms_service_inv (sms_call_async k op' call args s)"
proof -
  have "sms_inside k op (sms_emit (Sms_Called k call (so_modem op') args) s)"
    using assms(3) m by (intro sms_inside_emit [OF ins]) simp_all
  then show ?thesis
    unfolding sms_call_async_def using assms(2,4,5)
    by (intro sms_inside_put) (simp_all add: sms_op_ok_def sms_waits_def)
qed

end
