(* ===== verification/Sms_Handlers.thy ===== *)
theory Sms_Handlers
  imports Sms_Protocol
begin

text \<open>
  Every callback, timer and method of the message operations keeps the invariant of
  \<open>Sms_Protocol\<close>.
\<close>

section \<open>Callbacks\<close>

lemma sms_inv_op:
  assumes "sms_service_inv s" and "map_of (sms_operations s) k = Some op"
  shows "sms_inside k op s" and "sms_waits k op (sms_history k (sms_trace s))"
proof -
  have "(k, op) \<in> set (sms_operations s)" using assms(2) by (rule map_of_SomeD)
  then show "sms_waits k op (sms_history k (sms_trace s))"
    using assms(1) by (auto simp: sms_service_inv_def sms_op_ok_def)
  show "sms_inside k op s" using assms by (auto simp: sms_service_inv_def sms_inside_def)
qed

lemma sms_answered_fields [simp]:
  "so_modem (sms_answered op) = so_modem op" "so_type (sms_answered op) = so_type op"
  "so_sms_id (sms_answered op) = so_sms_id op" "so_client_token (sms_answered op) = so_client_token op"
  "so_send_dispatched (sms_answered op) = so_send_dispatched op"
  by (simp_all add: sms_answered_def)

lemma sms_answer_inside:
  assumes inv: "sms_service_inv s" and op: "map_of (sms_operations s) k = Some op"
    and pend: "so_pending op = Some call" and "so_modem op' = so_modem op"
  shows "sms_inside k op' (sms_emit (Sms_Answered k call ok) s)"
    and "\<exists>k' args h. sms_history k (sms_trace (sms_emit (Sms_Answered k call ok) s)) =
      Sms_Answered k call ok # Sms_Called k' call (so_modem op) args # h"
proof -
  note w = sms_inv_op [OF inv op]
  from w(2) pend obtain k' args h where
    h: "sms_history k (sms_trace s) = Sms_Called k' call (so_modem op) args # h"
    by (auto simp: sms_waits_def split: list.splits sms_event.splits)
  then show "\<exists>k' args h. sms_history k (sms_trace (sms_emit (Sms_Answered k call ok) s)) =
      Sms_Answered k call ok # Sms_Called k' call (so_modem op) args # h" by simp
  have "sms_inside k op (sms_emit (Sms_Answered k call ok) s)"
    by (rule sms_inside_emit [OF w(1)]) (simp_all add: h)
  then show "sms_inside k op' (sms_emit (Sms_Answered k call ok) s)"
    using assms(4) by (simp add: sms_inside_cong [of op' op])
qed

lemma sms_send_ready_inv:
  assumes inv: "sms_service_inv s" and op: "map_of (sms_operations s) k = Some op"
    and pend: "so_pending op = Some SEND_CALL"
  shows "sms_service_inv (sms_send_ready e k op ok error (sms_emit (Sms_Answered k SEND_CALL ok) s))"
proof -
  let ?s = "sms_emit (Sms_Answered k SEND_CALL ok) s" and ?op = "sms_answered op"
  have m: "so_modem ?op = so_modem op" by simp
  note a = sms_answer_inside(1) [OF inv op pend m, of ok]
  obtain h where h: "sms_history k (sms_trace ?s) = Sms_Answered k SEND_CALL ok # h"
    using sms_answer_inside(2) [OF inv op pend refl, of ok] by blast
  have refresh: "sms_inside k ?op (sms_with_modem r (\<lambda>m. fst (l850gl_modem_refresh_sms m)) ?s)" for r
    using a quiet_refresh by (intro sms_inside_quiet)
  have "sms_error_time (sms_history k (sms_trace ?s))" if "\<not> ok" using h that by (simp add: sms_error_time_def)
  then show ?thesis
    using sms_inside_normalized [OF a] sms_inside_send [OF a, where h = h] sms_inside_send [OF refresh, where h = h] h
    by (auto simp: sms_send_ready_def Let_def)
qed

lemma sms_delete_ready_inv:
  assumes inv: "sms_service_inv s" and op: "map_of (sms_operations s) k = Some op"
    and pend: "so_pending op = Some DELETE_CALL"
  shows "sms_service_inv (sms_delete_ready e k op ok error (sms_emit (Sms_Answered k DELETE_CALL ok) s))"
proof -
  let ?s = "sms_emit (Sms_Answered k DELETE_CALL ok) s" and ?op = "sms_answered op"
  have m: "so_modem ?op = so_modem op" by simp
  note a = sms_answer_inside(1) [OF inv op pend m, of ok]
  obtain h where h: "sms_history k (sms_trace ?s) = Sms_Answered k DELETE_CALL ok # h"
    using sms_answer_inside(2) [OF inv op pend refl, of ok] by blast
  have refresh: "sms_inside k ?op (sms_with_modem r (\<lambda>m. fst (l850gl_modem_refresh_sms m)) ?s)" for r
    using a quiet_refresh by (intro sms_inside_quiet)
  have "sms_error_time (sms_history k (sms_trace ?s))" if "\<not> ok" using h that by (simp add: sms_error_time_def)
  then show ?thesis
    using sms_inside_normalized [OF a] sms_inside_delete [OF a, where h = h] sms_inside_delete [OF refresh, where h = h] h
    by (auto simp: sms_delete_ready_def Let_def)
qed

lemma sms_dispatch_inv:
  assumes ins: "sms_inside k op s" and "so_type op = SMS_OPERATION_SEND"
    and h: "sms_history k (sms_trace s) = Sms_Answered k CREATE_CALL True # Sms_Called k' call (so_modem op) args # h"
  shows "sms_service_inv (sms_dispatch_send e k op s)"
proof -
  have "sms_error_time (sms_history k (sms_trace s))" using h by (simp add: sms_error_time_def)
  moreover have "sms_service_inv (sms_call_async k
      (sms_operation_arm_timeout (op\<lparr>so_send_dispatched := True\<rparr>)) SEND_CALL None s)"
    using assms(2) h by (intro sms_inside_call [OF ins]) (simp_all add: sms_operation_arm_timeout_def)
  ultimately show ?thesis
    using sms_inside_code [OF ins] by (auto simp: sms_dispatch_send_def Let_def split: option.split)
qed

lemma sms_admit_created_inv:
  assumes ins: "sms_inside k op s" and type: "so_type op = SMS_OPERATION_SEND"
    and h: "sms_history k (sms_trace s) = Sms_Answered k CREATE_CALL True # Sms_Called k' call (so_modem op) args # h"
  shows "sms_service_inv (sms_admit_created e k op sms s)"
proof -
  let ?r = "so_modem op"
  obtain entry m rnd where run: "l850gl_modem_admit_reserved_sms (env_object_path e) (env_random e)
      (sms_modem_at s ?r) sms (so_sms_id op) = (entry, m, rnd)" by (metis prod_cases3)
  then have ins': "sms_inside k op (sms_with_modem ?r (\<lambda>_. m) s)"
    using quiet_admit by (blast intro: sms_inside_quiet [OF ins])
  have err: "sms_error_time (sms_history k (sms_trace s))" using h by (simp add: sms_error_time_def)
  show ?thesis
  proof (cases entry)
    case None
    with run err sms_inside_code [OF ins'] show ?thesis by (simp add: sms_admit_created_def)
  next
    case (Some en)
    let ?op = "op\<lparr>so_entry := Some en\<rparr>"
    have "sms_inside k ?op (sms_with_modem ?r (\<lambda>_. m) s)"
      using ins' sms_inside_cong [of ?op op] by simp
    then have "sms_service_inv (sms_dispatch_send e k ?op (sms_with_modem ?r (\<lambda>_. m) s))"
      using h type by (intro sms_dispatch_inv) simp_all
    with run Some show ?thesis by (simp add: sms_admit_created_def)
  qed
qed

lemma sms_create_ready_inv:
  assumes inv: "sms_service_inv s" and op: "map_of (sms_operations s) k = Some op"
    and pend: "so_pending op = Some CREATE_CALL"
  shows "sms_service_inv (sms_create_ready e k op result error
    (sms_emit (Sms_Answered k CREATE_CALL (result \<noteq> None)) s))"
proof -
  let ?s = "sms_emit (Sms_Answered k CREATE_CALL (result \<noteq> None)) s"
  obtain k' args h where h: "sms_history k (sms_trace ?s) =
      Sms_Answered k CREATE_CALL (result \<noteq> None) # Sms_Called k' CREATE_CALL (so_modem op) args # h"
    using sms_answer_inside(2) [OF inv op pend refl] by blast
  have a: "sms_inside k op' ?s" if "so_modem op' = so_modem op" for op'
    using sms_answer_inside(1) [OF inv op pend that] .
  have err: "sms_error_time (sms_history k (sms_trace ?s))" using h by (simp add: sms_error_time_def)
  have type: "so_type op = SMS_OPERATION_SEND"
    using sms_inv_op(2) [OF inv op] pend by (cases "so_type op") (simp_all add: sms_waits_def)
  let ?op = "(sms_answered op)\<lparr>so_properties := None\<rparr>"
  show ?thesis
  proof (cases result)
    case None
    have "sms_service_inv (sms_operation_complete_normalized_error e k ?op error ?s)"
      using err by (intro sms_inside_normalized a) simp_all
    with None show ?thesis by (simp add: sms_create_ready_def Let_def)
  next
    case (Some sms)
    let ?op1 = "?op\<lparr>so_sms := Some sms\<rparr>"
    have "sms_service_inv (sms_complete_code e k ?op1 c ?s)" for c
      using err by (intro sms_inside_code a) simp_all
    moreover have "sms_service_inv (sms_admit_created e k ?op1 sms ?s)"
      using h type Some by (intro sms_admit_created_inv a) simp_all
    ultimately show ?thesis
      using Some by (simp add: sms_create_ready_def Let_def split: option.split)
  qed
qed

lemma sms_waits_cong:
  assumes "so_pending op' = so_pending op" "so_modem op' = so_modem op" "so_type op' = so_type op"
    "so_send_dispatched op' = so_send_dispatched op"
  shows "sms_waits k op' h = sms_waits k op h"
  unfolding sms_waits_def assms ..

lemma sms_timeout_inv:
  assumes inv: "sms_service_inv s" and op: "map_of (sms_operations s) k = Some op"
  shows "sms_service_inv (sms_operation_timeout k op s)"
proof -
  let ?op = "op\<lparr>so_timeout_source := False, so_timed_out := True, so_cancelled := True\<rparr>"
  have "sms_waits k ?op h = sms_waits k op h" for h by (rule sms_waits_cong) simp_all
  then show ?thesis
    using sms_inv_op [OF assms] unfolding sms_operation_timeout_def
    by (intro sms_inside_put [of k op]) (simp_all add: sms_op_ok_def)
qed

lemma sms_cancel_inv:
  assumes inv: "sms_service_inv s"
  shows "sms_service_inv (cancel_sms_operations lost s)" (is "sms_service_inv ?s")
proof -
  let ?f = "\<lambda>op. op\<lparr>so_deferred := False, so_transport_lost := lost, so_cancelled := True\<rparr>"
  have ops: "sms_operations ?s = map (\<lambda>(k, op). (k, ?f op)) (sms_operations s)"
    by (simp add: cancel_sms_operations_def)
  have rest: "service ?s = service s" "sms_trace ?s = sms_trace s" "cancellable_owner ?s = cancellable_owner s"
    "next_sms_operation ?s = next_sms_operation s" by (simp_all add: cancel_sms_operations_def)
  have held: "sms_held ?s = sms_held s" by (simp add: sms_held_def ops comp_def case_prod_beta)
  have "sms_frame ?s"
    using inv unfolding sms_service_inv_def sms_frame_def rest held ops
    by (auto simp: comp_def case_prod_beta image_image)
  moreover have "sms_op_ok ?s k (?f op)" if "sms_op_ok s k op" for k op
  proof -
    have "sms_waits k (?f op) h = sms_waits k op h" for h by (rule sms_waits_cong) simp_all
    with that show ?thesis by (simp add: sms_op_ok_def rest)
  qed
  ultimately show ?thesis using inv by (auto simp: sms_service_inv_def ops)
qed

section \<open>Requests\<close>

lemma sms_direct_inv:
  assumes "sms_service_inv s"
  shows "sms_service_inv (sms_emit (Sms_Direct rep) s)"
  using assms by (auto simp: sms_service_inv_def sms_frame_def sms_held_def sms_op_ok_def)

lemma sms_refusal_inv:
  assumes "sms_service_inv s"
  shows "sms_service_inv (send_error err message retry s)"
    and "sms_service_inv (send_sms_mutation_lookup_error err s)"
    and "sms_service_inv (send_cached_sms_result r cached s)"
  using sms_direct_inv [OF assms]
  by (simp_all add: send_error_def send_sms_mutation_lookup_error_def send_cached_sms_result_def)

lemma sms_inv_quiet:
  assumes "sms_service_inv s" and "sms_quiet (sms_modem_at s r) (f (sms_modem_at s r))"
  shows "sms_service_inv (sms_with_modem r f s)"
  using assms sms_frame_quiet by (auto simp: sms_service_inv_def sms_op_ok_def)

lemma kept_sms_claim: "kept m (sms_claim_modem m)"
  by (rule kept_mutation_fields) (simp_all add: same_tables_def sms_claim_modem_def)

text \<open>A modem that is not busy is free for every component.\<close>

lemma sms_free_modem:
  assumes "sms_service_inv s" and "r < length (modems (ubus_bridge (service s)))"
    and "\<not> mutation_busy (sms_modem_at s r)"
  shows "mutation_kind (sms_modem_at s r) \<noteq> MUTATION_L850" and "r \<notin> set (sms_held s)"
proof -
  show "mutation_kind (sms_modem_at s r) \<noteq> MUTATION_L850"
    using assms by (auto simp: sms_service_inv_def sms_frame_def mutation_inv_def frame_inv_def locks_def)
  show "r \<notin> set (sms_held s)" using assms by (auto simp: sms_service_inv_def sms_frame_def)
qed

lemma sms_new_inside:
  assumes inv: "sms_service_inv s" and r: "r < length (modems (ubus_bridge (service s)))"
    and busy: "\<not> mutation_busy (sms_modem_at s r)"
    and new: "sms_operation_new r t token s = (k, op, s')"
  shows "sms_inside k op s'" and "sms_history k (sms_trace s') = [Sms_Started k r t token]"
    and "so_modem op = r" and "so_type op = t" and "\<not> so_send_dispatched op"
proof -
  have k: "k = next_sms_operation s"
    and op: "so_modem op = r" "so_type op = t" "\<not> so_send_dispatched op"
    and s': "s' = sms_with_modem r sms_claim_modem (sms_put k op (sms_emit (Sms_Started k r t token)
      (s\<lparr>next_sms_operation := Suc k, cancellable_owner := AList.update r k (cancellable_owner s)\<rparr>)))"
    using new by (auto simp: sms_operation_new_def Let_def sms_operation_arm_timeout_def)
  show "so_modem op = r" "so_type op = t" "\<not> so_send_dispatched op" by (rule op)+
  note free = sms_free_modem [OF inv r busy]
  have frame: "sms_frame s" using inv by (simp add: sms_service_inv_def)
  then have fresh: "sms_history k (sms_trace s) = []" "k \<notin> fst ` set (sms_operations s)"
    by (simp_all add: sms_frame_def k)
  show hist: "sms_history k (sms_trace s') = [Sms_Started k r t token]" using fresh(1) by (simp add: s')
  have ops: "sms_operations s' = sms_operations s @ [(k, op)]"
    by (simp add: s' update_new_key [OF fresh(2)])
  have held: "sms_held s' = sms_held s @ [r]" by (simp add: sms_held_def ops op)
  have "modem_rely (sms_modem_at s r) (sms_claim_modem (sms_modem_at s r))"
    using free(1) by (simp add: modem_rely_def sms_claim_modem_def)
  then have minv: "mutation_inv (service s')"
    using frame kept_sms_claim sms_change_inv [of s r sms_claim_modem] by (simp add: sms_frame_def s')
  have owner: "map_of (cancellable_owner s') (so_modem op') = Some k'"
    if "(k', op') \<in> set (sms_operations s')" for k' op'
  proof (cases "(k', op') = (k, op)")
    case False
    with that have mem: "(k', op') \<in> set (sms_operations s)" by (auto simp: ops)
    then have "so_modem op' \<noteq> r" using free(2) by (force simp: sms_held_def)
    moreover have "map_of (cancellable_owner s) (so_modem op') = Some k'"
      using mem frame unfolding sms_frame_def by fastforce
    ultimately show ?thesis by (simp add: s' update_conv')
  qed (simp add: s' update_conv' op)
  have rows: "(mutation_kind (sms_modem_at s' q) = MUTATION_SMS \<longleftrightarrow> q \<in> set (sms_held s')) \<and>
      (q \<in> set (sms_held s') \<longrightarrow> mutation_busy (sms_modem_at s' q)) \<and>
      dedupe_inv (dedupe_queue (sms_modem_at s' q))"
    if "q < length (modems (ubus_bridge (service s')))" for q
  proof -
    have q: "q < length (modems (ubus_bridge (service s)))" using that by (simp add: s')
    have "sms_modem_at s' q = (if q = r then sms_claim_modem (sms_modem_at s q) else sms_modem_at s q)"
      using q by (simp add: s' on_modem_nth)
    with q frame show ?thesis by (auto simp: sms_frame_def held sms_claim_modem_def)
  qed
  have bound: "\<forall>q \<in> set (sms_held s'). q < length (modems (ubus_bridge (service s')))"
  proof -
    have "length (modems (ubus_bridge (service s'))) = length (modems (ubus_bridge (service s)))" by (simp add: s')
    with frame r show ?thesis by (simp add: sms_frame_def held)
  qed
  have keys: "distinct (map fst (sms_operations s'))" "distinct (sms_held s')"
    using frame fresh(2) free(2) by (simp_all add: ops held sms_frame_def)
  have ids: "\<forall>j. sms_protocol (sms_history j (sms_trace s'))"
    "\<forall>j \<ge> next_sms_operation s'. sms_history j (sms_trace s') = [] \<and> j \<notin> fst ` set (sms_operations s')"
    using frame fresh unfolding sms_frame_def ops by (auto simp: s' k)
  have "sms_frame s'" unfolding sms_frame_def using minv owner rows bound keys ids by blast
  moreover have "sms_op_ok s' k' op'" if "(k', op') \<in> set (sms_operations s)" for k' op'
  proof -
    have "k' \<noteq> k" using that fresh(2) by force
    moreover have "sms_op_ok s k' op'" using that inv by (auto simp: sms_service_inv_def)
    ultimately show ?thesis by (simp add: sms_op_ok_def s')
  qed
  ultimately show "sms_inside k op s'"
    using fresh(2) by (auto simp: sms_inside_def ops map_of_eq_None_iff map_add_Some_iff)
qed

lemma sms_start_error:
  "sms_history k t = [Sms_Started k r ty token] \<Longrightarrow> sms_error_time (sms_history k t)"
  by (simp add: sms_error_time_def)

lemma sms_send_start_inv:
  assumes inv: "sms_service_inv s" and r: "r < length (modems (ubus_bridge (service s)))"
    and busy: "\<not> mutation_busy (sms_modem_at s r)"
  shows "sms_service_inv (sms_send_start e r req digest sms_id s)"
proof -
  obtain k op0 s1 where new: "sms_operation_new r SMS_OPERATION_SEND (Some (snd_client_token req)) s = (k, op0, s1)"
    by (metis prod_cases3)
  note n = sms_new_inside [OF inv r busy new]
  let ?op = "op0\<lparr>so_properties := Some (snd_recipient req, snd_text req),
    so_client_token := Some (snd_client_token req), so_sms_id := Some sms_id,
    so_request_digest := digest, so_has_request_digest := True\<rparr>"
  let ?s = "sms_with_modem r (remember (env_now e) (Some (snd_client_token req))
    \<lparr>out_digest = Some digest, out_ok = False, out_sms_id = Some sms_id, out_state = None,
     out_error_code = Some ''busy'', out_retryable = True\<rparr>) s1"
  have ins: "sms_inside k ?op ?s"
    using sms_inside_memory(1) [OF n(1)] sms_inside_cong [of ?op op0] by simp
  have h: "sms_history k (sms_trace ?s) = [Sms_Started k r SMS_OPERATION_SEND (Some (snd_client_token req))]"
    using n(2) by simp
  have "sms_service_inv (sms_complete_code e k ?op ''unsupported'' ?s)"
    using sms_start_error [OF h] by (rule sms_inside_code [OF ins])
  moreover have "sms_service_inv (sms_call_async k ?op CREATE_CALL (so_properties ?op) ?s)"
    using n(3-5) h by (intro sms_inside_call [OF ins]) simp_all
  ultimately show ?thesis by (simp add: sms_send_start_def new Let_def)
qed

lemma sms_send_on_inv:
  assumes inv: "sms_service_inv s" and r: "r < length (modems (ubus_bridge (service s)))"
  shows "sms_service_inv (sms_send_on e r req digest s)"
proof -
  obtain cached queue where find: "sms_dedupe_find (env_now e) (dedupe_queue (sms_modem_at s r))
      (snd_client_token req) = (cached, queue)" by fastforce
  let ?s = "sms_with_modem r (\<lambda>m. m\<lparr>dedupe_queue := queue\<rparr>) s"
  have q: "queue = snd (sms_dedupe_find (env_now e) (dedupe_queue (sms_modem_at s r)) (snd_client_token req))"
    by (simp add: find)
  have inv1: "sms_service_inv ?s" unfolding q by (intro sms_inv_quiet [OF inv] quiet_find)
  obtain i m rnd where res: "l850gl_modem_reserve_sms_id (env_random e) (sms_modem_at ?s r) = (i, m, rnd)"
    by (metis prod_cases3)
  have inv2: "sms_service_inv (sms_with_modem r (\<lambda>_. m) ?s)"
    using quiet_reserve [OF res] by (intro sms_inv_quiet [OF inv1])
  have busy: "mutation_busy (sms_modem_at (sms_with_modem r (\<lambda>_. m) ?s) r) = mutation_busy (sms_modem_at ?s r)"
    using quiet_reserve [OF res] r by (simp add: sms_quiet_def on_modem_nth)
  have start: "sms_service_inv (sms_send_start e r req digest j (sms_with_modem r (\<lambda>_. m) ?s))"
    if "\<not> mutation_busy (sms_modem_at ?s r)" for j
    using that busy r by (intro sms_send_start_inv [OF inv2]) simp_all
  have "sms_service_inv (case (i, m, rnd) of
      (None, m, rnd) \<Rightarrow> send_sms_mutation_lookup_error ''internal_error'' (sms_with_modem r (\<lambda>_. m) ?s)
    | (Some sms_id, m, rnd) \<Rightarrow> sms_send_start e r req digest sms_id (sms_with_modem r (\<lambda>_. m) ?s))"
    if "\<not> mutation_busy (sms_modem_at ?s r)"
    using that start sms_refusal_inv(2) [OF inv2] by (cases i) simp_all
  then show ?thesis
    using sms_refusal_inv [OF inv1] unfolding sms_send_on_def find Let_def res prod.case
    by (auto split: option.split)
qed

lemma sms_mutation_modem_bound:
  assumes "sms_service_inv s" and "sms_mutation_modem e s i gen mgen = Inr r"
  shows "r < length (modems (ubus_bridge (service s)))"
proof -
  have "registry_inv (ubus_bridge (service s))"
    using assms(1) by (simp add: sms_service_inv_def sms_frame_def mutation_inv_def frame_inv_def)
  moreover have "l850gl_bridge_find_modem (ubus_bridge (service s)) (Some i) = Some r"
    using assms(2) by (auto simp: sms_mutation_modem_def Let_def split: option.splits if_splits)
  ultimately show ?thesis by (rule find_bound)
qed

lemma method_send_sms_inv:
  assumes inv: "sms_service_inv s"
  shows "sms_service_inv (method_send_sms e message s)"
  using sms_refusal_inv [OF inv] sms_send_on_inv [OF inv sms_mutation_modem_bound [OF inv]]
  unfolding method_send_sms_def
  by (auto split: option.split prod.split bool.split sum.split)

lemma sms_delete_start_inv:
  assumes inv: "sms_service_inv s" and r: "r < length (modems (ubus_bridge (service s)))"
    and busy: "\<not> mutation_busy (sms_modem_at s r)"
  shows "sms_service_inv (sms_delete_start e r req entry s)"
proof -
  obtain k op0 s1 where new: "sms_operation_new r SMS_OPERATION_DELETE None s = (k, op0, s1)"
    by (metis prod_cases3)
  note n = sms_new_inside [OF inv r busy new]
  let ?op = "op0\<lparr>so_entry := Some entry, so_sms_id := Some (del_sms_id req)\<rparr>"
  have ins: "sms_inside k ?op s1" using n(1) sms_inside_cong [of ?op op0] by simp
  have "sms_service_inv (sms_complete_code e k ?op ''unsupported'' s1)"
    using sms_start_error [OF n(2)] by (rule sms_inside_code [OF ins])
  moreover have "sms_service_inv (sms_call_async k ?op DELETE_CALL args s1)" for args
    using n(2-5) by (intro sms_inside_call [OF ins]) simp_all
  ultimately show ?thesis
    using sms_refusal_inv [OF inv] by (auto simp: sms_delete_start_def new Let_def split: option.split)
qed

lemma method_delete_sms_inv:
  assumes inv: "sms_service_inv s"
  shows "sms_service_inv (method_delete_sms e message s)"
proof -
  have refresh: "sms_service_inv (sms_with_modem r (\<lambda>m. fst (l850gl_modem_refresh_sms m)) s)" for r
    by (intro sms_inv_quiet [OF inv] quiet_refresh)
  show ?thesis
    using sms_refusal_inv [OF inv] sms_refusal_inv [OF refresh] sms_delete_start_inv [OF inv]
      sms_mutation_modem_bound [OF inv]
    unfolding method_delete_sms_def Let_def
    by (auto split: option.split sum.split)
qed

end
