(* ===== verification/Sms_Contract.thy ===== *)
theory Sms_Contract
  imports Sms_Handlers Coordinator_Contract
begin

text \<open>
  What the message operations rely on of the modems they hold, that the bridge and the cell lock
  coordinator keep it (an interpretation of their contract), and that their invariant survives
  every such change.
\<close>

section \<open>What the message operations rely on\<close>

definition sms_rely :: "modem \<Rightarrow> modem \<Rightarrow> bool" where
  "sms_rely m m' \<longleftrightarrow> (mutation_kind m' = MUTATION_SMS \<longleftrightarrow> mutation_kind m = MUTATION_SMS) \<and>
     (mutation_kind m = MUTATION_SMS \<longrightarrow> mutation_busy m' = mutation_busy m) \<and>
     (dedupe_inv (dedupe_queue m) \<longrightarrow> dedupe_inv (dedupe_queue m'))"

definition sms_fresh :: "modem \<Rightarrow> bool" where
  "sms_fresh m \<longleftrightarrow> mutation_kind m \<noteq> MUTATION_SMS \<and> dedupe_inv (dedupe_queue m)"

lemma dedupe_inv_Nil [simp]: "dedupe_inv []"
  by (simp add: dedupe_inv_def)

lemma sms_rely_ops [simp]:
  "sms_rely m m" "sms_rely m (modem_mark_removed m)" "sms_rely m (fst (query_sim m))"
  "sms_rely m (fst (query_bearers m))" "sms_rely m (fst (query_sms m))"
  "sms_rely m (fst (reconcile_messaging current force_epoch m))"
  subgoal by (simp add: sms_rely_def)
  subgoal by (simp add: sms_rely_def modem_mark_removed_def clear_sms_cache_def disconnect_messaging_signals_def)
  subgoal by (simp add: sms_rely_def query_sim_def)
  subgoal by (simp add: sms_rely_def query_bearers_def)
  subgoal by (simp add: sms_rely_def query_sms_def split: option.splits)
  subgoal by (auto simp: sms_rely_def reconcile_messaging_def Let_def query_sms_def sms_revision_bump_def
        clear_sms_cache_def disconnect_messaging_signals_def split: option.splits)
  done

lemma sms_rely_coordinator:
  "locked_for MUTATION_SMS m \<Longrightarrow> \<not> mutation_busy m \<Longrightarrow> sms_rely m (claim_modem m)"
  "sms_rely m (l850_mutation_release_modem now cooldown m)"
  "serving_cell_cache_store m a b c d p x q now reason = (ok, m') \<Longrightarrow> sms_rely m m'"
  by (auto simp: sms_rely_def locked_for_def claim_modem_def l850_mutation_release_modem_def
      l850_mutation_apply_cooldown_def serving_cell_cache_store_def Let_def split: if_splits option.splits)

interpretation sms: coordinator_client sms_rely sms_fresh "locked_for MUTATION_SMS"
  by unfold_locales (simp_all add: sms_rely_coordinator, auto simp: sms_rely_def sms_fresh_def modem_new_def)

abbreviation sms_change :: "ubus \<Rightarrow> ubus \<Rightarrow> bool" where
  "sms_change u u' \<equiv> registry_change sms_rely sms_fresh (ubus_bridge u) (ubus_bridge u')"

lemma sms_environment_inv:
  assumes inv: "sms_service_inv s" and u: "mutation_inv u" and c: "sms_change (service s) u"
  shows "sms_service_inv (s\<lparr>service := u\<rparr>)"
proof -
  let ?b = "ubus_bridge (service s)" and ?b' = "ubus_bridge u"
  have frame: "sms_frame s" using inv by (simp add: sms_service_inv_def)
  have held: "sms_held (s\<lparr>service := u\<rparr>) = sms_held s" by (simp add: sms_held_def)
  have rows: "(mutation_kind (modems ?b' ! r) = MUTATION_SMS \<longleftrightarrow> r \<in> set (sms_held s)) \<and>
      (r \<in> set (sms_held s) \<longrightarrow> mutation_busy (modems ?b' ! r)) \<and> dedupe_inv (dedupe_queue (modems ?b' ! r))"
    if "r < length (modems ?b')" for r
  proof (cases "r < length (modems ?b)")
    case True
    with c have "sms_rely (modems ?b ! r) (modems ?b' ! r)" by (simp add: registry_change_def)
    with True frame show ?thesis by (auto simp: sms_frame_def sms_rely_def)
  next
    case False
    with c that have "sms_fresh (modems ?b' ! r)" by (simp add: registry_change_def)
    with False frame show ?thesis by (auto simp: sms_frame_def sms_fresh_def)
  qed
  have "\<forall>r \<in> set (sms_held s). r < length (modems ?b')"
    using frame c by (auto simp: sms_frame_def registry_change_def)
  with rows frame u have "sms_frame (s\<lparr>service := u\<rparr>)" unfolding sms_frame_def held by simp
  with inv show ?thesis by (auto simp: sms_service_inv_def sms_op_ok_def)
qed

end
