(* ===== verification/Service.thy ===== *)
theory Service
  imports Sms_Contract
begin

text \<open>
  The service as a whole: message operations, the cell lock coordinator and the bridge under every
  order of requests, answers, timers, cancellations and signals, as executable scripts whose every
  state has the invariants of all components; what the protocol says of replies and calls; and how
  the memory of outcomes and the requests work together.
\<close>

section \<open>Scripts\<close>

text \<open>
  Everything that can happen to the service: a message request, the answer to a call, a timer, a
  cancellation, or an input of the coordinator and the bridge. An answer nobody waits for and a
  timer that is not armed change nothing.
\<close>

datatype sms_input =
    Coordinator input
  | Send_Request sms_env "send_request option"
  | Delete_Request sms_env "delete_request option"
  | Sms_Answer sms_env nat "mm_sms option" bool "gerror option"
  | Sms_Timeout nat
  | Sms_Cancel bool

definition sms_deliver ::
    "sms_env \<Rightarrow> nat \<Rightarrow> mm_sms option \<Rightarrow> bool \<Rightarrow> gerror option \<Rightarrow> sms_service \<Rightarrow> sms_service" where
  "sms_deliver e k result ok error s =
     (case map_of (sms_operations s) k of
        None \<Rightarrow> s
      | Some op \<Rightarrow>
          (case so_pending op of
             None \<Rightarrow> s
           | Some CREATE_CALL \<Rightarrow>
               sms_create_ready e k op result error (sms_emit (Sms_Answered k CREATE_CALL (result \<noteq> None)) s)
           | Some SEND_CALL \<Rightarrow> sms_send_ready e k op ok error (sms_emit (Sms_Answered k SEND_CALL ok) s)
           | Some DELETE_CALL \<Rightarrow>
               sms_delete_ready e k op ok error (sms_emit (Sms_Answered k DELETE_CALL ok) s)))"

definition sms_fire_timeout :: "nat \<Rightarrow> sms_service \<Rightarrow> sms_service" where
  "sms_fire_timeout k s =
     (case map_of (sms_operations s) k of
        None \<Rightarrow> s | Some op \<Rightarrow> if so_timeout_source op then sms_operation_timeout k op s else s)"

definition sms_exec :: "sms_input \<Rightarrow> sms_service \<Rightarrow> sms_service" where
  "sms_exec i s =
     (case i of
        Coordinator j \<Rightarrow> s\<lparr>service := exec j (service s)\<rparr>
      | Send_Request e message \<Rightarrow> method_send_sms e message s
      | Delete_Request e message \<Rightarrow> method_delete_sms e message s
      | Sms_Answer e k result ok error \<Rightarrow> sms_deliver e k result ok error s
      | Sms_Timeout k \<Rightarrow> sms_fire_timeout k s
      | Sms_Cancel lost \<Rightarrow> cancel_sms_operations lost s)"

definition sms_init :: sms_service where
  "sms_init = \<lparr>service = mutation_init l850gl_bridge_new, sms_operations = [], cancellable_owner = [],
     next_sms_operation = 0, sms_trace = []\<rparr>"

definition service_after :: "sms_input list \<Rightarrow> sms_service" where
  "service_after script = fold sms_exec script sms_init"

lemma mutation_inv_exec: "mutation_inv u \<Longrightarrow> mutation_inv (exec i u)"
proof -
  assume inv: "mutation_inv u"
  have "mutation_inv u'" if "mutation_step\<^sup>*\<^sup>* u u'" for u'
    using that inv by (induction rule: rtranclp_induct) (auto intro: mutation_step_inv)
  with exec_step [OF inv] show ?thesis by blast
qed

lemma sms_inv_locked: "sms_service_inv s \<Longrightarrow> everywhere (locked_for MUTATION_SMS) (ubus_bridge (service s))"
  by (auto simp: sms_service_inv_def sms_frame_def everywhere_def locked_for_def)

lemma sms_exec_inv:
  assumes inv: "sms_service_inv s"
  shows "sms_service_inv (sms_exec i s)"
proof (cases i)
  case (Coordinator j)
  have "mutation_inv (service s)" using inv by (simp add: sms_service_inv_def sms_frame_def)
  then show ?thesis
    using Coordinator sms_environment_inv [OF inv mutation_inv_exec] sms.change_exec [OF sms_inv_locked [OF inv]]
    by (simp add: sms_exec_def)
next
  case (Sms_Answer e k result ok error)
  then show ?thesis
    using inv sms_create_ready_inv [OF inv] sms_send_ready_inv [OF inv] sms_delete_ready_inv [OF inv]
    by (simp add: sms_exec_def sms_deliver_def split: option.split sms_call.split)
qed (use inv in \<open>auto simp: sms_exec_def sms_fire_timeout_def method_send_sms_inv method_delete_sms_inv
    sms_timeout_inv sms_cancel_inv split: option.split\<close>)

lemma sms_init_inv: "sms_service_inv sms_init"
  using mutation_init_inv [OF startable_new]
  by (simp add: sms_service_inv_def sms_frame_def sms_init_def sms_held_def sms_history_def mutation_init_def
      l850gl_bridge_new_def)

lemma service_after_inv: "sms_service_inv (service_after script)"
proof -
  have "sms_service_inv s \<Longrightarrow> sms_service_inv (fold sms_exec script s)" for s
    by (induction script arbitrary: s) (simp_all add: sms_exec_inv)
  with sms_init_inv show ?thesis by (simp add: service_after_def)
qed

lemma service_after_snoc: "service_after (script @ [i]) = sms_exec i (service_after script)"
  by (simp add: service_after_def)

section \<open>What the protocol says\<close>

fun sms_calls :: "sms_event list \<Rightarrow> sms_call list" where
  "sms_calls [] = []"
| "sms_calls (Sms_Called k call r args # h) = call # sms_calls h"
| "sms_calls (ev # h) = sms_calls h"

text \<open>The calls made so far, from what happened last.\<close>

fun sms_calls_by :: "sms_event list \<Rightarrow> sms_call list \<Rightarrow> bool" where
  "sms_calls_by (Sms_Started k r t token # h) calls = (calls = [])"
| "sms_calls_by (Sms_Called k call r args # h) calls =
     (calls = (if call = SEND_CALL then [SEND_CALL, CREATE_CALL] else [call]))"
| "sms_calls_by (Sms_Answered k call ok # h) calls =
     (calls = (if call = SEND_CALL then [SEND_CALL, CREATE_CALL] else [call]))"
| "sms_calls_by (ev # h) calls = (calls \<in> {[], [CREATE_CALL], [DELETE_CALL], [SEND_CALL, CREATE_CALL]})"
| "sms_calls_by [] calls = (calls = [])"

lemma sms_protocol_calls: "sms_protocol h \<Longrightarrow> sms_calls_by h (sms_calls h)"
proof (induction h)
  case (Cons ev h)
  then have IH: "sms_calls_by h (sms_calls h)" and ok: "sms_allowed ev h" by simp_all
  show ?case
  proof (cases ev)
    case (Sms_Called k call r args)
    with IH ok show ?thesis
      by (cases call; cases h; cases "hd h"; cases "tl h"; cases "hd (tl h)") auto
  next
    case (Sms_Answered k call ok)
    with IH ok show ?thesis by (cases h; cases "hd h") auto
  next
    case (Sms_Replied k rep)
    with IH ok show ?thesis by (cases h; cases "hd h"; cases rep) (auto split: if_splits, (metis sms_call.exhaust)+)
  next
    case (Sms_Direct rep)
    with IH ok show ?thesis
      by (cases h; cases "hd h") (auto split: if_splits, (metis sms_call.exhaust)+)
  qed (use IH ok in auto)
qed simp

fun sms_replied :: "sms_event \<Rightarrow> bool" where
  "sms_replied (Sms_Replied k rep) = True"
| "sms_replied ev = False"

lemma sms_protocol_reply:
  "sms_protocol h \<Longrightarrow> list_all (\<lambda>ev. sms_event_op ev \<noteq> None) h \<Longrightarrow> list_all (\<lambda>ev. \<not> sms_replied ev) (tl h)"
proof (induction h)
  case (Cons ev h)
  then have ok: "sms_allowed ev h" and IH: "list_all (\<lambda>ev. \<not> sms_replied ev) (tl h)"
    by (simp_all add: list.pred_set)
  have "\<not> sms_replied (hd h)" if "h \<noteq> []"
    using ok that Cons.prems(2)
    by (cases h; cases "hd h"; cases ev; cases "case ev of Sms_Called k c r a \<Rightarrow> c | _ \<Rightarrow> SEND_CALL")
      (auto elim: sms_reply_truth.elims)
  with IH show ?case by (cases h) simp_all
qed simp

lemma sms_history_owned: "ev \<in> set (sms_history k t) \<Longrightarrow> sms_event_op ev = Some k"
  by (simp add: sms_history_def)

lemma sms_protocol_split: "sms_protocol (later @ ev # h) \<Longrightarrow> sms_allowed ev h \<and> sms_protocol h"
  by (induction later) auto

lemma sms_history_at:
  assumes "sms_trace (service_after script) = later @ ev # earlier" and "sms_event_op ev = Some k"
  shows "sms_allowed ev (sms_history k earlier)" and "sms_protocol (sms_history k earlier)"
proof -
  have "sms_protocol (sms_history k (sms_trace (service_after script)))"
    using service_after_inv by (simp add: sms_service_inv_def sms_frame_def)
  then have "sms_protocol (sms_history k later @ ev # sms_history k earlier)"
    using assms by (simp add: sms_history_def)
  then show "sms_allowed ev (sms_history k earlier)" "sms_protocol (sms_history k earlier)"
    using sms_protocol_split by blast+
qed

section \<open>The memory of outcomes\<close>

text \<open>What a modem shows of its memory and its messaging epoch.\<close>

definition memory_of :: "modem \<Rightarrow> sms_dedupe list \<times> u32" where
  "memory_of m = (dedupe_queue m, messaging_generation m)"

lemma memory_of_steps [simp]:
  "memory_of (fst (l850gl_modem_refresh_sms m)) = memory_of m"
  "memory_of (l850gl_modem_release_sms_id m i) = memory_of m" "memory_of (sms_unlock_modem m) = memory_of m"
  by (auto simp: memory_of_def l850gl_modem_refresh_sms_def query_sms_def l850gl_modem_release_sms_id_def
      sms_unlock_modem_def split: option.split)

lemma memory_of_free:
  assumes "r < length (modems (ubus_bridge (service s)))"
  shows "memory_of (sms_modem_at (sms_operation_free k op s) r) = memory_of (sms_modem_at s r)"
  using assms by (auto simp: sms_operation_free_def Let_def on_modem_nth)

lemma memory_of_buffer:
  assumes "r < length (modems (ubus_bridge (service s)))"
  shows "memory_of (sms_modem_at (sms_operation_complete_buffer k op rep s) r) = memory_of (sms_modem_at s r)"
  using assms memory_of_free [of r "sms_emit (Sms_Replied k rep) s"]
  by (simp add: sms_operation_complete_buffer_def memory_of_free)

lemma free_operations [simp]:
  "sms_operations (sms_operation_free k op s) = AList.delete k (sms_operations s)"
  "sms_operations (sms_operation_complete_buffer k op rep s) = AList.delete k (sms_operations s)"
  by (simp_all add: sms_operation_complete_buffer_def sms_operation_free_def Let_def)

lemma memory_of_remember:
  assumes "dedupe_inv (dedupe_queue m)"
  shows "\<exists>q x. memory_of (remember now (Some t) out m) = (q, messaging_generation m) \<and> dedupe_inv q \<and>
    dedupe_holds q t x \<and> stored_entry out now t x"
  using store_holds [OF assms, of now now now t out] by (auto simp: memory_of_def remember_def)

text \<open>A request whose token is remembered is answered from memory.\<close>

lemma send_on_remembered:
  assumes q: "memory_of (sms_modem_at s r) = (q, mgen)" and "dedupe_inv q" and x: "dedupe_holds q (snd_client_token req) x"
    and "env_now e < expires_at x" and r: "r < length (modems (ubus_bridge (service s)))"
  shows "sms_operations (sms_send_on e r req digest s) = sms_operations s"
    and "sms_trace (sms_send_on e r req digest s) = Sms_Direct
      (if \<not> sms_dedupe_digest_matches (Some x) (Some digest)
       then Sms_Error ''invalid_argument'' sms_token_reused_message False
       else if \<not> dedupe_ok x
       then Sms_Error (the (error_code x)) (sms_error_message (the (error_code x))) (retryable x)
       else Sms_Sent r mgen (case dedupe_sms_id x of None \<Rightarrow> [] | Some i \<Rightarrow> i)
         (case dedupe_state x of None \<Rightarrow> ''unknown'' | Some st \<Rightarrow> st) True) # sms_trace s"
proof -
  have q': "dedupe_queue (sms_modem_at s r) = q" "messaging_generation (sms_modem_at s r) = mgen"
    using q by (simp_all add: memory_of_def)
  have "fst (sms_dedupe_find (env_now e) q (snd_client_token req)) = Some x"
    using find_holds [OF assms(2), of x "env_now e"] x assms(4) by (simp add: dedupe_holds_def)
  then obtain p where find: "sms_dedupe_find (env_now e) q (snd_client_token req) = (Some x, p)"
    by (metis prod.collapse)
  show "sms_operations (sms_send_on e r req digest s) = sms_operations s"
    by (simp add: sms_send_on_def q' find Let_def send_error_def send_cached_sms_result_def)
  show "sms_trace (sms_send_on e r req digest s) = Sms_Direct
      (if \<not> sms_dedupe_digest_matches (Some x) (Some digest)
       then Sms_Error ''invalid_argument'' sms_token_reused_message False
       else if \<not> dedupe_ok x
       then Sms_Error (the (error_code x)) (sms_error_message (the (error_code x))) (retryable x)
       else Sms_Sent r mgen (case dedupe_sms_id x of None \<Rightarrow> [] | Some i \<Rightarrow> i)
         (case dedupe_state x of None \<Rightarrow> ''unknown'' | Some st \<Rightarrow> st) True) # sms_trace s"
    using r by (simp add: sms_send_on_def q' find Let_def send_error_def send_cached_sms_result_def on_modem_nth)
qed

definition request_accepted :: "sms_env \<Rightarrow> send_request \<Rightarrow> sms_service \<Rightarrow> nat \<Rightarrow> u8 list \<Rightarrow> bool" where
  "request_accepted e req s r digest \<longleftrightarrow>
     l850gl_identity_is_valid (Some (snd_modem_id req)) \<and> sms_recipient_is_valid (Some (snd_recipient req)) \<and>
     sms_outbound_text_is_valid (env_utf8 e) (Some (snd_text req)) \<and>
     l850gl_sms_operation_token_is_valid (Some (snd_client_token req)) \<and>
     sms_request_digest (env_sha256 e) (env_memory e) (Some (snd_recipient req)) (Some (snd_text req)) = (True, Some digest) \<and>
     sms_mutation_modem e s (snd_modem_id req) (snd_generation req) (snd_messaging_generation req) = Inr r"

lemma accepted_send_on:
  "request_accepted e req s r digest \<Longrightarrow> method_send_sms e (Some req) s = sms_send_on e r req digest s"
  by (simp add: request_accepted_def method_send_sms_def)

lemma digest_matches_stored:
  "stored_entry out now t x \<Longrightarrow> out_digest out = Some d \<Longrightarrow>
   sms_dedupe_digest_matches (Some x) (Some d') = (take SMS_SHA256_DIGEST_LEN d = take SMS_SHA256_DIGEST_LEN d')"
  by (simp add: stored_entry_def sms_dedupe_digest_matches_def sms_digest_equal_def)

section \<open>Outcomes are remembered\<close>

lemma stale_answered: "sms_operation_stale_code (sms_answered op) m = sms_operation_stale_code op m"
  by (simp add: sms_operation_stale_code_def sms_answered_def)

lemma send_ready_remembers:
  assumes inv: "sms_service_inv s" and op: "map_of (sms_operations s) k = Some op"
    and "so_client_token op = Some t"
    and "sms_operation_stale_code op (sms_modem_at s (so_modem op)) = None"
  shows "\<exists>q x. memory_of (sms_modem_at (sms_send_ready e k op True error (sms_emit ev s)) (so_modem op)) =
      (q, so_messaging_generation op) \<and> dedupe_inv q \<and> dedupe_holds q t x \<and>
    stored_entry \<lparr>out_digest = Some (so_request_digest op), out_ok = True, out_sms_id = so_sms_id op,
      out_state = Some (sms_state_name (env_sms_state e (mm_sms_object (the (so_sms op))))),
      out_error_code = None, out_retryable = False\<rparr> (env_now e) t x"
proof -
  let ?r = "so_modem op" and ?op = "sms_answered op"
  note own = sms_inside_own [OF sms_inv_op(1) [OF inv op]]
  have m: "dedupe_inv (dedupe_queue (sms_modem_at s ?r))"
    using inv own(2) by (simp add: sms_service_inv_def sms_frame_def)
  let ?m = "fst (l850gl_modem_refresh_sms (sms_modem_at s ?r))"
  have fresh: "memory_of ?m = memory_of (sms_modem_at s ?r)" by simp
  have mgen: "messaging_generation (sms_modem_at s ?r) = so_messaging_generation op"
    using assms(4) by (simp add: sms_operation_stale_code_def split: if_splits)
  have stale: "sms_operation_stale_code ?op (sms_modem_at s ?r) = None"
    using assms(4) by (simp add: stale_answered)
  have ans: "so_client_token ?op = Some t" "so_request_digest ?op = so_request_digest op"
    "so_sms ?op = so_sms op" using assms(3) by (simp_all add: sms_answered_def)
  let ?out = "\<lparr>out_digest = Some (so_request_digest op), out_ok = True, out_sms_id = so_sms_id op,
      out_state = Some (sms_state_name (env_sms_state e (mm_sms_object (the (so_sms op))))),
      out_error_code = None, out_retryable = False\<rparr>"
  have run: "memory_of (sms_modem_at (sms_send_ready e k op True error (sms_emit ev s)) ?r) =
      memory_of (remember (env_now e) (Some t) ?out ?m)"
    using own(2)
    by (simp add: sms_send_ready_def sms_operation_complete_send_def Let_def stale ans assms(3) memory_of_buffer on_modem_nth)
  have "dedupe_inv (dedupe_queue ?m)" "messaging_generation ?m = so_messaging_generation op"
    using fresh m mgen by (simp_all add: memory_of_def)
  then show ?thesis unfolding run using memory_of_remember [of ?m "env_now e" t ?out] by simp
qed

lemma unknown_remembers:
  assumes inv: "sms_service_inv s" and op: "map_of (sms_operations s) k = Some op0" "so_modem op = so_modem op0"
    and "so_type op = SMS_OPERATION_SEND" and "so_client_token op = Some t"
    and "sms_operation_stale_code op (sms_modem_at s (so_modem op)) = None"
  shows "\<exists>q x. memory_of (sms_modem_at (sms_operation_complete_error e k op ''outcome_unknown'' message retry (sms_emit ev s)) (so_modem op)) =
      (q, so_messaging_generation op) \<and> dedupe_inv q \<and> dedupe_holds q t x \<and>
    stored_entry \<lparr>out_digest = Some (so_request_digest op), out_ok = False, out_sms_id = so_sms_id op,
      out_state = None, out_error_code = Some ''outcome_unknown'', out_retryable = False\<rparr> (env_now e) t x"
proof -
  let ?r = "so_modem op"
  have own: "?r < length (modems (ubus_bridge (service s)))"
    using sms_inside_own(2) [OF sms_inv_op(1) [OF inv op(1)]] op(2) by simp
  have m: "dedupe_inv (dedupe_queue (sms_modem_at s ?r))"
    using inv own by (simp add: sms_service_inv_def sms_frame_def)
  have mgen: "messaging_generation (sms_modem_at s ?r) = so_messaging_generation op"
    using assms(6) by (simp add: sms_operation_stale_code_def split: if_splits)
  from memory_of_remember [OF m, of "env_now e" t] mgen own assms(4-6) show ?thesis
    by (simp add: sms_operation_complete_error_def Let_def memory_of_buffer on_modem_nth)
qed

section \<open>A sample run\<close>

definition sms_sample_env :: "int \<Rightarrow> 8 word \<Rightarrow> sms_env" where
  "sms_sample_env now seed = \<lparr>env_around = around (expert_env now), env_mm_1_24 = True, env_now = now,
     env_random = expert_random seed,
     env_utf8 = \<lparr>utf8_validate = (\<lambda>_. True), utf8_chars = map code, unichar_iscntrl = (\<lambda>n. n < 32)\<rparr>,
     env_object_path = (\<lambda>_. True), env_sha256 = (\<lambda>bs. take 32 (rev bs @ replicate 32 0)), env_memory = True,
     env_owner = True, env_sms_state = (\<lambda>_. MM_SMS_SENT), env_sms_path = (\<lambda>_. Some ''/SMS/1'')\<rparr>"

definition sms_sample_request :: send_request where
  "sms_sample_request = \<lparr>snd_modem_id = modem_name, snd_generation = 1, snd_messaging_generation = 1,
     snd_recipient = ''+123456'', snd_text = ''hello'',
     snd_client_token = ''smsop-000102030405060708090a0b0c0d0e0f''\<rparr>"

definition sms_sample_script :: "sms_input list" where
  "sms_sample_script =
     [Coordinator (Flags True True False [] []),
      Coordinator (Bridge (Object_Added (\<lambda>_. True) (expert_random 1)
        ((expert_object 7 ''/Modem/0'')\<lparr>object_messaging := Some 3\<rparr>))),
      Send_Request (sms_sample_env 1 2) (Some sms_sample_request),
      Sms_Answer (sms_sample_env 2 3) 0 (Some \<lparr>mm_sms_object = 9, mm_sms_path = Some ''/SMS/1'',
        mm_sms_timestamp = None\<rparr>) True None,
      Sms_Answer (sms_sample_env 3 4) 0 None True None]"

definition sms_run :: "nat \<Rightarrow> sms_service" where
  "sms_run n = service_after (take n sms_sample_script)"

definition sms_sample_reply :: sms_reply where
  "sms_sample_reply = Sms_Sent 0 1 ''sms-02020202020202020202020202020202'' ''sent'' False"

text \<open>What the run shows, evaluated once.\<close>

definition sms_shape ::
    "sms_service \<Rightarrow> nat list \<times> (nat \<times> nat \<times> sms_call option \<times> cstring option \<times> u8 list \<times> cstring option option) list" where
  "sms_shape s = (sms_held s, map (\<lambda>(k, op). (k, so_modem op, so_pending op, so_client_token op,
     so_request_digest op, if so_modem op < length (modems (ubus_bridge (service s)))
       then Some (sms_operation_stale_code op (sms_modem_at s (so_modem op))) else None)) (sms_operations s))"

definition sms_sample_digest :: "u8 list" where
  "sms_sample_digest = the (snd (sms_request_digest (env_sha256 (sms_sample_env 0 0)) True
     (Some ''+123456'') (Some ''hello'')))"

definition lost_answer :: sms_input where
  "lost_answer = Sms_Answer (sms_sample_env 3 4) 0 None False
     (Some \<lparr>gerror_code = G_IO_ERROR_TIMED_OUT, remote_name = None\<rparr>)"

text \<open>The state after that answer, with the normalised error written out.\<close>

definition lost_done :: "sms_service \<Rightarrow> sms_service" where
  "lost_done s = (case map_of (sms_operations s) 0 of
     None \<Rightarrow> s
   | Some op \<Rightarrow> sms_operation_complete_error (sms_sample_env 3 4) 0 (sms_answered op) ''outcome_unknown''
       (sms_error_message ''outcome_unknown'') False (sms_emit (Sms_Answered 0 SEND_CALL False) s))"

definition sms_accepts :: "sms_service \<Rightarrow> bool" where
  "sms_accepts s = request_accepted (sms_sample_env 4 5) sms_sample_request s 0 sms_sample_digest"

lemma sms_sampled:
  "(let ss = runs sms_exec sms_sample_script sms_init in
      (sms_shape (ss ! 4), take 2 (sms_trace (ss ! 5)), sms_accepts (ss ! 5), sms_accepts (lost_done (ss ! 4)))) =
   (([0], [(0, 0, Some SEND_CALL, Some (snd_client_token sms_sample_request), sms_sample_digest, Some None)]),
    [Sms_Replied 0 sms_sample_reply, Sms_Answered 0 SEND_CALL True], True, True)"
  by code_simp

lemma sms_run_nth:
  assumes "n \<le> 5"
  shows "runs sms_exec sms_sample_script sms_init ! n = sms_run n"
proof -
  have "length sms_sample_script = 5" by (simp add: sms_sample_script_def)
  with assms show ?thesis by (simp add: sms_run_def service_after_def runs_nth)
qed

lemma sms_run_sending:
  "sms_shape (sms_run 4) = ([0], [(0, 0, Some SEND_CALL, Some (snd_client_token sms_sample_request),
     sms_sample_digest, Some None)])"
  and sms_run_reply: "take 2 (sms_trace (sms_run 5)) = [Sms_Replied 0 sms_sample_reply, Sms_Answered 0 SEND_CALL True]"
  and sms_run_accepts: "request_accepted (sms_sample_env 4 5) sms_sample_request (sms_run 5) 0 sms_sample_digest"
  and lost_done_accepts:
    "request_accepted (sms_sample_env 4 5) sms_sample_request (lost_done (sms_run 4)) 0 sms_sample_digest"
  using sms_sampled by (simp_all add: Let_def sms_run_nth sms_accepts_def)

lemma sms_run_done: "sms_run 5 = sms_exec (Sms_Answer (sms_sample_env 3 4) 0 None True None) (sms_run 4)"
  by (simp add: sms_run_def sms_sample_script_def service_after_def)

lemma sms_truth_shape:
  "sms_reply_truth (Sms_Sent r gen i st dup) h \<longleftrightarrow> (\<exists>k h'. h = Sms_Answered k SEND_CALL True # h') \<and> \<not> dup"
  "sms_reply_truth (Sms_Gone r gen i) h \<longleftrightarrow> (\<exists>k h'. h = Sms_Answered k DELETE_CALL True # h')"
  "sms_reply_truth (Sms_Error err message retry) h \<longleftrightarrow> (\<exists>k r t token h'. h = Sms_Started k r t token # h') \<or>
     (\<exists>k call ok h'. h = Sms_Answered k call ok # h' \<and> (call = CREATE_CALL \<or> \<not> ok))"
  by (cases h; cases "hd h"; auto)+

section \<open>Properties\<close>

text \<open>C16: Replies about messages are true. Whatever the order of requests, answers, timers,
  cancellations, bridge and coordinator activity, a reply of success for a message is sent only
  directly after ModemManager answered the send call of that operation with success, and a reply of
  deletion only directly after the delete call succeeded; an error is never reported in their place.\<close>

theorem message_reply_honest:
  assumes "sms_trace (service_after script) = later @ Sms_Replied k rep # earlier"
  defines "h \<equiv> sms_history k earlier"
  shows "case rep of
      Sms_Sent r gen i st remembered \<Rightarrow>
        \<not> remembered \<and> (\<exists>h'. h = Sms_Answered k SEND_CALL True # h' \<and> SEND_CALL \<in> set (sms_calls h'))
    | Sms_Gone r gen i \<Rightarrow> \<exists>h'. h = Sms_Answered k DELETE_CALL True # h' \<and> DELETE_CALL \<in> set (sms_calls h')
    | Sms_Error err message retry \<Rightarrow> \<forall>h'. h \<noteq> Sms_Answered k SEND_CALL True # h' \<and>
        h \<noteq> Sms_Answered k DELETE_CALL True # h'"
proof -
  have ok: "sms_reply_truth rep h" and prot: "sms_protocol h"
    using sms_history_at [OF assms(1), of k] by (simp_all add: h_def)
  have own: "sms_event_op ev = Some k" if "ev \<in> set h" for ev
    using that sms_history_owned by (simp add: h_def)
  have calls: "sms_calls_by h (sms_calls h)" using prot by (rule sms_protocol_calls)
  show ?thesis
  proof (cases rep)
    case (Sms_Sent r gen i st remembered)
    with ok obtain k' h' where h': "h = Sms_Answered k' SEND_CALL True # h'" and "\<not> remembered"
      by (auto simp: sms_truth_shape)
    with calls own [of "hd h"] show ?thesis by (simp add: Sms_Sent)
  next
    case (Sms_Gone r gen i)
    with ok obtain k' h' where h': "h = Sms_Answered k' DELETE_CALL True # h'" by (auto simp: sms_truth_shape)
    with calls own [of "hd h"] show ?thesis by (simp add: Sms_Gone)
  next
    case (Sms_Error err message retry)
    with ok show ?thesis by (auto simp: sms_truth_shape)
  qed
qed

theorem message_reply_honest_witness:
  "\<exists>h'. sms_history 0 (drop 1 (sms_trace (sms_run 5))) = Sms_Answered 0 SEND_CALL True # h'"
proof -
  have "sms_trace (sms_run 5) = [] @ Sms_Replied 0 sms_sample_reply # drop 1 (sms_trace (sms_run 5))"
    using sms_run_reply append_take_drop_id [of 1 "sms_trace (sms_run 5)"]
    by (cases "sms_trace (sms_run 5)") simp_all
  from message_reply_honest [OF this [unfolded sms_run_def]] show ?thesis
    by (auto simp: sms_sample_reply_def sms_run_def)
qed

text \<open>C18: A message is created at most once, sent at most once and deleted at most once per
  request; every operation gets at most one reply, and the reply is the last thing that happens
  to it.\<close>

theorem message_operation_at_most_once:
  fixes script
  defines "h \<equiv> \<lambda>k. sms_history k (sms_trace (service_after script))"
  shows "distinct (sms_calls (h k)) \<and> (set (sms_calls (h k)) \<subseteq> {CREATE_CALL, SEND_CALL} \<or> sms_calls (h k) = [DELETE_CALL]) \<and>
    filter sms_replied (tl (h k)) = []"
proof -
  have prot: "sms_protocol (h k)"
    using service_after_inv [of script] by (simp add: h_def sms_service_inv_def sms_frame_def)
  moreover have "list_all (\<lambda>ev. sms_event_op ev \<noteq> None) (h k)"
    using sms_history_owned [of _ k] by (auto simp: h_def list_all_iff)
  ultimately have "filter sms_replied (tl (h k)) = []"
    using sms_protocol_reply by (simp add: list_all_iff filter_empty_conv)
  moreover have "distinct (sms_calls (h k)) \<and>
      (set (sms_calls (h k)) \<subseteq> {CREATE_CALL, SEND_CALL} \<or> sms_calls (h k) = [DELETE_CALL])"
    using sms_protocol_calls [OF prot]
    by (cases "h k"; cases "hd (h k)") (auto split: if_splits, (metis sms_call.exhaust)+)
  ultimately show ?thesis by blast
qed

text \<open>One modem, one operation. In every reachable state no modem is held by two operations of
  any kind, message operation or cell lock; a modem is locked for messages exactly while a message
  operation holds it, locked for the cell lock exactly while a coordinator's operation holds it,
  and busy in both cases.\<close>

lemma service_exclusion:
  fixes script
  defines "s \<equiv> service_after script"
  shows "distinct (held_all (service s) @ sms_held s) \<and>
    list_all (\<lambda>(r, m).
      (mutation_kind m = MUTATION_SMS) = (r \<in> set (sms_held s)) \<and>
      (mutation_kind m = MUTATION_L850) = (r \<in> set (held_all (service s))) \<and>
      (if mutation_kind m = MUTATION_SMS \<or> mutation_kind m = MUTATION_L850 then mutation_busy m else True))
      (List.enumerate 0 (modems (ubus_bridge (service s))))"
proof -
  have frame: "sms_frame s" using service_after_inv by (simp add: s_def sms_service_inv_def)
  then have locks: "locks (service s)" by (simp add: sms_frame_def mutation_inv_def frame_inv_def)
  let ?n = "length (modems (ubus_bridge (service s)))"
  have sms: "(mutation_kind (sms_modem_at s r) = MUTATION_SMS) = (r \<in> set (sms_held s))"
    "r \<in> set (sms_held s) \<Longrightarrow> mutation_busy (sms_modem_at s r)" if "r < ?n" for r
    using frame that by (simp_all add: sms_frame_def)
  have expert: "(mutation_kind (sms_modem_at s r) = MUTATION_L850) = (r \<in> set (held_all (service s)))"
    "r \<in> set (held_all (service s)) \<Longrightarrow> mutation_busy (sms_modem_at s r)" if "r < ?n" for r
    using locks that by (simp_all add: locks_def)
  have "r \<notin> set (held_all (service s))" if "r \<in> set (sms_held s)" for r
  proof -
    have "r < ?n" using frame that by (simp add: sms_frame_def)
    with sms(1) [of r] expert(1) [of r] that show ?thesis by simp
  qed
  moreover have "distinct (held_all (service s))" "distinct (sms_held s)"
    using locks frame by (simp_all add: locks_def sms_frame_def)
  ultimately have "distinct (held_all (service s) @ sms_held s)" by auto
  then show ?thesis using sms expert by (auto simp: list_all_iff in_set_enumerate_eq)
qed

text \<open>C14: A message is never sent twice for one request token. Once the send was answered with success on a
  live epoch, a repeated request with the token, for as long as the outcome is remembered, starts
  nothing: it gets the remembered result if recipient and text have the same digest, and an error
  if not.\<close>

theorem sent_outcome_replayed:
  fixes script k op e e' req digest
  defines "s \<equiv> service_after script"
  assumes op: "map_of (sms_operations s) k = Some op" and pend: "so_pending op = Some SEND_CALL"
    and token: "so_client_token op = Some (snd_client_token req)"
    and epoch: "sms_operation_stale_code op (sms_modem_at s (so_modem op)) = None"
  defines "after \<equiv> sms_exec (Sms_Answer e k None True None) s"
  assumes accepted: "request_accepted e' req after (so_modem op) digest" and time: "env_now e' < sms_dedupe_expiry (env_now e)"
  defines "again \<equiv> sms_exec (Send_Request e' (Some req)) after"
  shows "sms_operations again = sms_operations after \<and> map_of (sms_operations again) k = None \<and>
    sms_trace again = Sms_Direct
      (if take SMS_SHA256_DIGEST_LEN (so_request_digest op) = take SMS_SHA256_DIGEST_LEN digest
       then Sms_Sent (so_modem op) (so_messaging_generation op) (case so_sms_id op of None \<Rightarrow> [] | Some i \<Rightarrow> i)
         (sms_state_name (env_sms_state e (mm_sms_object (the (so_sms op))))) True
       else Sms_Error ''invalid_argument'' sms_token_reused_message False) # sms_trace after"
proof -
  let ?s = "sms_emit (Sms_Answered k SEND_CALL True) s" and ?r = "so_modem op"
  have inv: "sms_service_inv s" by (simp add: s_def service_after_inv)
  have after: "after = sms_send_ready e k op True None ?s"
    using op pend by (simp add: after_def sms_exec_def sms_deliver_def)
  have ans: "sms_service_inv after" using sms_send_ready_inv [OF inv op pend] by (simp add: after)
  obtain q x where q: "memory_of (sms_modem_at after ?r) = (q, so_messaging_generation op)" "dedupe_inv q"
      "dedupe_holds q (snd_client_token req) x"
    and x: "stored_entry \<lparr>out_digest = Some (so_request_digest op), out_ok = True, out_sms_id = so_sms_id op,
      out_state = Some (sms_state_name (env_sms_state e (mm_sms_object (the (so_sms op))))),
      out_error_code = None, out_retryable = False\<rparr> (env_now e) (snd_client_token req) x"
    using send_ready_remembers [OF inv op token epoch, where e = e and error = None
        and ev = "Sms_Answered k SEND_CALL True"] unfolding after by blast
  have r: "?r < length (modems (ubus_bridge (service after)))"
    using accepted sms_mutation_modem_bound [OF ans] unfolding request_accepted_def by blast
  have live: "env_now e' < expires_at x" using time x by (simp add: stored_entry_def)
  note on = send_on_remembered [OF q live r, of digest]
  have gone: "map_of (sms_operations after) k = None"
    by (simp add: after sms_send_ready_def sms_operation_complete_send_def stale_answered epoch Let_def)
  show ?thesis
    using on gone accepted_send_on [OF accepted] digest_matches_stored [OF x, of "so_request_digest op" digest] x
    by (auto simp: again_def sms_exec_def stored_entry_def split: option.split)
qed

lemma sms_sample_op:
  assumes "sms_shape s = ([r], [(k, r, pend, token, digest, Some stale)])"
  shows "\<exists>op. map_of (sms_operations s) k = Some op \<and> so_modem op = r \<and> so_pending op = pend \<and>
    so_client_token op = token \<and> so_request_digest op = digest \<and> sms_operation_stale_code op (sms_modem_at s r) = stale"
  using assms by (auto simp: sms_shape_def split: if_splits)

text \<open>C15: An unclear outcome is never resent. If the send call ends in an error that leaves open
  whether the message went out (a timeout, a lost connection, an answer from ModemManager that does
  not say), a repeated request with the token starts nothing and is told again that the outcome is
  unknown, for as long as it is remembered.\<close>

theorem unknown_outcome_not_resent:
  fixes script k op e e' req digest error
  defines "s \<equiv> service_after script"
  assumes op: "map_of (sms_operations s) k = Some op" and pend: "so_pending op = Some SEND_CALL"
    and token: "so_client_token op = Some (snd_client_token req)"
    and epoch: "sms_operation_stale_code op (sms_modem_at s (so_modem op)) = None"
    and unclear: "norm_code (normalize_sms_error (env_mm_1_24 e) error
      (sms_view op (sms_modem_at s (so_modem op)))) = ''outcome_unknown''"
  defines "after \<equiv> sms_exec (Sms_Answer e k None False error) s"
  assumes accepted: "request_accepted e' req after (so_modem op) digest" and time: "env_now e' < sms_dedupe_expiry (env_now e)"
    and same: "take SMS_SHA256_DIGEST_LEN (so_request_digest op) = take SMS_SHA256_DIGEST_LEN digest"
  defines "again \<equiv> sms_exec (Send_Request e' (Some req)) after"
  shows "sms_operations again = sms_operations after \<and> map_of (sms_operations again) k = None \<and>
    sms_trace again = Sms_Direct (Sms_Error ''outcome_unknown'' (sms_error_message ''outcome_unknown'') False) # sms_trace after"
proof -
  let ?s = "sms_emit (Sms_Answered k SEND_CALL False) s" and ?r = "so_modem op" and ?op = "sms_answered op"
  have inv: "sms_service_inv s" by (simp add: s_def service_after_inv)
  note inside = sms_inv_op [OF inv op]
  have type: "so_type op = SMS_OPERATION_SEND"
    using inside(2) pend by (cases "so_type op") (simp_all add: sms_waits_def)
  have view: "sms_view ?op m = sms_view op m" for m by (simp add: sms_view_def sms_answered_def)
  have ready: "after = sms_send_ready e k op False error ?s"
    using op pend by (simp add: after_def sms_exec_def sms_deliver_def)
  then have after: "\<exists>msg rt. after = sms_operation_complete_error e k ?op ''outcome_unknown'' msg rt ?s"
    using unclear by (auto simp: sms_send_ready_def sms_operation_complete_normalized_error_def Let_def view)
  have ans: "sms_service_inv after" using sms_send_ready_inv [OF inv op pend] by (simp add: ready)
  have r: "?r < length (modems (ubus_bridge (service after)))"
    using accepted sms_mutation_modem_bound [OF ans] unfolding request_accepted_def by blast
  from after obtain msg rt where run: "after = sms_operation_complete_error e k ?op ''outcome_unknown'' msg rt ?s" by blast
  have ans: "so_request_digest ?op = so_request_digest op" "so_messaging_generation ?op = so_messaging_generation op"
    by (simp_all add: sms_answered_def)
  have ops: "map_of (sms_operations after) k = None"
    by (simp add: run sms_operation_complete_error_def Let_def)
  obtain q x where q: "memory_of (sms_modem_at after ?r) = (q, so_messaging_generation op)" "dedupe_inv q"
      "dedupe_holds q (snd_client_token req) x"
    and x: "stored_entry \<lparr>out_digest = Some (so_request_digest op), out_ok = False, out_sms_id = so_sms_id op,
      out_state = None, out_error_code = Some ''outcome_unknown'', out_retryable = False\<rparr> (env_now e)
      (snd_client_token req) x"
    using unknown_remembers [OF inv op, of ?op "snd_client_token req" e msg rt "Sms_Answered k SEND_CALL False"]
      type token epoch unfolding run by (auto simp: stale_answered ans)
  have live: "env_now e' < expires_at x" using time x by (simp add: stored_entry_def)
  note on = send_on_remembered [OF q live r, of digest]
  show ?thesis
    using on ops accepted_send_on [OF accepted] digest_matches_stored [OF x, of "so_request_digest op" digest] x same
    by (simp add: again_def sms_exec_def stored_entry_def)
qed

lemma error_operations [simp]:
  "sms_operations (sms_operation_complete_error e k op err message retry s) = AList.delete k (sms_operations s)"
  "sms_operations (sms_operation_complete_normalized_error e k op error s) = AList.delete k (sms_operations s)"
  "sms_operations (sms_complete_code e k op err s) = AList.delete k (sms_operations s)"
  "sms_operations (sms_operation_complete_send e k op st s) = AList.delete k (sms_operations s)"
  "sms_operations (sms_operation_complete_delete k op s) = AList.delete k (sms_operations s)"
  by (simp_all add: sms_operation_complete_error_def sms_operation_complete_normalized_error_def
      sms_complete_code_def sms_operation_complete_send_def sms_operation_complete_delete_def Let_def)

definition sms_progress :: "nat \<Rightarrow> sms_operation \<Rightarrow> sms_service \<Rightarrow> sms_service \<Rightarrow> bool" where
  "sms_progress k op s s' \<longleftrightarrow> sms_operations s' = AList.delete k (sms_operations s) \<or>
     so_pending op = Some CREATE_CALL \<and> (\<exists>op'. sms_operations s' = AList.update k op' (sms_operations s) \<and>
       so_pending op' = Some SEND_CALL \<and> so_modem op' = so_modem op)"

lemma deliver_progress:
  assumes "map_of (sms_operations s) k = Some op" and "so_pending op = Some call"
  shows "sms_progress k op s (sms_deliver e k result ok error s)"
proof (cases call)
  case CREATE_CALL
  let ?s = "sms_emit (Sms_Answered k CREATE_CALL (result \<noteq> None)) s"
  have dispatch: "sms_progress k op s (sms_dispatch_send e k op' s')"
    if "sms_operations s' = sms_operations s" "so_modem op' = so_modem op" for op' s'
    using that assms(2) CREATE_CALL
    by (auto simp: sms_dispatch_send_def sms_progress_def sms_call_async_def sms_operation_arm_timeout_def Let_def
        split: option.split)
  have "sms_progress k op s (sms_create_ready e k op result error ?s)"
  proof (cases result)
    case (Some sms)
    have "sms_progress k op s (sms_admit_created e k op' sms ?s)" if "so_modem op' = so_modem op" for op'
      using that dispatch
      by (auto simp: sms_admit_created_def Let_def sms_progress_def [of k op s "sms_complete_code e k op' err s'" for err s']
          split: prod.split option.split)
    then show ?thesis
      using Some by (auto simp: sms_create_ready_def Let_def sms_progress_def split: option.split)
  qed (simp add: sms_create_ready_def Let_def sms_progress_def)
  with assms CREATE_CALL show ?thesis by (simp add: sms_deliver_def)
qed (use assms in \<open>simp_all add: sms_deliver_def sms_send_ready_def sms_delete_ready_def sms_progress_def Let_def\<close>)

lemma deliver_length [simp]:
  "length (modems (ubus_bridge (service (sms_deliver e k result ok error s)))) = length (modems (ubus_bridge (service s)))"
proof -
  have free: "length (modems (ubus_bridge (service (sms_operation_complete_buffer k op rep s)))) =
      length (modems (ubus_bridge (service s)))" for op rep s
    by (simp add: sms_operation_complete_buffer_def sms_operation_free_def Let_def)
  have err: "length (modems (ubus_bridge (service (sms_operation_complete_error e k op err message retry s)))) =
      length (modems (ubus_bridge (service s)))" for op err message retry s
    by (simp add: sms_operation_complete_error_def Let_def free)
  show ?thesis
    by (simp add: sms_deliver_def sms_create_ready_def sms_admit_created_def sms_dispatch_send_def sms_send_ready_def
        sms_delete_ready_def sms_call_async_def sms_complete_code_def sms_operation_complete_normalized_error_def
        sms_operation_complete_send_def sms_operation_complete_delete_def Let_def free err
        split: option.split sms_call.split prod.split)
qed

text \<open>The operation holds its modem, and the end of it gives the modem back.\<close>

definition sms_owns :: "nat \<Rightarrow> sms_operation \<Rightarrow> sms_service \<Rightarrow> bool" where
  "sms_owns k op s \<longleftrightarrow> so_modem op < length (modems (ubus_bridge (service s))) \<and>
     mutation_kind (sms_modem_at s (so_modem op)) = MUTATION_SMS \<and> map_of (cancellable_owner s) (so_modem op) = Some k"

abbreviation sms_idle :: "sms_operation \<Rightarrow> sms_service \<Rightarrow> bool" where
  "sms_idle op s \<equiv> \<not> mutation_busy (sms_modem_at s (so_modem op))"

lemma sms_owns_emit [simp]: "sms_owns k op (sms_emit ev s) = sms_owns k op s"
  by (simp add: sms_owns_def)

lemma sms_owns_with:
  assumes "sms_owns k op s" and "sms_quiet (sms_modem_at s r) (f (sms_modem_at s r))"
  shows "sms_owns k op (sms_with_modem r f s)"
  using assms by (auto simp: sms_owns_def sms_quiet_def on_modem_nth)

lemma free_idle:
  assumes "sms_owns k op s"
  shows "sms_idle op (sms_operation_free k op s)"
proof -
  have "mutation_kind (l850gl_modem_release_sms_id m i) = mutation_kind m" for m i
    using quiet_release [of m i] by (simp add: sms_quiet_def)
  with assms show ?thesis
    by (simp add: sms_operation_free_def Let_def sms_owns_def on_modem_nth sms_unlock_modem_def)
qed

lemma complete_idle:
  assumes "sms_owns k op s"
  shows "sms_idle op (sms_operation_complete_buffer k op rep s)"
    and "sms_idle op (sms_operation_complete_error e k op err message retry s)"
    and "sms_idle op (sms_operation_complete_normalized_error e k op error s)"
    and "sms_idle op (sms_complete_code e k op err s)"
    and "sms_idle op (sms_operation_complete_send e k op st s)"
    and "sms_idle op (sms_operation_complete_delete k op s)"
proof -
  have buffer: "sms_idle op (sms_operation_complete_buffer k op rep t)" if "sms_owns k op t" for rep t
    using free_idle [of k "op\<lparr>so_deferred := False\<rparr>" "sms_emit (Sms_Replied k rep) t"]
      free_idle [of k "op\<lparr>so_deferred := False\<rparr>" t] that
    by (simp add: sms_operation_complete_buffer_def sms_owns_def)
  show "sms_idle op (sms_operation_complete_buffer k op rep s)" by (rule buffer [OF assms])
  have memory: "sms_owns k op (sms_with_modem r (remember now token out) s)" "sms_owns k op (sms_with_modem r (forget now token) s)"
    for r now token out
    by (intro sms_owns_with [OF assms] quiet_remember, intro sms_owns_with [OF assms] quiet_forget)
  show error: "sms_idle op (sms_operation_complete_error e k op err message retry s)" for err message retry
    using memory assms by (simp add: sms_operation_complete_error_def Let_def buffer)
  show "sms_idle op (sms_operation_complete_normalized_error e k op error s)" "sms_idle op (sms_complete_code e k op err s)"
    by (simp_all add: sms_operation_complete_normalized_error_def sms_complete_code_def Let_def error)
  show "sms_idle op (sms_operation_complete_send e k op st s)" "sms_idle op (sms_operation_complete_delete k op s)"
    using memory assms by (simp_all add: sms_operation_complete_send_def sms_operation_complete_delete_def Let_def buffer)
qed

lemma sms_owns_cong: "so_modem op' = so_modem op \<Longrightarrow> sms_owns k op' s = sms_owns k op s"
  by (simp add: sms_owns_def)

lemma deliver_idle:
  assumes owns: "sms_owns k op s" and op: "map_of (sms_operations s) k = Some op" and pend: "so_pending op \<noteq> None"
    and "map_of (sms_operations (sms_deliver e k result ok error s)) k = None"
  shows "sms_idle op (sms_deliver e k result ok error s)"
proof -
  have call: "map_of (sms_operations (sms_call_async k op' c args t)) k = None \<longleftrightarrow> False" for op' c args t
    by (simp add: sms_call_async_def update_conv')
  have owns': "sms_owns k op' (sms_emit ev s)" if "so_modem op' = so_modem op" for op' ev
    using owns sms_owns_cong [OF that] by simp
  have dispatch: "sms_idle op' (sms_dispatch_send e k op' t)"
    if "sms_owns k op' t" "map_of (sms_operations (sms_dispatch_send e k op' t)) k = None" for op' t
    using complete_idle(4) [OF that(1)] that(2)
    by (auto simp: sms_dispatch_send_def Let_def call split: option.splits if_splits)
  have admit: "sms_idle op' (sms_admit_created e k op' sms t)"
    if "sms_owns k op' t" "map_of (sms_operations (sms_admit_created e k op' sms t)) k = None" for op' sms t
  proof -
    obtain entry m rnd where run: "l850gl_modem_admit_reserved_sms (env_object_path e) (env_random e)
        (sms_modem_at t (so_modem op')) sms (so_sms_id op') = (entry, m, rnd)" by (metis prod_cases3)
    then have "sms_owns k op' (sms_with_modem (so_modem op') (\<lambda>_. m) t)"
      using that(1) quiet_admit by (blast intro: sms_owns_with)
    moreover from this have "sms_owns k (op'\<lparr>so_entry := x\<rparr>) (sms_with_modem (so_modem op') (\<lambda>_. m) t)" for x
      by (simp add: sms_owns_def)
    ultimately show ?thesis
      using run that(2) complete_idle(4) dispatch [of "op'\<lparr>so_entry := entry\<rparr>" "sms_with_modem (so_modem op') (\<lambda>_. m) t"]
      by (cases entry) (simp_all add: sms_admit_created_def)
  qed
  have refreshed: "sms_owns k op' (sms_with_modem r (\<lambda>m. fst (l850gl_modem_refresh_sms m)) t)" if "sms_owns k op' t" for op' r t
    using that by (intro sms_owns_with quiet_refresh)
  obtain c where c: "so_pending op = Some c" using pend by blast
  let ?a = "sms_answered op"
  have a: "so_modem ?a = so_modem op" by (simp add: sms_answered_def)
  note finished = complete_idle [OF owns' [OF a]] complete_idle [OF refreshed [OF owns' [OF a]]]
  show ?thesis
  proof (cases c)
    case CREATE_CALL
    have same: "so_modem (?a\<lparr>so_properties := None\<rparr>) = so_modem op"
      "so_modem (?a\<lparr>so_properties := None, so_sms := x\<rparr>) = so_modem op" for x by (simp_all add: a)
    show ?thesis
      using assms(4) op c CREATE_CALL complete_idle(3) [OF owns' [OF same(1)]] complete_idle(4) [OF owns' [OF same(2)]]
        admit [OF owns' [OF same(2)]]
      by (auto simp: sms_deliver_def sms_create_ready_def Let_def a split: option.splits)
  qed (use op c finished in \<open>auto simp: sms_deliver_def sms_send_ready_def sms_delete_ready_def Let_def a\<close>)
qed

text \<open>C17: No message operation is left behind. In every reachable state each operation waits for the
  answer to exactly one call; whatever the answer, the operation is then gone and its modem
  released, neither marked for messages nor busy, or it was creating the message and is now sending
  it, so two answers end it.\<close>

theorem message_operation_ends:
  fixes e k result ok error
  assumes "map_of (sms_operations (service_after script)) k = Some op"
  defines "after \<equiv> sms_exec (Sms_Answer e k result ok error) (service_after script)"
  shows "so_pending op \<noteq> None \<and>
    (case map_of (sms_operations after) k of
       None \<Rightarrow> mutation_kind (sms_modem_at after (so_modem op)) \<noteq> MUTATION_SMS \<and>
         \<not> mutation_busy (sms_modem_at after (so_modem op))
     | Some op' \<Rightarrow> so_pending op = Some CREATE_CALL \<and> so_pending op' = Some SEND_CALL \<and> so_modem op' = so_modem op)"
proof -
  let ?s = "service_after script"
  have inv: "sms_service_inv ?s" by (rule service_after_inv)
  have frame: "sms_frame after" "sms_frame ?s"
    using sms_exec_inv [OF inv] inv by (simp_all add: after_def sms_service_inv_def)
  note inside = sms_inv_op [OF inv assms(1)]
  obtain call where pend: "so_pending op = Some call"
    using inside(2) by (auto simp: sms_waits_def split: list.splits sms_event.splits)
  have progress: "sms_progress k op ?s after"
    using deliver_progress [OF assms(1) pend] by (simp add: after_def sms_exec_def)
  have len: "so_modem op < length (modems (ubus_bridge (service after)))"
    using sms_inside_own(2) [OF inside(1)] by (simp add: after_def sms_exec_def)
  show ?thesis
  proof (cases "sms_operations after = AList.delete k (sms_operations ?s)")
    case True
    then have gone: "map_of (sms_operations after) k = None" by (simp add: delete_conv')
    have "sms_owns k op ?s" using sms_inside_own [OF inside(1)] by (simp add: sms_owns_def)
    then have "sms_idle op after"
      using deliver_idle [OF _ assms(1)] pend gone by (simp add: after_def sms_exec_def)
    moreover have "so_modem op \<notin> set (sms_held after)"
      using sms_held_delete [OF _ _ assms(1), of so_modem] frame(2) by (simp add: sms_held_def sms_frame_def True)
    ultimately show ?thesis using frame(1) len gone pend by (simp add: sms_frame_def)
  next
    case False
    with progress pend show ?thesis by (auto simp: sms_progress_def update_conv')
  qed
qed

theorem sent_outcome_replayed_witness:
  "\<exists>gen i st. take 1 (sms_trace (sms_exec (Send_Request (sms_sample_env 4 5) (Some sms_sample_request)) (sms_run 5))) =
     [Sms_Direct (Sms_Sent 0 gen i st True)]"
proof -
  obtain op where op: "map_of (sms_operations (sms_run 4)) 0 = Some op" and f: "so_modem op = 0"
    "so_pending op = Some SEND_CALL" "so_client_token op = Some (snd_client_token sms_sample_request)"
    "so_request_digest op = sms_sample_digest" "sms_operation_stale_code op (sms_modem_at (sms_run 4) 0) = None"
    using sms_sample_op [OF sms_run_sending] by blast
  have time: "env_now (sms_sample_env 4 5) < sms_dedupe_expiry (env_now (sms_sample_env 3 4))" by code_simp
  have "request_accepted (sms_sample_env 4 5) sms_sample_request (sms_exec (Sms_Answer (sms_sample_env 3 4) 0 None True None)
      (sms_run 4)) (so_modem op) sms_sample_digest"
    using sms_run_accepts sms_run_done f(1) by simp
  from sent_outcome_replayed [OF op [unfolded sms_run_def] f(2,3) _ this [unfolded sms_run_def] time] f
  show ?thesis by (simp add: sms_run_done [symmetric, unfolded sms_run_def] sms_run_def)
qed

theorem message_operation_ends_witness:
  "let after = sms_exec (Sms_Answer (sms_sample_env 3 4) 0 None False None) (sms_run 4) in
     map_of (sms_operations after) 0 = None \<and> mutation_kind (sms_modem_at after 0) \<noteq> MUTATION_SMS \<and>
     \<not> mutation_busy (sms_modem_at after 0)"
proof -
  obtain op where op: "map_of (sms_operations (sms_run 4)) 0 = Some op"
    and f: "so_modem op = 0" "so_pending op = Some SEND_CALL"
    using sms_sample_op [OF sms_run_sending] by blast
  from message_operation_ends [OF op [unfolded sms_run_def], of "sms_sample_env 3 4" None False None] f
  show ?thesis by (auto simp: sms_run_def Let_def split: option.splits)
qed

lemma normalized_lost:
  assumes "so_type op = SMS_OPERATION_SEND" and "so_send_dispatched op"
  shows "normalize_sms_error v (Some \<lparr>gerror_code = G_IO_ERROR_TIMED_OUT, remote_name = None\<rparr>) (sms_view op m) =
    sms_normalized ''outcome_unknown'' False"
  using assms
  by (simp add: normalize_sms_error_def sms_view_def sms_error_is_timeout_or_transport_def error_matches_def Let_def)

theorem unknown_outcome_not_resent_witness:
  "take 1 (sms_trace (sms_exec (Send_Request (sms_sample_env 4 5) (Some sms_sample_request))
     (sms_exec lost_answer (sms_run 4)))) =
   [Sms_Direct (Sms_Error ''outcome_unknown'' (sms_error_message ''outcome_unknown'') False)]"
proof -
  obtain op where op: "map_of (sms_operations (sms_run 4)) 0 = Some op" and f: "so_modem op = 0"
    "so_pending op = Some SEND_CALL" "so_client_token op = Some (snd_client_token sms_sample_request)"
    "so_request_digest op = sms_sample_digest" "sms_operation_stale_code op (sms_modem_at (sms_run 4) 0) = None"
    using sms_sample_op [OF sms_run_sending] by blast
  have time: "env_now (sms_sample_env 4 5) < sms_dedupe_expiry (env_now (sms_sample_env 3 4))" by code_simp
  have "sms_service_inv (sms_run 4)" by (simp add: sms_run_def service_after_inv)
  from sms_inv_op(2) [OF this op] f(2) have "so_type op = SMS_OPERATION_SEND" "so_send_dispatched op"
    by (cases "so_type op"; simp add: sms_waits_def)+
  then have type: "so_type op = SMS_OPERATION_SEND" "so_send_dispatched op" by blast+
  have unclear: "norm_code (normalize_sms_error (env_mm_1_24 (sms_sample_env 3 4))
      (Some \<lparr>gerror_code = G_IO_ERROR_TIMED_OUT, remote_name = None\<rparr>)
      (sms_view op (sms_modem_at (sms_run 4) (so_modem op)))) = ''outcome_unknown''"
    by (simp add: normalized_lost [OF type] sms_normalized_def)
  have "sms_exec lost_answer (sms_run 4) = lost_done (sms_run 4)"
    using op f(2) type
    by (simp add: lost_answer_def lost_done_def sms_exec_def sms_deliver_def sms_send_ready_def
        sms_operation_complete_normalized_error_def normalized_lost sms_normalized_def Let_def)
  then have accepted: "request_accepted (sms_sample_env 4 5) sms_sample_request (sms_exec lost_answer (sms_run 4))
      (so_modem op) sms_sample_digest"
    using lost_done_accepts f(1) by simp
  from unknown_outcome_not_resent [OF op [unfolded sms_run_def] f(2,3) _ unclear [unfolded sms_run_def]
      accepted [unfolded sms_run_def lost_answer_def] time] f
  show ?thesis by (simp add: sms_run_def lost_answer_def)
qed

end
