(* ===== verification/Network_Binding.thy ===== *)
theory Network_Binding
  imports Ascii
begin

text \<open>
  The interface section of the router's network configuration that belongs to a modem
  (\<open>network_binding.c\<close>): finding it, and writing the radio modes into it.

  libuci is the parameter \<open>'p uci\<close>: whether its context can be allocated and pointed at a
  directory, what loading a package gives (\<open>None\<close> for a failure or a missing package), the sections
  of a loaded package in their order, and what setting an option of a section and committing do. A
  section is its name, its type, whether it is anonymous, and the string each option looks up to.
\<close>

section \<open>Data\<close>

datatype network_binding_result = BINDING_ERROR | BINDING_NONE | BINDING_UNIQUE | BINDING_AMBIGUOUS

datatype network_mode_update_result = MODE_UPDATE_ERROR | MODE_UPDATE_NONE | MODE_UPDATE_OK
  | MODE_UPDATE_AMBIGUOUS | MODE_UPDATE_INVALID | MODE_UPDATE_VERIFY_FAILED

record network_binding =
  nb_section :: cstring
  nb_has_allowedmode :: bool
  nb_allowedmode :: cstring
  nb_has_preferredmode :: bool
  nb_preferredmode :: cstring
  nb_disable_modem :: bool
  nb_disable_modem_configured :: bool

record binding_scan =
  scan_matches :: u32
  scan_unsafe_match :: bool
  scan_candidate :: network_binding

record uci_section =
  us_name :: "cstring option"
  us_type :: "cstring option"
  us_anonymous :: bool
  us_option :: "cstring \<Rightarrow> cstring option"

record 'p uci =
  uci_alloc :: bool
  uci_set_confdir :: "cstring \<Rightarrow> bool"
  uci_set_conf2dir :: bool
  uci_load :: "cstring \<Rightarrow> 'p option"
  uci_sections :: "'p \<Rightarrow> uci_section list"
  uci_set :: "nat \<Rightarrow> cstring \<Rightarrow> cstring \<Rightarrow> 'p \<Rightarrow> 'p option"
  uci_commit :: "'p \<Rightarrow> 'p option"

definition NETWORK_SECTION_MAX :: nat where "NETWORK_SECTION_MAX = 64"
definition NETWORK_MODE_MAX :: nat where "NETWORK_MODE_MAX = 15"
definition NETWORK_DEVICE_MAX :: nat where "NETWORK_DEVICE_MAX = 4096"
definition NETWORK_CONFDIR_MAX :: nat where "NETWORK_CONFDIR_MAX = 4096"

section \<open>Checks\<close>

definition cleared_binding :: network_binding where
  "cleared_binding = \<lparr>nb_section = [], nb_has_allowedmode = False, nb_allowedmode = [],
     nb_has_preferredmode = False, nb_preferredmode = [], nb_disable_modem = True,
     nb_disable_modem_configured = False\<rparr>"

definition binding_bounded_length :: "cstring option \<Rightarrow> nat \<Rightarrow> nat option" where
  "binding_bounded_length value maximum =
     (case value of
        None \<Rightarrow> None
      | Some v \<Rightarrow> if length v \<le> maximum then Some (length v) else None)"

definition bounded_equal :: "cstring option \<Rightarrow> cstring option \<Rightarrow> nat \<Rightarrow> bool" where
  "bounded_equal left right maximum =
     (case (binding_bounded_length left maximum, binding_bounded_length right maximum) of
        (Some l, Some r) \<Rightarrow> l = r \<and> take l (the left) = take l (the right)
      | _ \<Rightarrow> False)"

definition section_char_is_safe :: "char \<Rightarrow> bool" where
  "section_char_is_safe c \<longleftrightarrow>
     (97 \<le> code c \<and> code c \<le> 122) \<or> (65 \<le> code c \<and> code c \<le> 90) \<or>
     (48 \<le> code c \<and> code c \<le> 57) \<or> c = CHR ''_''"

text \<open>The length of a safe name, \<open>None\<close> for any other.\<close>

definition section_name_is_safe :: "cstring option \<Rightarrow> nat option" where
  "section_name_is_safe name =
     (case binding_bounded_length name NETWORK_SECTION_MAX of
        None \<Rightarrow> None
      | Some len \<Rightarrow>
          if len = 0 then None
          else if list_all section_char_is_safe (take len (the name)) then Some len
          else None)"

text \<open>Only called with two characters left.\<close>

definition mode_token_bit :: "cstring \<Rightarrow> u8" where
  "mode_token_bit value =
     (if value ! 1 \<noteq> CHR ''g'' then 0
      else if value ! 0 = CHR ''2'' then push_bit 0 1
      else if value ! 0 = CHR ''3'' then push_bit 1 1
      else if value ! 0 = CHR ''4'' then push_bit 2 1
      else if value ! 0 = CHR ''5'' then push_bit 3 1
      else 0)"

text \<open>The loop over the tokens; the argument is the string from the offset on.\<close>

fun allowed_tokens :: "cstring \<Rightarrow> u8 \<Rightarrow> bool" where
  "allowed_tokens [] modes = True"
| "allowed_tokens [c] modes = False"
| "allowed_tokens (c # d # rest) modes =
     (let mode = mode_token_bit (c # d # rest) in
      if mode = 0 \<or> modes AND mode \<noteq> 0 then False
      else
        (case rest of
           [] \<Rightarrow> True
         | separator # rest' \<Rightarrow>
             if separator \<noteq> CHR ''|'' then False else allowed_tokens rest' (modes OR mode)))"

definition allowedmode_is_safe :: "cstring option \<Rightarrow> nat option" where
  "allowedmode_is_safe value =
     (case binding_bounded_length value NETWORK_MODE_MAX of
        None \<Rightarrow> None
      | Some len \<Rightarrow>
          if len = 0 \<or> (len = 3 \<and> take 3 (the value) = ''any'') then Some len
          else if allowed_tokens (the value) 0 then Some len
          else None)"

definition preferredmode_is_safe :: "cstring option \<Rightarrow> nat option" where
  "preferredmode_is_safe value =
     (case binding_bounded_length value NETWORK_MODE_MAX of
        None \<Rightarrow> None
      | Some len \<Rightarrow>
          if len = 0 \<or> (len = 4 \<and> take 4 (the value) = ''none'') \<or>
             (len = 2 \<and> mode_token_bit (the value) \<noteq> 0)
          then Some len else None)"

definition l850gl_network_modes_are_valid :: "cstring option \<Rightarrow> cstring option \<Rightarrow> bool" where
  "l850gl_network_modes_are_valid allowedmode preferredmode =
     (case (binding_bounded_length allowedmode NETWORK_MODE_MAX,
            binding_bounded_length preferredmode NETWORK_MODE_MAX) of
        (Some allowed_length, Some preferred_length) \<Rightarrow>
          (let combined = (allowed_length = 5 \<and> take 5 (the allowedmode) = ''3g|4g'') in
           if \<not> combined \<and> \<not> (allowed_length = 2 \<and> take 2 (the allowedmode) = ''3g'') \<and>
              \<not> (allowed_length = 2 \<and> take 2 (the allowedmode) = ''4g'')
           then False
           else if preferred_length = 4 \<and> take 4 (the preferredmode) = ''none'' then True
           else if \<not> combined then False
           else (preferred_length = 2 \<and> take 2 (the preferredmode) = ''3g'') \<or>
             (preferred_length = 2 \<and> take 2 (the preferredmode) = ''4g''))
      | _ \<Rightarrow> False)"

section \<open>The scan\<close>

definition copy_modes :: "cstring option \<Rightarrow> cstring option \<Rightarrow> network_binding \<Rightarrow> network_binding" where
  "copy_modes allowedmode preferredmode binding =
     (let b1 = (case allowedmode_is_safe allowedmode of
                  None \<Rightarrow> binding
                | Some len \<Rightarrow> binding\<lparr>nb_allowedmode := take len (the allowedmode), nb_has_allowedmode := True\<rparr>)
      in case preferredmode_is_safe preferredmode of
           None \<Rightarrow> b1
         | Some len \<Rightarrow> b1\<lparr>nb_preferredmode := take len (the preferredmode), nb_has_preferredmode := True\<rparr>)"

definition scan_consider :: "uci_section \<Rightarrow> cstring \<Rightarrow> binding_scan \<Rightarrow> binding_scan" where
  "scan_consider sec target_device scan =
     (if \<not> bounded_equal (us_type sec) (Some ''interface'') 9 \<or>
         \<not> bounded_equal (us_option sec ''proto'') (Some ''modemmanager'') 12 \<or>
         \<not> bounded_equal (us_option sec ''device'') (Some target_device) NETWORK_DEVICE_MAX
      then scan
      else
        (let scan1 = (if scan_matches scan < 2 then scan\<lparr>scan_matches := scan_matches scan + 1\<rparr> else scan) in
         case (us_anonymous sec, section_name_is_safe (us_name sec)) of
           (False, Some len) \<Rightarrow>
             if scan_matches scan1 \<noteq> 1 then scan1
             else
               (let c = copy_modes (us_option sec ''allowedmode'') (us_option sec ''preferredmode'')
                      (cleared_binding\<lparr>nb_section := take len (the (us_name sec))\<rparr>)
                in scan1\<lparr>scan_candidate := c
                     \<lparr>nb_disable_modem_configured := (us_option sec ''disable_modem'' \<noteq> None),
                      nb_disable_modem := (us_option sec ''disable_modem'' \<noteq> Some ''0'')\<rparr>\<rparr>)
         | _ \<Rightarrow> scan1\<lparr>scan_unsafe_match := True\<rparr>))"

definition scan_finish :: "binding_scan \<Rightarrow> network_binding \<Rightarrow> network_binding_result \<times> network_binding" where
  "scan_finish scan binding =
     (if scan_matches scan = 0 then (BINDING_NONE, binding)
      else if scan_matches scan \<noteq> 1 \<or> scan_unsafe_match scan then (BINDING_AMBIGUOUS, binding)
      else (BINDING_UNIQUE, scan_candidate scan))"

definition zero_scan :: binding_scan where
  "zero_scan = \<lparr>scan_matches = 0, scan_unsafe_match = False,
     scan_candidate = cleared_binding\<lparr>nb_disable_modem := False\<rparr>\<rparr>"

definition scan_sections :: "cstring \<Rightarrow> uci_section list \<Rightarrow> binding_scan" where
  "scan_sections device secs = fold (\<lambda>sec. scan_consider sec device) secs zero_scan"

text \<open>Whether the arguments are valid; the binding, when there is one, is cleared.\<close>

definition lookup_arguments_are_valid :: "cstring option \<Rightarrow> network_binding option \<Rightarrow> bool \<times> network_binding option" where
  "lookup_arguments_are_valid device binding =
     (case binding of
        None \<Rightarrow> (False, None)
      | Some b \<Rightarrow>
          (case binding_bounded_length device NETWORK_DEVICE_MAX of
             None \<Rightarrow> (False, Some cleared_binding)
           | Some len \<Rightarrow> (len \<noteq> 0, Some cleared_binding)))"

text \<open>The package name for a directory, \<open>None\<close> for a directory that is refused.\<close>

definition package_of :: "cstring option \<Rightarrow> cstring option" where
  "package_of confdir =
     (case confdir of
        None \<Rightarrow> Some ''network''
      | Some dir \<Rightarrow>
          (case binding_bounded_length confdir NETWORK_CONFDIR_MAX of
             None \<Rightarrow> None
           | Some len \<Rightarrow>
               if len = 0 \<or> dir ! 0 \<noteq> CHR ''/'' \<or> dir ! (len - 1) = CHR ''/'' then None
               else Some (dir @ ''/network'')))"

text \<open>The package loaded, \<open>None\<close> when the context, a directory or the load fails.\<close>

definition load_package :: "'p uci \<Rightarrow> cstring option \<Rightarrow> cstring \<Rightarrow> 'p option" where
  "load_package uci confdir package_name =
     (if \<not> uci_alloc uci then None
      else if (case confdir of None \<Rightarrow> False
               | Some dir \<Rightarrow> \<not> uci_set_confdir uci dir \<or> \<not> uci_set_conf2dir uci)
      then None
      else uci_load uci package_name)"

definition l850gl_network_binding_lookup_at ::
    "'p uci \<Rightarrow> cstring option \<Rightarrow> cstring option \<Rightarrow> network_binding option \<Rightarrow>
     network_binding_result \<times> network_binding option" where
  "l850gl_network_binding_lookup_at uci confdir device binding =
     (case lookup_arguments_are_valid device binding of
        (False, b) \<Rightarrow> (BINDING_ERROR, b)
      | (True, b) \<Rightarrow>
          (case package_of confdir of
             None \<Rightarrow> (BINDING_ERROR, b)
           | Some package_name \<Rightarrow>
               (case load_package uci confdir package_name of
                  None \<Rightarrow> (BINDING_ERROR, Some cleared_binding)
                | Some p \<Rightarrow>
                    (case scan_finish (scan_sections (the device) (uci_sections uci p)) (the b) of
                       (BINDING_UNIQUE, found) \<Rightarrow> (BINDING_UNIQUE, Some found)
                     | (result, found) \<Rightarrow> (result, Some cleared_binding)))))"

definition l850gl_network_binding_lookup ::
    "'p uci \<Rightarrow> cstring option \<Rightarrow> network_binding option \<Rightarrow> network_binding_result \<times> network_binding option" where
  "l850gl_network_binding_lookup uci device binding = l850gl_network_binding_lookup_at uci None device binding"

section \<open>Writing the modes\<close>

text \<open>The loop over the sections: the number of matches and the last one with the name, by its place.\<close>

fun exact_sections :: "cstring \<Rightarrow> cstring \<Rightarrow> nat \<Rightarrow> uci_section list \<Rightarrow> u32 \<Rightarrow> nat option \<Rightarrow> u32 \<times> nat option" where
  "exact_sections device section_name i [] matches found = (matches, found)"
| "exact_sections device section_name i (sec # secs) matches found =
     (if \<not> bounded_equal (us_type sec) (Some ''interface'') 9 \<or>
         \<not> bounded_equal (us_option sec ''proto'') (Some ''modemmanager'') 12 \<or>
         \<not> bounded_equal (us_option sec ''device'') (Some device) NETWORK_DEVICE_MAX
      then exact_sections device section_name (Suc i) secs matches found
      else if us_anonymous sec \<or> section_name_is_safe (us_name sec) = None \<or>
         \<not> bounded_equal (us_name sec) (Some section_name) NETWORK_SECTION_MAX
      then exact_sections device section_name (Suc i) secs (matches + 1) found
      else exact_sections device section_name (Suc i) secs (matches + 1) (Some i))"

definition find_exact_section :: "uci_section list \<Rightarrow> cstring \<Rightarrow> cstring \<Rightarrow> nat option" where
  "find_exact_section secs device section_name =
     (case exact_sections device section_name 0 secs 0 None of
        (matches, found) \<Rightarrow> if matches = 1 then found else None)"

text \<open>
  From the unique binding on: both options are set, committed and read back. The last component is
  the package as it was committed, when it was: what is on disk from then on.
\<close>

definition modes_write ::
    "'p uci \<Rightarrow> 'p \<Rightarrow> cstring \<Rightarrow> cstring \<Rightarrow> cstring \<Rightarrow> network_binding \<Rightarrow>
     network_mode_update_result \<times> network_binding \<times> 'p option" where
  "modes_write uci p device allowedmode preferredmode binding =
     (case find_exact_section (uci_sections uci p) device (nb_section binding) of
        None \<Rightarrow> (MODE_UPDATE_AMBIGUOUS, binding, None)
      | Some i \<Rightarrow>
          (case uci_set uci i ''allowedmode'' allowedmode p of
             None \<Rightarrow> (MODE_UPDATE_ERROR, binding, None)
           | Some p1 \<Rightarrow>
               (case uci_set uci i ''preferredmode'' preferredmode p1 of
                  None \<Rightarrow> (MODE_UPDATE_ERROR, binding, None)
                | Some p2 \<Rightarrow>
                    (case uci_commit uci p2 of
                       None \<Rightarrow> (MODE_UPDATE_VERIFY_FAILED, binding, None)
                     | Some p3 \<Rightarrow>
                         (case find_exact_section (uci_sections uci p3) device (nb_section binding) of
                            None \<Rightarrow> (MODE_UPDATE_VERIFY_FAILED, binding, Some p3)
                          | Some j \<Rightarrow>
                              (let sec = uci_sections uci p3 ! j in
                               if \<not> bounded_equal (us_option sec ''allowedmode'') (Some allowedmode) NETWORK_MODE_MAX \<or>
                                  \<not> bounded_equal (us_option sec ''preferredmode'') (Some preferredmode) NETWORK_MODE_MAX
                               then (MODE_UPDATE_VERIFY_FAILED, binding, Some p3)
                               else (MODE_UPDATE_OK,
                                 copy_modes (Some allowedmode) (Some preferredmode) binding, Some p3)))))))"

text \<open>The update, with what it committed.\<close>

definition modes_update_at ::
    "'p uci \<Rightarrow> cstring option \<Rightarrow> cstring option \<Rightarrow> cstring option \<Rightarrow> cstring option \<Rightarrow>
     network_binding option \<Rightarrow> network_mode_update_result \<times> network_binding option \<times> 'p option" where
  "modes_update_at uci confdir device allowedmode preferredmode binding =
     (case lookup_arguments_are_valid device binding of
        (ok, b) \<Rightarrow>
          if \<not> ok \<or> \<not> l850gl_network_modes_are_valid allowedmode preferredmode then (MODE_UPDATE_INVALID, b, None)
          else
            (case package_of confdir of
               None \<Rightarrow> (MODE_UPDATE_INVALID, b, None)
             | Some package_name \<Rightarrow>
                 (case load_package uci confdir package_name of
                    None \<Rightarrow> (MODE_UPDATE_ERROR, Some cleared_binding, None)
                  | Some p \<Rightarrow>
                      (case scan_finish (scan_sections (the device) (uci_sections uci p)) (the b) of
                         (BINDING_NONE, found) \<Rightarrow> (MODE_UPDATE_NONE, Some cleared_binding, None)
                       | (BINDING_AMBIGUOUS, found) \<Rightarrow> (MODE_UPDATE_AMBIGUOUS, Some cleared_binding, None)
                       | (BINDING_UNIQUE, found) \<Rightarrow>
                           (case modes_write uci p (the device) (the allowedmode) (the preferredmode) found of
                              (MODE_UPDATE_OK, written, disk) \<Rightarrow> (MODE_UPDATE_OK, Some written, disk)
                            | (result, written, disk) \<Rightarrow> (result, Some cleared_binding, disk))
                       | (BINDING_ERROR, found) \<Rightarrow> (MODE_UPDATE_ERROR, Some cleared_binding, None)))))"

definition l850gl_network_modes_update_at ::
    "'p uci \<Rightarrow> cstring option \<Rightarrow> cstring option \<Rightarrow> cstring option \<Rightarrow> cstring option \<Rightarrow>
     network_binding option \<Rightarrow> network_mode_update_result \<times> network_binding option" where
  "l850gl_network_modes_update_at uci confdir device allowedmode preferredmode binding =
     (case modes_update_at uci confdir device allowedmode preferredmode binding of
        (result, written, disk) \<Rightarrow> (result, written))"

definition l850gl_network_modes_update ::
    "'p uci \<Rightarrow> cstring option \<Rightarrow> cstring option \<Rightarrow> cstring option \<Rightarrow> network_binding option \<Rightarrow>
     network_mode_update_result \<times> network_binding option" where
  "l850gl_network_modes_update uci device allowedmode preferredmode binding =
     l850gl_network_modes_update_at uci None device allowedmode preferredmode binding"

section \<open>Lemmas\<close>

lemma bounded_equal_iff: "bounded_equal left (Some t) n \<longleftrightarrow> left = Some t \<and> length t \<le> n"
  by (auto simp: bounded_equal_def binding_bounded_length_def split: option.splits)

text \<open>The sections that belong to a device, and what the scan makes of one.\<close>

definition belongs :: "cstring \<Rightarrow> uci_section \<Rightarrow> bool" where
  "belongs device sec \<longleftrightarrow> us_type sec = Some ''interface'' \<and> us_option sec ''proto'' = Some ''modemmanager'' \<and>
     us_option sec ''device'' = Some device"

definition usable :: "uci_section \<Rightarrow> bool" where
  "usable sec \<longleftrightarrow> \<not> us_anonymous sec \<and>
     (case us_name sec of None \<Rightarrow> False
      | Some name \<Rightarrow> name \<noteq> [] \<and> length name \<le> NETWORK_SECTION_MAX \<and> list_all section_char_is_safe name)"

definition binding_of :: "uci_section \<Rightarrow> network_binding" where
  "binding_of sec =
     (let safe = (\<lambda>check value. case value of None \<Rightarrow> None | Some v \<Rightarrow> if check (Some v) = None then None else Some v);
          allowed = safe allowedmode_is_safe (us_option sec ''allowedmode'');
          preferred = safe preferredmode_is_safe (us_option sec ''preferredmode'')
      in \<lparr>nb_section = the (us_name sec),
          nb_has_allowedmode = (allowed \<noteq> None), nb_allowedmode = (case allowed of None \<Rightarrow> [] | Some v \<Rightarrow> v),
          nb_has_preferredmode = (preferred \<noteq> None), nb_preferredmode = (case preferred of None \<Rightarrow> [] | Some v \<Rightarrow> v),
          nb_disable_modem = (us_option sec ''disable_modem'' \<noteq> Some ''0''),
          nb_disable_modem_configured = (us_option sec ''disable_modem'' \<noteq> None)\<rparr>)"

lemma name_safe_iff:
  "section_name_is_safe (us_name sec) = Some n \<longleftrightarrow>
     (case us_name sec of None \<Rightarrow> False
      | Some name \<Rightarrow> n = length name \<and> name \<noteq> [] \<and> length name \<le> NETWORK_SECTION_MAX \<and>
          list_all section_char_is_safe name)"
  by (auto simp: section_name_is_safe_def binding_bounded_length_def split: option.splits)

lemma name_safe_usable:
  "\<not> us_anonymous sec \<Longrightarrow> usable sec \<Longrightarrow> section_name_is_safe (us_name sec) = Some (length (the (us_name sec)))"
  "\<not> us_anonymous sec \<Longrightarrow> \<not> usable sec \<Longrightarrow> section_name_is_safe (us_name sec) = None"
  by (auto simp: usable_def section_name_is_safe_def binding_bounded_length_def split: option.splits)

lemma mode_safe_length:
  "allowedmode_is_safe value = Some n \<Longrightarrow> value \<noteq> None \<and> n = length (the value)"
  "preferredmode_is_safe value = Some n \<Longrightarrow> value \<noteq> None \<and> n = length (the value)"
  by (auto simp: allowedmode_is_safe_def preferredmode_is_safe_def binding_bounded_length_def
      split: option.splits if_splits)

lemma mode_safe_None [simp]: "allowedmode_is_safe None = None" "preferredmode_is_safe None = None"
  by (simp_all add: allowedmode_is_safe_def preferredmode_is_safe_def binding_bounded_length_def)

lemma copy_modes_binding_of:
  "(copy_modes (us_option sec ''allowedmode'') (us_option sec ''preferredmode'')
      (cleared_binding\<lparr>nb_section := the (us_name sec)\<rparr>))
     \<lparr>nb_disable_modem_configured := (us_option sec ''disable_modem'' \<noteq> None),
      nb_disable_modem := (us_option sec ''disable_modem'' \<noteq> Some ''0'')\<rparr> = binding_of sec"
  by (auto simp: copy_modes_def binding_of_def cleared_binding_def Let_def dest: mode_safe_length
      split: option.split)

text \<open>The scan counts the sections that belong to the device, to at most two.\<close>

lemma scan_sections_sound:
  assumes "length device \<le> NETWORK_DEVICE_MAX"
  defines "mine \<equiv> filter (belongs device)"
  shows "scan_matches (scan_sections device secs) = of_nat (min 2 (length (mine secs))) \<and>
    scan_unsafe_match (scan_sections device secs) = list_ex (\<lambda>sec. \<not> usable sec) (mine secs) \<and>
    (\<forall>sec. mine secs = [sec] \<longrightarrow> usable sec \<longrightarrow> scan_candidate (scan_sections device secs) = binding_of sec)"
proof (induction secs rule: rev_induct)
  case Nil
  show ?case by (simp add: scan_sections_def zero_scan_def mine_def)
next
  case (snoc sec secs)
  let ?s = "scan_sections device secs" and ?n = "length (mine secs)"
  have step: "scan_sections device (secs @ [sec]) = scan_consider sec device ?s" by (simp add: scan_sections_def)
  have reject: "(\<not> bounded_equal (us_type sec) (Some ''interface'') 9 \<or>
      \<not> bounded_equal (us_option sec ''proto'') (Some ''modemmanager'') 12 \<or>
      \<not> bounded_equal (us_option sec ''device'') (Some device) NETWORK_DEVICE_MAX) = (\<not> belongs device sec)"
    using assms(1) by (auto simp: bounded_equal_iff belongs_def)
  show ?case
  proof (cases "belongs device sec")
    case False
    then have "scan_sections device (secs @ [sec]) = ?s" unfolding step scan_consider_def reject by simp
    moreover have "mine (secs @ [sec]) = mine secs" using False by (simp add: mine_def)
    ultimately show ?thesis using snoc by simp
  next
    case True
    have mine: "mine (secs @ [sec]) = mine secs @ [sec]" using True by (simp add: mine_def)
    let ?s1 = "if scan_matches ?s < 2 then ?s\<lparr>scan_matches := scan_matches ?s + 1\<rparr> else ?s"
    have n: "?n = 0 \<or> ?n = 1 \<or> 2 \<le> ?n" by linarith
    then have m: "scan_matches ?s1 = of_nat (min 2 (Suc ?n))" "scan_matches ?s1 = 1 \<longleftrightarrow> ?n = 0"
      using snoc by (auto simp: min_def)
    have rest: "scan_unsafe_match ?s1 = scan_unsafe_match ?s" "scan_candidate ?s1 = scan_candidate ?s" by simp_all
    show ?thesis
    proof (cases "usable sec")
      case False
      then have "scan_sections device (secs @ [sec]) = ?s1\<lparr>scan_unsafe_match := True\<rparr>"
        unfolding step scan_consider_def reject using True name_safe_usable(2) [of sec]
        by (cases "us_anonymous sec") (auto simp: Let_def split: option.split)
      then show ?thesis using m(1) False by (simp add: mine)
    next
      case usable: True
      then have an: "\<not> us_anonymous sec" by (simp add: usable_def)
      have "scan_sections device (secs @ [sec]) =
          (if scan_matches ?s1 \<noteq> 1 then ?s1 else ?s1\<lparr>scan_candidate := binding_of sec\<rparr>)"
        unfolding step scan_consider_def reject using True an name_safe_usable(1) [OF an usable]
        by (simp add: Let_def copy_modes_binding_of [unfolded not_None_eq])
      then show ?thesis using m rest snoc usable by (auto simp: mine)
    qed
  qed
qed

definition binding_spec :: "cstring \<Rightarrow> uci_section list \<Rightarrow> network_binding_result \<times> network_binding" where
  "binding_spec device secs =
     (case filter (belongs device) secs of
        [] \<Rightarrow> (BINDING_NONE, cleared_binding)
      | [sec] \<Rightarrow> if usable sec then (BINDING_UNIQUE, binding_of sec) else (BINDING_AMBIGUOUS, cleared_binding)
      | _ \<Rightarrow> (BINDING_AMBIGUOUS, cleared_binding))"

lemma scan_finish_spec:
  assumes "length device \<le> NETWORK_DEVICE_MAX"
  shows "scan_finish (scan_sections device secs) cleared_binding = binding_spec device secs"
proof -
  let ?m = "filter (belongs device) secs"
  note s = scan_sections_sound [OF assms, of secs]
  consider "?m = []" | sec where "?m = [sec]" | a b rest where "?m = a # b # rest"
    by (metis neq_Nil_conv)
  then show ?thesis
  proof cases
    case 1
    with s show ?thesis by (simp add: scan_finish_def binding_spec_def)
  next
    case 2
    with s show ?thesis by (simp add: scan_finish_def binding_spec_def)
  next
    case 3
    with s show ?thesis by (simp add: scan_finish_def binding_spec_def)
  qed
qed

section \<open>The mode grammar\<close>

definition mode_tokens :: "cstring list" where
  "mode_tokens = [''2g'', ''3g'', ''4g'', ''5g'']"

fun joined :: "cstring list \<Rightarrow> cstring" where
  "joined [] = []"
| "joined [t] = t"
| "joined (t # ts) = t @ ''|'' @ joined ts"

definition token_index :: "cstring \<Rightarrow> nat" where
  "token_index t = (if t = ''2g'' then 0 else if t = ''3g'' then 1 else if t = ''4g'' then 2 else 3)"

lemma token_bit:
  "mode_token_bit (c # d # rest) = (if [c, d] \<in> set mode_tokens then push_bit (token_index [c, d]) 1 else 0)"
  by (auto simp: mode_token_bit_def mode_tokens_def token_index_def)

lemma token_index_inj: "t \<in> set mode_tokens \<Longrightarrow> u \<in> set mode_tokens \<Longrightarrow> token_index t = token_index u \<longleftrightarrow> t = u"
  by (auto simp: mode_tokens_def token_index_def)

lemma token_bit_seen:
  "(modes :: u8) AND 2 ^ n = 0 \<longleftrightarrow> \<not> bit modes n"
  by (simp add: and_exp_eq_0_iff_not_bit)

lemma token_index_small: "token_index t < 8"
  by (simp add: token_index_def)

lemma joined_Cons: "ts \<noteq> [] \<Longrightarrow> joined (t # ts) = t @ ''|'' @ joined ts"
  by (cases ts) simp_all

text \<open>A list of distinct tokens not seen before, with or without a separator at its end.\<close>

definition token_list :: "u8 \<Rightarrow> cstring \<Rightarrow> bool" where
  "token_list modes v \<longleftrightarrow> (\<exists>ts. ts \<noteq> [] \<and> distinct ts \<and> set ts \<subseteq> set mode_tokens \<and>
     (\<forall>t \<in> set ts. \<not> bit modes (token_index t)) \<and> (v = joined ts \<or> v = joined ts @ ''|''))"

lemma mode_token_length: "t \<in> set mode_tokens \<Longrightarrow> \<exists>c d. t = [c, d]"
  by (auto simp: mode_tokens_def)

lemma token_list_Cons:
  "token_list modes (c # d # rest) \<longleftrightarrow> [c, d] \<in> set mode_tokens \<and> \<not> bit modes (token_index [c, d]) \<and>
     (rest = [] \<or> rest = ''|'' \<or>
      (\<exists>rest'. rest = CHR ''|'' # rest' \<and> token_list (modes OR push_bit (token_index [c, d]) 1) rest'))"
    (is "?l \<longleftrightarrow> ?r")
proof
  assume ?l
  then obtain ts where ts: "ts \<noteq> []" "distinct ts" "set ts \<subseteq> set mode_tokens"
    "\<forall>t \<in> set ts. \<not> bit modes (token_index t)" and v: "c # d # rest = joined ts \<or> c # d # rest = joined ts @ ''|''"
    by (auto simp: token_list_def)
  obtain t us where t: "ts = t # us" using ts(1) by (cases ts) auto
  obtain x y where xy: "t = [x, y]" using ts(3) t mode_token_length [of t] by auto
  show ?r
  proof (cases us)
    case Nil
    with v t xy ts show ?thesis by auto
  next
    case (Cons u ws)
    have cd: "[c, d] = t" and rest: "rest = CHR ''|'' # joined us \<or> rest = CHR ''|'' # joined us @ ''|''"
      using v t xy Cons by auto
    have "\<not> bit (modes OR push_bit (token_index [c, d]) 1) (token_index w)" if "w \<in> set us" for w
    proof -
      have "token_index w \<noteq> token_index t"
        using that ts t token_index_inj [of w t] by auto
      then show ?thesis using that ts(4) t cd by (auto simp: bit_or_iff bit_exp_iff)
    qed
    then have "token_list (modes OR push_bit (token_index [c, d]) 1) w" if "w = joined us \<or> w = joined us @ ''|''" for w
      unfolding token_list_def using that ts t Cons by (intro exI [of _ us]) auto
    with cd rest ts t show ?thesis by auto
  qed
next
  assume r: ?r
  show ?l
  proof (cases "rest = [] \<or> rest = ''|''")
    case True
    with r show ?thesis unfolding token_list_def by (intro exI [of _ "[[c, d]]"]) auto
  next
    case False
    with r obtain ts where ts: "ts \<noteq> []" "distinct ts" "set ts \<subseteq> set mode_tokens"
        "\<forall>t \<in> set ts. \<not> bit (modes OR push_bit (token_index [c, d]) 1) (token_index t)"
      and rest: "rest = CHR ''|'' # joined ts \<or> rest = CHR ''|'' # joined ts @ ''|''"
      by (auto simp: token_list_def)
    have "\<forall>t \<in> set ts. \<not> bit modes (token_index t) \<and> t \<noteq> [c, d]"
      using ts(4) token_index_small by (auto simp: bit_or_iff bit_exp_iff)
    then show ?thesis
      unfolding token_list_def using r ts rest
      by (intro exI [of _ "[c, d] # ts"]) (auto simp: joined_Cons)
  qed
qed

lemma allowed_tokens_exact: "allowed_tokens v modes \<longleftrightarrow> v = [] \<or> token_list modes v"
proof (induction v modes rule: allowed_tokens.induct)
  case (2 c modes)
  have "\<not> token_list modes [c]"
  proof
    assume "token_list modes [c]"
    then obtain ts where "ts \<noteq> []" "set ts \<subseteq> set mode_tokens" "[c] = joined ts \<or> [c] = joined ts @ ''|''"
      by (auto simp: token_list_def)
    then show False
      using mode_token_length [of "hd ts"] by (cases ts; cases "tl ts") auto
  qed
  then show ?case by simp
next
  case (3 c d rest modes)
  show ?case
  proof (cases "[c, d] \<in> set mode_tokens \<and> \<not> bit modes (token_index [c, d])")
    case True
    have nz: "push_bit (token_index [c, d]) (1 :: u8) \<noteq> 0"
      by (simp add: token_index_def)
    have "allowed_tokens (c # d # rest) modes \<longleftrightarrow> (rest = [] \<or> (\<exists>rest'. rest = CHR ''|'' # rest' \<and>
        allowed_tokens rest' (modes OR push_bit (token_index [c, d]) 1)))"
      using True nz by (cases rest) (simp_all add: token_bit token_bit_seen Let_def)
    then show ?thesis
      using True 3 nz unfolding token_list_Cons
      by (cases rest) (auto simp: token_bit token_bit_seen Let_def)
  next
    case False
    then show ?thesis by (auto simp: token_bit token_bit_seen token_list_Cons Let_def)
  qed
qed simp

lemma joined_length: "set ts \<subseteq> set mode_tokens \<Longrightarrow> length (joined ts) \<le> 3 * length ts"
  by (induction ts rule: joined.induct) (auto simp: mode_tokens_def)

lemma token_list_length:
  assumes "token_list modes v"
  shows "length v \<le> 13"
proof -
  obtain ts where ts: "distinct ts" "set ts \<subseteq> set mode_tokens" "v = joined ts \<or> v = joined ts @ ''|''"
    using assms by (auto simp: token_list_def)
  have "length ts = card (set ts)" using ts(1) by (simp add: distinct_card)
  also have "\<dots> \<le> card (set mode_tokens)" using ts(2) by (intro card_mono) simp_all
  also have "\<dots> = 4" by (simp add: mode_tokens_def)
  finally show ?thesis using joined_length [OF ts(2)] ts(3) by auto
qed

lemma exactly_one: "length secs = Suc 0 \<longleftrightarrow> (\<exists>s. secs = [s])"
  by (cases secs) auto

lemma valid_modes:
  "l850gl_network_modes_are_valid (Some allowed) (Some preferred) \<longleftrightarrow>
     (allowed, preferred) \<in> {(''3g'', ''none''), (''4g'', ''none''), (''3g|4g'', ''none''),
       (''3g|4g'', ''3g''), (''3g|4g'', ''4g'')}"
  by (auto simp: l850gl_network_modes_are_valid_def binding_bounded_length_def NETWORK_MODE_MAX_def Let_def)

lemma valid_modes_copied:
  assumes "l850gl_network_modes_are_valid (Some allowed) (Some preferred)"
  shows "copy_modes (Some allowed) (Some preferred) b = b\<lparr>nb_allowedmode := allowed, nb_has_allowedmode := True,
    nb_preferredmode := preferred, nb_has_preferredmode := True\<rparr>"
proof -
  have "allowedmode_is_safe (Some allowed) = Some (length allowed)"
    "preferredmode_is_safe (Some preferred) = Some (length preferred)"
    using assms unfolding valid_modes
    by (auto simp: allowedmode_is_safe_def preferredmode_is_safe_def binding_bounded_length_def
        NETWORK_MODE_MAX_def mode_token_bit_def)
  then show ?thesis by (simp add: copy_modes_def)
qed

text \<open>What the exact search finds.\<close>

lemma exact_sections_sound:
  fixes device name
  assumes "length device \<le> NETWORK_DEVICE_MAX"
  defines "hit \<equiv> \<lambda>sec. belongs device sec \<and> usable sec \<and> us_name sec = Some name"
  shows "exact_sections device name i secs matches found =
    (matches + of_nat (length (filter (belongs device) secs)),
     fold (\<lambda>j acc. if hit (secs ! j) then Some (i + j) else acc) [0..<length secs] found)"
proof (induction secs arbitrary: i matches found)
  case (Cons sec secs)
  have step: "[0..<length (sec # secs)] = 0 # map Suc [0..<length secs]"
    by (simp add: upt_conv_Cons map_Suc_upt del: upt_Suc)
  have match: "(\<not> bounded_equal (us_type sec) (Some ''interface'') 9 \<or>
      \<not> bounded_equal (us_option sec ''proto'') (Some ''modemmanager'') 12 \<or>
      \<not> bounded_equal (us_option sec ''device'') (Some device) NETWORK_DEVICE_MAX) = (\<not> belongs device sec)"
    using assms(1) by (auto simp: bounded_equal_iff belongs_def)
  have name: "(us_anonymous sec \<or> section_name_is_safe (us_name sec) = None \<or>
      \<not> bounded_equal (us_name sec) (Some name) NETWORK_SECTION_MAX) = (\<not> (usable sec \<and> us_name sec = Some name))"
    by (cases "us_anonymous sec"; cases "usable sec")
      (auto simp: bounded_equal_iff usable_def section_name_is_safe_def binding_bounded_length_def split: option.splits)
  show ?case
    unfolding exact_sections.simps match name step
    by (auto simp: Cons fold_map comp_def hit_def algebra_simps)
qed simp

lemma last_hit:
  "fold (\<lambda>j acc. if P j then Some j else acc) [0..<n] None = Some i \<Longrightarrow> i < n \<and> P i"
  "j < n \<Longrightarrow> P j \<Longrightarrow> fold (\<lambda>j acc. if P j then Some j else acc) [0..<n] None \<noteq> None"
  by (induction n arbitrary: i) (auto simp: less_Suc_eq split: if_splits)

lemma of_nat_one:
  assumes "n < 2 ^ 32"
  shows "(of_nat n :: u32) = 1 \<longleftrightarrow> n = 1"
  using of_nat_word_inject [where 'a = 32, of n 1] assms by simp

lemma filter_one_nth:
  assumes "length (filter P xs) = 1" and "i < length xs" and "P (xs ! i)"
  shows "filter P xs = [xs ! i]"
proof -
  have "xs ! i \<in> set (filter P xs)" using assms(2,3) by simp
  then show ?thesis using assms(1) by (cases "filter P xs") (auto simp: length_Suc_conv)
qed

lemma find_exact_complete:
  assumes dev: "length device \<le> NETWORK_DEVICE_MAX"
    and "filter (belongs device) secs = [sec]" and "usable sec" and "us_name sec = Some name"
  shows "\<exists>i < length secs. find_exact_section secs device name = Some i \<and> secs ! i = sec"
proof -
  let ?hit = "\<lambda>j. belongs device (secs ! j) \<and> usable (secs ! j) \<and> us_name (secs ! j) = Some name"
  have "sec \<in> set secs" "belongs device sec" using assms(2) by (auto simp: filter_eq_Cons_iff)
  then obtain j where j: "j < length secs" "secs ! j = sec" by (auto simp: in_set_conv_nth)
  with last_hit(2) [of j "length secs" ?hit] assms \<open>belongs device sec\<close>
  obtain i where i: "fold (\<lambda>j acc. if ?hit j then Some j else acc) [0..<length secs] None = Some i" by auto
  have "secs ! i \<in> set (filter (belongs device) secs)" using last_hit(1) [OF i] by simp
  then have "secs ! i = sec" using assms(2) by simp
  then show ?thesis
    using i last_hit(1) [OF i] assms(2) by (auto simp: find_exact_section_def exact_sections_sound [OF dev])
qed

section \<open>Properties\<close>

text \<open>C30: The binding of a modem is found exactly. Whatever the configuration, the lookup reports a
  unique binding exactly when one and only one interface section with ModemManager's protocol names
  the modem's device and that section has a safe name, and then returns its name, its well-formed
  modes and its disable flag; no matching section is none, anything else is ambiguous, invalid
  arguments and failures of the configuration library are errors, and every result but the unique
  one comes with the cleared binding.\<close>

theorem network_lookup_exact:
  "l850gl_network_binding_lookup_at uci confdir (Some device) (Some before) =
     (if device = [] \<or> NETWORK_DEVICE_MAX < length device then (BINDING_ERROR, Some cleared_binding)
      else
        (case package_of confdir of
           None \<Rightarrow> (BINDING_ERROR, Some cleared_binding)
         | Some name \<Rightarrow>
             (case load_package uci confdir name of
                None \<Rightarrow> (BINDING_ERROR, Some cleared_binding)
              | Some p \<Rightarrow> map_prod id Some (binding_spec device (uci_sections uci p)))))"
proof (cases "device = [] \<or> NETWORK_DEVICE_MAX < length device")
  case True
  then show ?thesis
    by (auto simp: l850gl_network_binding_lookup_at_def lookup_arguments_are_valid_def binding_bounded_length_def)
next
  case False
  then have dev: "length device \<le> NETWORK_DEVICE_MAX" by simp
  have cleared: "snd (binding_spec device secs) = cleared_binding"
    if "fst (binding_spec device secs) \<noteq> BINDING_UNIQUE" for secs
    using that by (auto simp: binding_spec_def split: list.splits if_splits)
  have "(case binding_spec device secs of (BINDING_UNIQUE, found) \<Rightarrow> (BINDING_UNIQUE, Some found)
      | (result, found) \<Rightarrow> (result, Some cleared_binding)) = map_prod id Some (binding_spec device secs)" for secs
    using cleared [of secs] by (cases "binding_spec device secs"; cases "fst (binding_spec device secs)") auto
  with False show ?thesis
    by (auto simp: l850gl_network_binding_lookup_at_def lookup_arguments_are_valid_def binding_bounded_length_def
        scan_finish_spec [OF dev] split: option.split)
qed

text \<open>C31: The modes read from the configuration follow a narrow grammar: an allowed mode is empty,
  \<open>any\<close>, or a list of different generations separated by bars, and nothing else; the list may end
  in a bar. A preferred mode is empty, \<open>none\<close> or one generation.\<close>

theorem mode_grammar_exact:
  "(allowedmode_is_safe (Some v) =
      (if v = [] \<or> v = ''any'' \<or> (\<exists>ts. ts \<noteq> [] \<and> distinct ts \<and> set ts \<subseteq> set mode_tokens \<and>
          (v = joined ts \<or> v = joined ts @ ''|'')) then Some (length v) else None)) \<and>
   (preferredmode_is_safe (Some v) =
      (if v = [] \<or> v = ''none'' \<or> v \<in> set mode_tokens then Some (length v) else None))"
proof
  have list: "token_list 0 v \<longleftrightarrow> (\<exists>ts. ts \<noteq> [] \<and> distinct ts \<and> set ts \<subseteq> set mode_tokens \<and>
      (v = joined ts \<or> v = joined ts @ ''|''))" by (simp add: token_list_def)
  have "length v \<le> 15" if "v = [] \<or> v = ''any'' \<or> token_list 0 v"
    using that token_list_length [of 0 v] by auto
  then show "allowedmode_is_safe (Some v) =
      (if v = [] \<or> v = ''any'' \<or> (\<exists>ts. ts \<noteq> [] \<and> distinct ts \<and> set ts \<subseteq> set mode_tokens \<and>
          (v = joined ts \<or> v = joined ts @ ''|'')) then Some (length v) else None)"
    unfolding list [symmetric]
    by (auto simp: allowedmode_is_safe_def binding_bounded_length_def NETWORK_MODE_MAX_def allowed_tokens_exact)
  have tok: "v \<in> set mode_tokens \<longleftrightarrow> length v = 2 \<and> mode_token_bit v \<noteq> 0"
  proof (cases "length v = 2")
    case True
    then obtain c d where "v = [c, d]" by (auto simp: length_Suc_conv numeral_2_eq_2)
    then show ?thesis using token_bit [of c d "[]"] by (simp add: token_index_def)
  qed (auto simp: mode_tokens_def)
  show "preferredmode_is_safe (Some v) =
      (if v = [] \<or> v = ''none'' \<or> v \<in> set mode_tokens then Some (length v) else None)"
    unfolding tok
    by (auto simp: preferredmode_is_safe_def binding_bounded_length_def NETWORK_MODE_MAX_def)
qed

lemma find_exact_sound:
  assumes dev: "length device \<le> NETWORK_DEVICE_MAX" and len: "length (filter (belongs device) secs) < 2 ^ 32"
    and find: "find_exact_section secs device name = Some i"
  shows "i < length secs \<and> filter (belongs device) secs = [secs ! i] \<and> us_name (secs ! i) = Some name"
proof -
  let ?hit = "\<lambda>j. belongs device (secs ! j) \<and> usable (secs ! j) \<and> us_name (secs ! j) = Some name"
  have "(of_nat (length (filter (belongs device) secs)) :: u32) = 1"
    and hit: "fold (\<lambda>j acc. if ?hit j then Some j else acc) [0..<length secs] None = Some i"
    using find by (auto simp: find_exact_section_def exact_sections_sound [OF dev] split: if_splits)
  then have one: "length (filter (belongs device) secs) = 1" using len by (simp only: of_nat_one)
  from last_hit(1) [OF hit] show ?thesis using filter_one_nth [OF one] by blast
qed

lemma binding_spec_unique:
  "binding_spec device secs = (BINDING_UNIQUE, b) \<longleftrightarrow>
     (\<exists>sec. filter (belongs device) secs = [sec] \<and> usable sec \<and> b = binding_of sec)"
  by (auto simp: binding_spec_def split: list.splits)

lemma usable_name: "usable sec \<Longrightarrow> us_name sec = Some (nb_section (binding_of sec))"
  by (auto simp: usable_def binding_of_def Let_def split: option.splits)

text \<open>The update, from the arguments down to the writing.\<close>

lemma update_unfold:
  assumes "device \<noteq> []" and dev: "length device \<le> NETWORK_DEVICE_MAX"
    and valid: "l850gl_network_modes_are_valid (Some allowed) (Some preferred)"
    and "package_of confdir = Some name" and "load_package uci confdir name = Some p"
  shows "modes_update_at uci confdir (Some device) (Some allowed) (Some preferred) (Some before) =
    (case binding_spec device (uci_sections uci p) of
       (BINDING_NONE, found) \<Rightarrow> (MODE_UPDATE_NONE, Some cleared_binding, None)
     | (BINDING_AMBIGUOUS, found) \<Rightarrow> (MODE_UPDATE_AMBIGUOUS, Some cleared_binding, None)
     | (BINDING_UNIQUE, found) \<Rightarrow>
         (case modes_write uci p device allowed preferred found of
            (MODE_UPDATE_OK, written, disk) \<Rightarrow> (MODE_UPDATE_OK, Some written, disk)
          | (result, written, disk) \<Rightarrow> (result, Some cleared_binding, disk))
     | (BINDING_ERROR, found) \<Rightarrow> (MODE_UPDATE_ERROR, Some cleared_binding, None))"
  unfolding modes_update_at_def option.sel using assms
  by (simp add: lookup_arguments_are_valid_def binding_bounded_length_def scan_finish_spec [OF dev])

lemma update_ok_arguments:
  assumes "l850gl_network_modes_update_at uci confdir (Some device) (Some allowed) (Some preferred) (Some before) =
    (MODE_UPDATE_OK, Some written)"
  shows "device \<noteq> []" and "length device \<le> NETWORK_DEVICE_MAX"
    and "l850gl_network_modes_are_valid (Some allowed) (Some preferred)"
    and "\<exists>name p. package_of confdir = Some name \<and> load_package uci confdir name = Some p"
  using assms
  by (auto simp: l850gl_network_modes_update_at_def modes_update_at_def lookup_arguments_are_valid_def
      binding_bounded_length_def split: if_splits option.splits)

text \<open>C28: A mode change is reported as done only when it is. After the result OK the modes are one of
  the five pairs the modem can have; the section changed is the only one that belonged to the
  device, only the two mode options were set, once each, and the result was committed; and the
  configuration read back after the commit has exactly one section for the device, the one reported, with exactly the modes asked for.\<close>

theorem network_update_verified:
  assumes ok: "l850gl_network_modes_update_at uci confdir (Some device) (Some allowed) (Some preferred) (Some before) =
      (MODE_UPDATE_OK, Some written)"
    and small: "\<And>p p'. uci_commit uci p = Some p' \<Longrightarrow> length (filter (belongs device) (uci_sections uci p')) < 2 ^ 32"
  shows "\<exists>name p i p1 p2 p3 sec. package_of confdir = Some name \<and> load_package uci confdir name = Some p \<and>
    filter (belongs device) (uci_sections uci p) = [uci_sections uci p ! i] \<and>
    uci_set uci i ''allowedmode'' allowed p = Some p1 \<and> uci_set uci i ''preferredmode'' preferred p1 = Some p2 \<and>
    uci_commit uci p2 = Some p3 \<and>
    modes_update_at uci confdir (Some device) (Some allowed) (Some preferred) (Some before) = (MODE_UPDATE_OK, Some written, Some p3) \<and>
    filter (belongs device) (uci_sections uci p3) = [sec] \<and>
    us_name sec = Some (nb_section written) \<and> us_option sec ''allowedmode'' = Some allowed \<and>
    us_option sec ''preferredmode'' = Some preferred \<and> nb_allowedmode written = allowed \<and>
    nb_preferredmode written = preferred \<and>
    (allowed, preferred) \<in> {(''3g'', ''none''), (''4g'', ''none''), (''3g|4g'', ''none''), (''3g|4g'', ''3g''), (''3g|4g'', ''4g'')}"
proof -
  note args = update_ok_arguments [OF ok]
  obtain name p where load: "package_of confdir = Some name" "load_package uci confdir name = Some p"
    using args(4) by blast
  obtain disk where run: "modes_update_at uci confdir (Some device) (Some allowed) (Some preferred) (Some before) =
      (MODE_UPDATE_OK, Some written, disk)"
    using ok by (auto simp: l850gl_network_modes_update_at_def split: prod.splits)
  then obtain found where spec: "binding_spec device (uci_sections uci p) = (BINDING_UNIQUE, found)"
    and wr: "modes_write uci p device allowed preferred found = (MODE_UPDATE_OK, written, disk)"
    unfolding update_unfold [OF args(1-3) load]
    by (auto split: prod.splits network_binding_result.splits network_mode_update_result.splits)
  have one: "length (filter (belongs device) (uci_sections uci p)) < 2 ^ 32"
    using spec unfolding binding_spec_unique by auto
  from wr obtain i p1 p2 p3 j where i: "find_exact_section (uci_sections uci p) device (nb_section found) = Some i"
    and w: "uci_set uci i ''allowedmode'' allowed p = Some p1" "uci_set uci i ''preferredmode'' preferred p1 = Some p2"
      "uci_commit uci p2 = Some p3"
    and j: "find_exact_section (uci_sections uci p3) device (nb_section found) = Some j"
    and shown: "bounded_equal (us_option (uci_sections uci p3 ! j) ''allowedmode'') (Some allowed) NETWORK_MODE_MAX"
      "bounded_equal (us_option (uci_sections uci p3 ! j) ''preferredmode'') (Some preferred) NETWORK_MODE_MAX"
    and written: "written = copy_modes (Some allowed) (Some preferred) found"
    by (auto simp: modes_write_def Let_def split: option.splits if_splits) metis
  have disk: "disk = Some p3"
    using wr i w j shown by (simp add: modes_write_def Let_def)
  note written' = written [unfolded valid_modes_copied [OF args(3)]]
  from find_exact_sound [OF args(2) one i] find_exact_sound [OF args(2) small [OF w(3)] j] shown args(3) load w run
  show ?thesis unfolding valid_modes written' disk by (auto simp: bounded_equal_iff)
qed

lemma lookup_unique:
  assumes "l850gl_network_binding_lookup_at uci confdir (Some device) (Some before) = (BINDING_UNIQUE, Some found)"
  shows "device \<noteq> []" and "length device \<le> NETWORK_DEVICE_MAX"
    and "\<exists>name p. package_of confdir = Some name \<and> load_package uci confdir name = Some p \<and>
      binding_spec device (uci_sections uci p) = (BINDING_UNIQUE, found)"
proof -
  show *: "device \<noteq> []" "length device \<le> NETWORK_DEVICE_MAX"
    using assms
    by (auto simp: l850gl_network_binding_lookup_at_def lookup_arguments_are_valid_def binding_bounded_length_def split: if_splits)
  then obtain name p where load: "package_of confdir = Some name" "load_package uci confdir name = Some p"
    using assms
    by (auto simp: l850gl_network_binding_lookup_at_def lookup_arguments_are_valid_def binding_bounded_length_def
        split: option.splits)
  with assms * have "binding_spec device (uci_sections uci p) = (BINDING_UNIQUE, found)"
    by (auto simp: l850gl_network_binding_lookup_at_def lookup_arguments_are_valid_def binding_bounded_length_def
        scan_finish_spec [OF *(2)] split: prod.splits network_binding_result.splits)
  with load show "\<exists>name p. package_of confdir = Some name \<and> load_package uci confdir name = Some p \<and>
      binding_spec device (uci_sections uci p) = (BINDING_UNIQUE, found)" by blast
qed

lemma filter_update_one:
  assumes "filter P xs = [xs ! i]" and i: "i < length xs" and "P y"
  shows "filter P (xs[i := y]) = [y]"
proof -
  have "P (xs ! i)" using assms(1) by (auto simp: filter_eq_Cons_iff)
  moreover have "filter P (take i xs) @ filter P [xs ! i] @ filter P (drop (Suc i) xs) = [xs ! i]"
    using assms(1) id_take_nth_drop [OF i] by (metis append_Cons append_Nil filter_append)
  ultimately have "filter P (take i xs) = []" "filter P (drop (Suc i) xs) = []"
    by (auto simp: append_eq_Cons_conv)
  then show ?thesis using assms(3) by (simp add: upd_conv_take_nth_drop [OF i])
qed

text \<open>C29: A valid mode change on a bound modem succeeds and changes nothing else, if the configuration
  library does what it documents: setting an option changes that option of that section, and
  committing keeps the package. What is committed is the package that was loaded, with the two
  mode options of the one section of the device set to the modes asked for, and nothing else
  changed: no other option of that section and no other section.\<close>

theorem network_update_succeeds:
  assumes valid: "l850gl_network_modes_are_valid (Some allowed) (Some preferred)"
    and lookup: "l850gl_network_binding_lookup_at uci confdir (Some device) (Some before) = (BINDING_UNIQUE, Some found)"
    and sets: "\<And>p i option v. i < length (uci_sections uci p) \<Longrightarrow> \<exists>p'. uci_set uci i option v p = Some p' \<and>
      uci_sections uci p' = (uci_sections uci p)[i := (uci_sections uci p ! i)
        \<lparr>us_option := (us_option (uci_sections uci p ! i))(option \<mapsto> v)\<rparr>]"
    and commits: "\<And>p. \<exists>p'. uci_commit uci p = Some p' \<and> uci_sections uci p' = uci_sections uci p"
  shows "\<exists>name p i sec disk. package_of confdir = Some name \<and> load_package uci confdir name = Some p \<and>
    i < length (uci_sections uci p) \<and> uci_sections uci p ! i = sec \<and> filter (belongs device) (uci_sections uci p) = [sec] \<and>
    modes_update_at uci confdir (Some device) (Some allowed) (Some preferred) (Some before') =
      (MODE_UPDATE_OK, Some (found\<lparr>nb_allowedmode := allowed, nb_has_allowedmode := True,
        nb_preferredmode := preferred, nb_has_preferredmode := True\<rparr>), Some disk) \<and>
    uci_sections uci disk = (uci_sections uci p)[i := sec\<lparr>us_option :=
      (us_option sec)(''allowedmode'' \<mapsto> allowed, ''preferredmode'' \<mapsto> preferred)\<rparr>] \<and>
    l850gl_network_modes_update_at uci confdir (Some device) (Some allowed) (Some preferred) (Some before') =
      (MODE_UPDATE_OK, Some (found\<lparr>nb_allowedmode := allowed, nb_has_allowedmode := True,
        nb_preferredmode := preferred, nb_has_preferredmode := True\<rparr>))"
proof -
  note dev = lookup_unique(1,2) [OF lookup]
  obtain name p where load: "package_of confdir = Some name" "load_package uci confdir name = Some p"
    and spec: "binding_spec device (uci_sections uci p) = (BINDING_UNIQUE, found)"
    using lookup_unique(3) [OF lookup] by blast
  obtain sec where sec: "filter (belongs device) (uci_sections uci p) = [sec]" "usable sec" "found = binding_of sec"
    using spec unfolding binding_spec_unique by blast
  let ?secs = "uci_sections uci p"
  from find_exact_complete [OF dev(2) sec(1,2) usable_name [OF sec(2)]] sec(3)
  obtain i where i: "i < length ?secs" "find_exact_section ?secs device (nb_section found) = Some i" "?secs ! i = sec"
    by auto
  let ?s1 = "sec\<lparr>us_option := (us_option sec)(''allowedmode'' \<mapsto> allowed)\<rparr>"
  let ?s2 = "?s1\<lparr>us_option := (us_option ?s1)(''preferredmode'' \<mapsto> preferred)\<rparr>"
  obtain p1 where p1: "uci_set uci i ''allowedmode'' allowed p = Some p1" "uci_sections uci p1 = ?secs[i := ?s1]"
    using sets [OF i(1)] i(3) by auto
  obtain p2 where p2: "uci_set uci i ''preferredmode'' preferred p1 = Some p2" "uci_sections uci p2 = ?secs[i := ?s2]"
    using sets [of i p1] i p1(2) by auto
  obtain p3 where p3: "uci_commit uci p2 = Some p3" "uci_sections uci p3 = ?secs[i := ?s2]"
    using commits [of p2] p2(2) by auto
  have mine: "belongs device ?s2" using sec(1) by (auto simp: belongs_def filter_eq_Cons_iff)
  have "filter (belongs device) (?secs[i := ?s2]) = [?s2]"
    using filter_update_one [where P = "belongs device" and xs = ?secs and i = i and y = ?s2] sec(1) i mine by simp
  moreover have "usable ?s2" "us_name ?s2 = Some (nb_section found)"
    using sec(2,3) usable_name [OF sec(2)] by (simp_all add: usable_def)
  ultimately obtain j where "find_exact_section (?secs[i := ?s2]) device (nb_section found) = Some j" "?secs[i := ?s2] ! j = ?s2"
    using find_exact_complete [OF dev(2)] by blast
  moreover have "length allowed \<le> NETWORK_MODE_MAX" "length preferred \<le> NETWORK_MODE_MAX"
    using valid unfolding valid_modes by (auto simp: NETWORK_MODE_MAX_def)
  ultimately have "modes_write uci p device allowed preferred found =
      (MODE_UPDATE_OK, copy_modes (Some allowed) (Some preferred) found, Some p3)"
    using i(2) p1(1) p2(1) p3 by (simp add: modes_write_def bounded_equal_iff Let_def)
  then have run: "modes_update_at uci confdir (Some device) (Some allowed) (Some preferred) (Some before') =
      (MODE_UPDATE_OK, Some (found\<lparr>nb_allowedmode := allowed, nb_has_allowedmode := True,
        nb_preferredmode := preferred, nb_has_preferredmode := True\<rparr>), Some p3)"
    using update_unfold [OF dev valid load, of before'] spec by (simp add: valid_modes_copied [OF valid])
  show ?thesis
    unfolding l850gl_network_modes_update_at_def
    by (rule exI [of _ name], rule exI [of _ p], rule exI [of _ i], rule exI [of _ sec], rule exI [of _ p3])
      (use load i sec(1) p3(2) run in simp)
qed

text \<open>A configuration with one bound section, under a library that keeps at most sixty-four.\<close>

definition sample_section :: uci_section where
  "sample_section = \<lparr>us_name = Some ''wwan'', us_type = Some ''interface'', us_anonymous = False,
     us_option = [''proto'' \<mapsto> ''modemmanager'', ''device'' \<mapsto> ''/sys/devices/usb1'', ''allowedmode'' \<mapsto> ''4g'']\<rparr>"

definition sample_uci :: "uci_section list uci" where
  "sample_uci = \<lparr>uci_alloc = True, uci_set_confdir = (\<lambda>_. True), uci_set_conf2dir = True,
     uci_load = (\<lambda>_. Some [sample_section]), uci_sections = take 64,
     uci_set = (\<lambda>i option v p. Some (p[i := (p ! i)\<lparr>us_option := (us_option (p ! i))(option \<mapsto> v)\<rparr>])),
     uci_commit = Some\<rparr>"

definition sample_written :: network_binding where
  "sample_written = \<lparr>nb_section = ''wwan'', nb_has_allowedmode = True, nb_allowedmode = ''3g|4g'',
     nb_has_preferredmode = True, nb_preferredmode = ''4g'', nb_disable_modem = True,
     nb_disable_modem_configured = False\<rparr>"

lemma sample_uci_update:
  "l850gl_network_modes_update_at sample_uci None (Some ''/sys/devices/usb1'') (Some ''3g|4g'') (Some ''4g'') (Some cleared_binding) =
     (MODE_UPDATE_OK, Some sample_written)"
  by code_simp

theorem network_update_verified_witness:
  "\<exists>p3 sec. filter (belongs ''/sys/devices/usb1'') (uci_sections sample_uci p3) = [sec] \<and>
     us_option sec ''allowedmode'' = Some ''3g|4g''"
proof -
  have "length (filter (belongs ''/sys/devices/usb1'') (uci_sections sample_uci p')) < 2 ^ 32" for p'
    using length_filter_le [of "belongs ''/sys/devices/usb1''" "take 64 p'"] by (simp add: sample_uci_def)
  from network_update_verified [OF sample_uci_update this] show ?thesis by blast
qed

theorem network_update_succeeds_witness:
  "fst (l850gl_network_modes_update_at sample_uci None (Some ''/sys/devices/usb1'') (Some ''4g'') (Some ''none'') (Some cleared_binding)) =
     MODE_UPDATE_OK \<and>
   (\<exists>p sec disk. filter (belongs ''/sys/devices/usb1'') (uci_sections sample_uci p) = [sec] \<and>
      sec\<lparr>us_option := (us_option sec)(''allowedmode'' \<mapsto> ''4g'', ''preferredmode'' \<mapsto> ''none'')\<rparr> \<in>
        set (uci_sections sample_uci disk))"
proof -
  have valid: "l850gl_network_modes_are_valid (Some ''4g'') (Some ''none'')" by code_simp
  obtain found where lookup: "l850gl_network_binding_lookup_at sample_uci None (Some ''/sys/devices/usb1'') (Some cleared_binding) =
      (BINDING_UNIQUE, Some found)"
  proof -
    have "fst (l850gl_network_binding_lookup_at sample_uci None (Some ''/sys/devices/usb1'') (Some cleared_binding)) = BINDING_UNIQUE"
      "snd (l850gl_network_binding_lookup_at sample_uci None (Some ''/sys/devices/usb1'') (Some cleared_binding)) \<noteq> None"
      by code_simp+
    then show thesis using that by (metis not_None_eq prod.collapse)
  qed
  have sets: "\<exists>p'. uci_set sample_uci i option v p = Some p' \<and>
      uci_sections sample_uci p' = (uci_sections sample_uci p)[i := (uci_sections sample_uci p ! i)
        \<lparr>us_option := (us_option (uci_sections sample_uci p ! i))(option \<mapsto> v)\<rparr>]"
    if "i < length (uci_sections sample_uci p)" for p i option v
    using that by (simp add: sample_uci_def take_update_swap)
  have commits: "\<exists>p'. uci_commit sample_uci p = Some p' \<and> uci_sections sample_uci p' = uci_sections sample_uci p" for p
    by (simp add: sample_uci_def)
  from network_update_succeeds [OF valid lookup sets commits, of cleared_binding]
  obtain p i sec disk where u: "i < length (uci_sections sample_uci p)"
      "filter (belongs ''/sys/devices/usb1'') (uci_sections sample_uci p) = [sec]"
      "uci_sections sample_uci disk = (uci_sections sample_uci p)[i := sec\<lparr>us_option :=
        (us_option sec)(''allowedmode'' \<mapsto> ''4g'', ''preferredmode'' \<mapsto> ''none'')\<rparr>]"
      "fst (l850gl_network_modes_update_at sample_uci None (Some ''/sys/devices/usb1'') (Some ''4g'') (Some ''none'')
        (Some cleared_binding)) = MODE_UPDATE_OK"
    by fastforce
  from set_update_memI [OF u(1)] u(2-) show ?thesis by metis
qed

end
