(* ===== verification/Ubus_Request.thy ===== *)
theory Ubus_Request
  imports Ascii
begin

text \<open>
  The strict reading of ubus requests (\<open>ubus_request.c\<close>). libubox is a parameter: a message is the
  length of its payload and, for each offset into it, the attribute libubox reads there: what
  \<open>blobmsg_check_attr_len\<close> answers for the bytes left, its name, type and data, and its padded
  length. The data of an attribute are bytes, here characters; the name is a C string.

  The two loops over the attributes are written so that not ending is the value \<open>None\<close>. They end for
  every message, whatever padded lengths libubox reports, because every turn uses up the session
  or one field of the policy.
\<close>

section \<open>Messages\<close>

datatype blobmsg_type = BLOBMSG_TYPE_STRING | BLOBMSG_TYPE_OTHER nat

record blob_attr =
  ba_check :: "bool \<Rightarrow> nat \<Rightarrow> bool"
  ba_name :: cstring
  ba_type :: blobmsg_type
  ba_data :: "char list"
  ba_padded :: nat

record blob_message =
  bm_length :: nat
  bm_attr :: "nat \<Rightarrow> blob_attr"

type_synonym request_policy = "(cstring option \<times> blobmsg_type) list"

definition RPC_SESSION_NAME :: cstring where "RPC_SESSION_NAME = ''ubus_rpc_session''"
definition RPC_SESSION_HEX_LENGTH :: nat where "RPC_SESSION_HEX_LENGTH = 32"
definition REQUEST_POLICY_MAX :: nat where "REQUEST_POLICY_MAX = 63"

text \<open>The size of the attribute header.\<close>

definition blob_attr_size :: nat where "blob_attr_size = 4"

definition ascii_is_hex :: "char \<Rightarrow> bool" where
  "ascii_is_hex c \<longleftrightarrow>
     (48 \<le> code c \<and> code c \<le> 57) \<or> (97 \<le> code c \<and> code c \<le> 102) \<or> (65 \<le> code c \<and> code c \<le> 70)"

definition l850gl_ubus_blob_attr_is_valid :: "blob_attr option \<Rightarrow> nat \<Rightarrow> bool \<Rightarrow> bool" where
  "l850gl_ubus_blob_attr_is_valid attribute remaining name_required =
     (case attribute of
        None \<Rightarrow> False
      | Some a \<Rightarrow> if remaining < blob_attr_size then False else ba_check a name_required remaining)"

definition l850gl_ubus_blob_string_is_canonical :: "blob_attr option \<Rightarrow> nat \<Rightarrow> bool \<Rightarrow> bool" where
  "l850gl_ubus_blob_string_is_canonical attribute remaining name_required =
     (if \<not> l850gl_ubus_blob_attr_is_valid attribute remaining name_required \<or>
         ba_type (the attribute) \<noteq> BLOBMSG_TYPE_STRING
      then False
      else
        (let value = ba_data (the attribute); len = length value in
         0 < len \<and> value ! (len - 1) = NUL \<and> NUL \<notin> set (take (len - 1) value)))"

definition l850gl_ubus_rpc_session_is_valid :: "blob_attr option \<Rightarrow> nat \<Rightarrow> bool" where
  "l850gl_ubus_rpc_session_is_valid attribute remaining =
     (if \<not> l850gl_ubus_blob_attr_is_valid attribute remaining True \<or>
         ba_name (the attribute) \<noteq> RPC_SESSION_NAME \<or>
         ba_type (the attribute) \<noteq> BLOBMSG_TYPE_STRING \<or>
         \<not> l850gl_ubus_blob_string_is_canonical attribute remaining True
      then False
      else
        (let value = takeWhile (\<lambda>c. c \<noteq> NUL) (ba_data (the attribute)) in
         if length value \<noteq> RPC_SESSION_HEX_LENGTH then False
         else list_all ascii_is_hex (take RPC_SESSION_HEX_LENGTH value)))"

section \<open>The loops\<close>

partial_function (option) empty_loop :: "blob_message \<Rightarrow> nat \<Rightarrow> nat \<Rightarrow> bool \<Rightarrow> bool option" where
  "empty_loop m offset remaining session_seen =
     (if remaining = 0 then Some True
      else
        (let a = bm_attr m offset in
         if \<not> l850gl_ubus_blob_attr_is_valid (Some a) remaining True \<or> session_seen \<or>
            \<not> l850gl_ubus_rpc_session_is_valid (Some a) remaining
         then Some False
         else if remaining < ba_padded a then Some False
         else empty_loop m (offset + ba_padded a) (remaining - ba_padded a) True))"

definition l850gl_ubus_message_is_empty :: "blob_message option \<Rightarrow> bool option" where
  "l850gl_ubus_message_is_empty message =
     (case message of None \<Rightarrow> Some True | Some m \<Rightarrow> empty_loop m 0 (bm_length m) False)"

text \<open>The index of the field a name belongs to, the length of the policy for none.\<close>

fun policy_index :: "request_policy \<Rightarrow> cstring \<Rightarrow> nat" where
  "policy_index [] name = 0"
| "policy_index ((field, t) # policy) name = (if field = Some name then 0 else Suc (policy_index policy name))"

text \<open>What the loop keeps: the fields seen, whether the session was seen, and the attributes found.\<close>

type_synonym request_state = "u64 \<times> bool \<times> blob_attr option list"

text \<open>One attribute, up to the label \<open>next\<close>; \<open>None\<close> rejects the message.\<close>

definition parse_attribute :: "request_policy \<Rightarrow> blob_attr \<Rightarrow> nat \<Rightarrow> request_state \<Rightarrow> request_state option" where
  "parse_attribute policy a remaining state =
     (case state of
        (seen, session_seen, parsed) \<Rightarrow>
          if \<not> l850gl_ubus_blob_attr_is_valid (Some a) remaining True then None
          else if ba_name a = RPC_SESSION_NAME
          then if session_seen \<or> \<not> l850gl_ubus_rpc_session_is_valid (Some a) remaining then None
               else Some (seen, True, parsed)
          else
            (let index = policy_index policy (ba_name a) in
             if index = length policy \<or> seen AND push_bit index 1 \<noteq> 0 \<or> ba_type a \<noteq> snd (policy ! index)
             then None
             else if snd (policy ! index) = BLOBMSG_TYPE_STRING \<and>
                \<not> l850gl_ubus_blob_string_is_canonical (Some a) remaining True
             then None
             else Some (seen OR push_bit index 1, session_seen, parsed[index := Some a])))"

partial_function (option) parse_loop ::
    "blob_message \<Rightarrow> request_policy \<Rightarrow> nat \<Rightarrow> nat \<Rightarrow> request_state \<Rightarrow> (bool \<times> request_state) option" where
  "parse_loop m policy offset remaining state =
     (if remaining = 0 then Some (True, state)
      else
        (let a = bm_attr m offset in
         case parse_attribute policy a remaining state of
           None \<Rightarrow> Some (False, state)
         | Some state' \<Rightarrow>
             if remaining < ba_padded a then Some (False, state')
             else parse_loop m policy (offset + ba_padded a) (remaining - ba_padded a) state'))"

definition l850gl_ubus_parse_exact ::
    "blob_message option \<Rightarrow> request_policy option \<Rightarrow> u64 \<Rightarrow> blob_attr option list option \<Rightarrow>
     (bool \<times> blob_attr option list option) option" where
  "l850gl_ubus_parse_exact message policy required parsed =
     (case (message, policy, parsed) of
        (Some m, Some pol, Some out) \<Rightarrow>
          if length pol = 0 \<or> REQUEST_POLICY_MAX < length pol then Some (False, parsed)
          else
            (case parse_loop m pol 0 (bm_length m) (0, False, replicate (length pol) None) of
               None \<Rightarrow> None
             | Some (False, seen, session_seen, found) \<Rightarrow> Some (False, Some found)
             | Some (True, seen, session_seen, found) \<Rightarrow> Some (seen AND required = required, Some found))
      | _ \<Rightarrow> Some (False, parsed))"

section \<open>What a request must be\<close>

text \<open>
  The attributes a message carries from an offset on, each with the bytes left where it starts:
  they follow each other by their padded lengths and fill the payload exactly.
\<close>

inductive carries :: "blob_message \<Rightarrow> nat \<Rightarrow> nat \<Rightarrow> (blob_attr \<times> nat) list \<Rightarrow> bool" where
  carries_end: "carries m offset 0 []"
| carries_next:
    "\<lbrakk>0 < remaining; ba_padded (bm_attr m offset) \<le> remaining;
      carries m (offset + ba_padded (bm_attr m offset)) (remaining - ba_padded (bm_attr m offset)) attrs\<rbrakk>
     \<Longrightarrow> carries m offset remaining ((bm_attr m offset, remaining) # attrs)"

inductive_simps carries_zero: "carries m offset 0 attrs"
inductive_simps carries_Suc: "carries m offset (Suc n) attrs"

text \<open>One attribute by itself: the session, or a field of the policy with its type.\<close>

definition attribute_conforms :: "request_policy \<Rightarrow> blob_attr \<times> nat \<Rightarrow> bool" where
  "attribute_conforms policy =
     (\<lambda>(a, remaining).
        l850gl_ubus_blob_attr_is_valid (Some a) remaining True \<and>
        (if ba_name a = RPC_SESSION_NAME then l850gl_ubus_rpc_session_is_valid (Some a) remaining
         else policy_index policy (ba_name a) < length policy \<and>
              ba_type a = snd (policy ! policy_index policy (ba_name a)) \<and>
              (ba_type a \<noteq> BLOBMSG_TYPE_STRING \<or> l850gl_ubus_blob_string_is_canonical (Some a) remaining True)))"

definition sessions_of :: "(blob_attr \<times> nat) list \<Rightarrow> (blob_attr \<times> nat) list" where
  "sessions_of attrs = filter (\<lambda>x. ba_name (fst x) = RPC_SESSION_NAME) attrs"

text \<open>The fields, each with its place in the policy.\<close>

definition fields_of :: "request_policy \<Rightarrow> (blob_attr \<times> nat) list \<Rightarrow> (nat \<times> blob_attr) list" where
  "fields_of policy attrs =
     map (\<lambda>x. (policy_index policy (ba_name (fst x)), fst x))
       (filter (\<lambda>x. ba_name (fst x) \<noteq> RPC_SESSION_NAME) attrs)"

definition request_conforms :: "request_policy \<Rightarrow> (blob_attr \<times> nat) list \<Rightarrow> bool" where
  "request_conforms policy attrs \<longleftrightarrow>
     list_all (attribute_conforms policy) attrs \<and> length (sessions_of attrs) \<le> 1 \<and>
     distinct (map fst (fields_of policy attrs))"

lemma policy_index_le: "policy_index policy name \<le> length policy"
  by (induction policy name rule: policy_index.induct) auto

lemma sessions_of_snoc:
  "sessions_of (attrs @ [x]) = sessions_of attrs @ (if ba_name (fst x) = RPC_SESSION_NAME then [x] else [])"
  by (simp add: sessions_of_def)

lemma fields_of_snoc:
  "fields_of policy (attrs @ [x]) =
     fields_of policy attrs @
       (if ba_name (fst x) = RPC_SESSION_NAME then [] else [(policy_index policy (ba_name (fst x)), fst x)])"
  by (simp add: fields_of_def)

lemma conforms_prefix: "request_conforms policy (xs @ ys) \<Longrightarrow> request_conforms policy xs"
  by (auto simp: request_conforms_def sessions_of_def fields_of_def)

lemma fields_in_policy:
  "request_conforms policy attrs \<Longrightarrow> fst ` set (fields_of policy attrs) \<subseteq> {..<length policy}"
  by (auto simp: request_conforms_def fields_of_def attribute_conforms_def list_all_iff)

text \<open>A request in order has at most one session and each field once, so it cannot be long.\<close>

lemma conforms_length:
  assumes "request_conforms policy attrs"
  shows "length attrs \<le> Suc (length policy)"
proof -
  have "length (fields_of policy attrs) = card (fst ` set (fields_of policy attrs))"
    using assms by (metis distinct_card length_map list.set_map request_conforms_def)
  also have "\<dots> \<le> card {..<length policy}"
    using fields_in_policy [OF assms] by (intro card_mono) simp_all
  finally have "length (fields_of policy attrs) \<le> length policy" by simp
  moreover have "length attrs = length (sessions_of attrs) + length (fields_of policy attrs)"
    using sum_length_filter_compl [of "\<lambda>x. ba_name (fst x) = RPC_SESSION_NAME" attrs]
    by (simp add: sessions_of_def fields_of_def)
  ultimately show ?thesis using assms by (simp add: request_conforms_def)
qed

section \<open>What the loop keeps\<close>

definition consumed :: "request_policy \<Rightarrow> (blob_attr \<times> nat) list \<Rightarrow> request_state \<Rightarrow> bool" where
  "consumed policy attrs =
     (\<lambda>(seen, session_seen, parsed).
        {i. bit seen i} = fst ` set (fields_of policy attrs) \<and>
        (session_seen \<longleftrightarrow> sessions_of attrs \<noteq> []) \<and>
        parsed = map (map_of (fields_of policy attrs)) [0..<length policy])"

lemma consumed_start: "consumed policy [] (0, False, replicate (length policy) None)"
  by (simp add: consumed_def fields_of_def sessions_of_def map_replicate_const)

lemma seen_bit:
  assumes "index < length policy" and "length policy \<le> REQUEST_POLICY_MAX"
  shows "(seen :: u64) AND push_bit index 1 \<noteq> 0 \<longleftrightarrow> bit seen index"
    and "bit (seen OR push_bit index 1) i \<longleftrightarrow> bit seen i \<or> i = index"
proof -
  have "index < 64" using assms by (simp add: REQUEST_POLICY_MAX_def)
  then show "seen AND push_bit index 1 \<noteq> 0 \<longleftrightarrow> bit seen index"
    using bit_iff_and_push_bit_not_eq_0 [of seen index] by simp
  show "bit (seen OR push_bit index 1) i \<longleftrightarrow> bit seen i \<or> i = index"
    using \<open>index < 64\<close> by (auto simp: bit_or_iff bit_exp_iff)
qed

text \<open>One turn accepts exactly the attributes that keep the request in order, and records them.\<close>

lemma parse_attribute_exact:
  assumes size: "length policy \<le> REQUEST_POLICY_MAX"
    and kept: "consumed policy attrs state"
    and order: "request_conforms policy attrs"
  shows "case parse_attribute policy a remaining state of
           None \<Rightarrow> \<not> request_conforms policy (attrs @ [(a, remaining)])
         | Some state' \<Rightarrow> request_conforms policy (attrs @ [(a, remaining)]) \<and>
             consumed policy (attrs @ [(a, remaining)]) state'"
proof -
  obtain seen session_seen parsed where state: "state = (seen, session_seen, parsed)" by (cases state)
  define index where "index = policy_index policy (ba_name a)"
  have seen: "bit seen i \<longleftrightarrow> i \<in> fst ` set (fields_of policy attrs)" for i
    using kept by (auto simp: consumed_def state)
  have session: "session_seen \<longleftrightarrow> sessions_of attrs \<noteq> []"
    and parsed: "parsed = map (map_of (fields_of policy attrs)) [0..<length policy]"
    using kept by (simp_all add: consumed_def state)
  have accepted: "request_conforms policy (attrs @ [(a, remaining)]) \<longleftrightarrow>
      attribute_conforms policy (a, remaining) \<and>
      (if ba_name a = RPC_SESSION_NAME then \<not> session_seen else \<not> bit seen index)"
    using order by (auto simp: request_conforms_def sessions_of_snoc fields_of_snoc session seen index_def)
  show ?thesis
  proof (cases "ba_name a = RPC_SESSION_NAME")
    case True
    then show ?thesis
      using kept accepted
      by (auto simp: parse_attribute_def state attribute_conforms_def consumed_def sessions_of_snoc fields_of_snoc)
  next
    case False
    have le: "index \<le> length policy" by (simp add: index_def policy_index_le)
    show ?thesis
    proof (cases "index < length policy \<and> attribute_conforms policy (a, remaining) \<and> \<not> bit seen index")
      case True
      then have step: "parse_attribute policy a remaining state =
          Some (seen OR push_bit index 1, session_seen, parsed[index := Some a])"
        using False seen_bit(1) [OF _ size, of index seen]
        by (auto simp: parse_attribute_def state attribute_conforms_def index_def [symmetric] Let_def)
      have fresh: "map_of (fields_of policy attrs) index = None"
        using True by (simp add: seen map_of_eq_None_iff)
      have "parsed[index := Some a] = map (map_of (fields_of policy attrs @ [(index, a)])) [0..<length policy]"
        by (rule nth_equalityI)
          (use True fresh in \<open>auto simp: parsed nth_list_update map_add_def split: option.splits\<close>)
      moreover have "{i. bit (seen OR push_bit index 1) i} = insert index (fst ` set (fields_of policy attrs))"
        using True seen_bit(2) [OF _ size, of index seen] seen by auto
      ultimately show ?thesis
        using True False accepted session
        by (simp add: step consumed_def sessions_of_snoc fields_of_snoc index_def [symmetric])
    next
      case rejected: False
      then have "parse_attribute policy a remaining state = None"
        using False le seen_bit(1) [OF _ size, of index seen]
        by (auto simp: parse_attribute_def state attribute_conforms_def index_def [symmetric] Let_def)
      moreover have "\<not> request_conforms policy (attrs @ [(a, remaining)])"
        using rejected accepted False
        by (auto simp: attribute_conforms_def index_def [symmetric])
      ultimately show ?thesis by simp
    qed
  qed
qed

lemma carries_positive:
  "0 < remaining \<Longrightarrow> carries m offset remaining attrs \<longleftrightarrow>
     (let a = bm_attr m offset in ba_padded a \<le> remaining \<and>
       (\<exists>rest. attrs = (a, remaining) # rest \<and>
         carries m (offset + ba_padded a) (remaining - ba_padded a) rest))"
  by (cases remaining) (auto simp: carries_Suc Let_def)

lemma carries_Nil: "carries m offset remaining [] \<longleftrightarrow> remaining = 0"
  by (auto elim: carries.cases intro: carries_end)

lemma carries_single:
  assumes "0 < remaining"
  shows "carries m offset remaining attrs \<and> length attrs \<le> 1 \<longleftrightarrow>
    attrs = [(bm_attr m offset, remaining)] \<and> ba_padded (bm_attr m offset) = remaining"
proof (cases attrs)
  case Nil
  then show ?thesis using assms by (simp add: carries_Nil)
next
  case (Cons x rest)
  then show ?thesis by (cases rest) (auto simp: carries_positive [OF assms] carries_Nil Let_def)
qed

text \<open>A message carries its attributes in one way only.\<close>

lemma carries_unique: "carries m offset remaining xs \<Longrightarrow> carries m offset remaining ys \<Longrightarrow> xs = ys"
proof (induction arbitrary: ys rule: carries.induct)
  case (carries_end m offset)
  then show ?case by (simp add: carries_zero)
next
  case (carries_next remaining m offset attrs)
  from carries_next.prems obtain rest where "ys = (bm_attr m offset, remaining) # rest"
    and "carries m (offset + ba_padded (bm_attr m offset)) (remaining - ba_padded (bm_attr m offset)) rest"
    by (auto simp: carries_positive [OF carries_next.hyps(1)] Let_def)
  then show ?case by (simp add: carries_next.IH)
qed

text \<open>The loop ends, and accepts exactly when what is left completes a request in order.\<close>

lemma parse_loop_exact:
  assumes "length policy \<le> REQUEST_POLICY_MAX"
    and "consumed policy attrs state" and "request_conforms policy attrs"
  shows "\<exists>ok state'. parse_loop m policy offset remaining state = Some (ok, state') \<and>
      length (snd (snd state')) = length policy \<and>
      (if ok then \<exists>rest. carries m offset remaining rest \<and> request_conforms policy (attrs @ rest) \<and>
                    consumed policy (attrs @ rest) state'
       else \<nexists>rest. carries m offset remaining rest \<and> request_conforms policy (attrs @ rest))"
  using assms(2,3)
proof (induction "Suc (Suc (length policy)) - length attrs" arbitrary: attrs state offset remaining
    rule: less_induct)
  case less
  define a where "a = bm_attr m offset"
  have width: "length (snd (snd state)) = length policy"
    using less.prems by (auto simp: consumed_def)
  note turn = parse_attribute_exact [OF assms(1) less.prems, of a remaining]
  show ?case
  proof (cases "remaining = 0")
    case True
    then show ?thesis
      using less.prems width by (subst parse_loop.simps) (auto simp: carries_zero)
  next
    case False
    then have positive: "0 < remaining" by simp
    show ?thesis
    proof (cases "parse_attribute policy a remaining state")
      case None
      have "\<not> request_conforms policy (attrs @ (a, remaining) # rest)" for rest
        using turn None conforms_prefix [of policy "attrs @ [(a, remaining)]" rest] by auto
      then show ?thesis
        using None False width
        by (subst parse_loop.simps) (auto simp: a_def [symmetric] carries_positive [OF positive] Let_def)
    next
      case (Some state')
      then have next_order: "request_conforms policy (attrs @ [(a, remaining)])"
        and next_kept: "consumed policy (attrs @ [(a, remaining)]) state'"
        using turn by simp_all
      show ?thesis
      proof (cases "remaining < ba_padded a")
        case True
        moreover have "length (snd (snd state')) = length policy"
          using next_kept by (auto simp: consumed_def)
        ultimately show ?thesis
          using Some False
          by (subst parse_loop.simps) (auto simp: a_def [symmetric] carries_positive [OF positive] Let_def)
      next
        case fits: False
        have "Suc (Suc (length policy)) - length (attrs @ [(a, remaining)]) <
            Suc (Suc (length policy)) - length attrs"
          using conforms_length [OF next_order] by simp
        from less.hyps [OF this next_kept next_order, of "offset + ba_padded a" "remaining - ba_padded a"]
        obtain ok final where later:
          "parse_loop m policy (offset + ba_padded a) (remaining - ba_padded a) state' = Some (ok, final)"
          "length (snd (snd final)) = length policy"
          "if ok then \<exists>rest. carries m (offset + ba_padded a) (remaining - ba_padded a) rest \<and>
               request_conforms policy (attrs @ (a, remaining) # rest) \<and>
               consumed policy (attrs @ (a, remaining) # rest) final
           else \<nexists>rest. carries m (offset + ba_padded a) (remaining - ba_padded a) rest \<and>
               request_conforms policy (attrs @ (a, remaining) # rest)"
          unfolding append_assoc append_Cons append_Nil by blast
        have "parse_loop m policy offset remaining state =
            parse_loop m policy (offset + ba_padded a) (remaining - ba_padded a) state'"
          using Some False fits by (subst parse_loop.simps) (simp add: a_def [symmetric])
        moreover have "carries m offset remaining more \<longleftrightarrow>
            (\<exists>rest. more = (a, remaining) # rest \<and>
               carries m (offset + ba_padded a) (remaining - ba_padded a) rest)" for more
          using fits by (simp add: carries_positive [OF positive] a_def Let_def)
        ultimately show ?thesis
          using later by (intro exI [of _ ok] exI [of _ final]) (auto split: if_splits)
      qed
    qed
  qed
qed

lemma consumed_parsed:
  "consumed policy attrs (seen, session_seen, parsed) \<Longrightarrow>
     parsed = map (map_of (fields_of policy attrs)) [0..<length policy]"
  by (simp add: consumed_def)

lemma word_and_covers: "(x :: 'a::len word) AND y = y \<longleftrightarrow> {i. bit y i} \<subseteq> {i. bit x i}"
proof
  assume "x AND y = y"
  then show "{i. bit y i} \<subseteq> {i. bit x i}" by (metis bit_and_iff mem_Collect_eq subsetI)
next
  assume "{i. bit y i} \<subseteq> {i. bit x i}"
  then show "x AND y = y" by (intro bit_eqI) (auto simp: bit_and_iff)
qed

lemma consumed_required:
  "consumed policy attrs (seen, session_seen, parsed) \<Longrightarrow>
     seen AND required = required \<longleftrightarrow> {i. bit required i} \<subseteq> fst ` set (fields_of policy attrs)"
proof -
  assume "consumed policy attrs (seen, session_seen, parsed)"
  then have "fst ` set (fields_of policy attrs) = {i. bit seen i}" by (simp add: consumed_def)
  then show ?thesis by (simp only: word_and_covers)
qed

lemma parse_exact_on:
  assumes "policy \<noteq> []" and "length policy \<le> REQUEST_POLICY_MAX"
  shows "\<exists>ok found. l850gl_ubus_parse_exact (Some m) (Some policy) required (Some out) = Some (ok, Some found) \<and>
      length found = length policy \<and>
      (if ok then \<exists>attrs. carries m 0 (bm_length m) attrs \<and> request_conforms policy attrs \<and>
                   {i. bit required i} \<subseteq> fst ` set (fields_of policy attrs) \<and>
                   found = map (map_of (fields_of policy attrs)) [0..<length policy]
       else \<nexists>attrs. carries m 0 (bm_length m) attrs \<and> request_conforms policy attrs \<and>
                   {i. bit required i} \<subseteq> fst ` set (fields_of policy attrs))"
proof -
  have "request_conforms policy []" by (simp add: request_conforms_def sessions_of_def fields_of_def)
  from parse_loop_exact [OF assms(2) consumed_start this, of m 0 "bm_length m"]
  obtain ok seen session_seen found where loop:
      "parse_loop m policy 0 (bm_length m) (0, False, replicate (length policy) None) =
        Some (ok, seen, session_seen, found)"
      "length found = length policy"
      "if ok then \<exists>attrs. carries m 0 (bm_length m) attrs \<and> request_conforms policy attrs \<and>
           consumed policy attrs (seen, session_seen, found)
       else \<nexists>attrs. carries m 0 (bm_length m) attrs \<and> request_conforms policy attrs"
    unfolding append_Nil by fastforce
  have entry: "\<not> (length policy = 0 \<or> REQUEST_POLICY_MAX < length policy)" using assms by simp
  show ?thesis
  proof (cases ok)
    case True
    then obtain attrs where attrs: "carries m 0 (bm_length m) attrs" "request_conforms policy attrs"
        "consumed policy attrs (seen, session_seen, found)"
      using loop(3) by auto
    have result: "l850gl_ubus_parse_exact (Some m) (Some policy) required (Some out) =
        Some (seen AND required = required, Some found)"
      using entry loop(1) True by (simp add: l850gl_ubus_parse_exact_def)
    show ?thesis
    proof (intro exI conjI)
      show "l850gl_ubus_parse_exact (Some m) (Some policy) required (Some out) =
        Some (seen AND required = required, Some found)" by (rule result)
      show "length found = length policy" by (rule loop(2))
      show "if seen AND required = required
          then \<exists>attrs. carries m 0 (bm_length m) attrs \<and> request_conforms policy attrs \<and>
                   {i. bit required i} \<subseteq> fst ` set (fields_of policy attrs) \<and>
                   found = map (map_of (fields_of policy attrs)) [0..<length policy]
          else \<nexists>attrs. carries m 0 (bm_length m) attrs \<and> request_conforms policy attrs \<and>
                   {i. bit required i} \<subseteq> fst ` set (fields_of policy attrs)"
        unfolding consumed_required [OF attrs(3)]
        using attrs consumed_parsed [OF attrs(3)] carries_unique by (metis (no_types, lifting))
    qed
  next
    case False
    then show ?thesis using entry loop by (auto simp: l850gl_ubus_parse_exact_def)
  qed
qed

text \<open>C32: Reading a request ends for every message, and it is accepted exactly when the attributes fill
  the payload, are each well-formed, at most one is the session (32 hexadecimal digits), every
  other one is a field of the policy with its type, strings without an inner NUL, no field comes
  twice and every required field is there; the table then holds each field's attribute.
\<close>

theorem ubus_parse_exact_iff:
  "(\<exists>result. l850gl_ubus_parse_exact message policy required parsed = Some result) \<and>
   (l850gl_ubus_parse_exact message policy required parsed = Some (True, table) \<longleftrightarrow>
     (\<exists>m pol out attrs. message = Some m \<and> policy = Some pol \<and> parsed = Some out \<and>
        pol \<noteq> [] \<and> length pol \<le> 63 \<and>
        carries m 0 (bm_length m) attrs \<and> request_conforms pol attrs \<and>
        {i. bit required i} \<subseteq> fst ` set (fields_of pol attrs) \<and>
        table = Some (map (map_of (fields_of pol attrs)) [0..<length pol])))"
proof (cases "\<exists>m pol out. message = Some m \<and> policy = Some pol \<and> parsed = Some out \<and>
    pol \<noteq> [] \<and> length pol \<le> 63")
  case True
  then obtain m pol out where args: "message = Some m" "policy = Some pol" "parsed = Some out"
    and pol: "pol \<noteq> []" "length pol \<le> 63" by blast
  have "length pol \<le> REQUEST_POLICY_MAX" using pol by (simp add: REQUEST_POLICY_MAX_def)
  from parse_exact_on [OF pol(1) this, of m required out] show ?thesis
    unfolding args using pol by (auto split: if_splits dest: carries_unique)
next
  case False
  then have "l850gl_ubus_parse_exact message policy required parsed = Some (False, parsed)"
    by (auto simp: l850gl_ubus_parse_exact_def REQUEST_POLICY_MAX_def split: option.splits)
  then have "\<exists>result. l850gl_ubus_parse_exact message policy required parsed = Some result"
    and "l850gl_ubus_parse_exact message policy required parsed \<noteq> Some (True, table)" by (blast, simp)
  then show ?thesis using False by blast
qed

section \<open>Empty requests\<close>

text \<open>The methods without arguments take no attribute or only a session.\<close>

lemma empty_loop_seen: "empty_loop m offset remaining True = Some (remaining = 0)"
  by (subst empty_loop.simps) (simp add: Let_def)

lemma rpc_session_valid_attr:
  "l850gl_ubus_rpc_session_is_valid (Some a) remaining \<Longrightarrow> l850gl_ubus_blob_attr_is_valid (Some a) remaining True"
  by (simp add: l850gl_ubus_rpc_session_is_valid_def split: if_splits)

lemma ubus_message_is_empty_exact:
  "l850gl_ubus_message_is_empty message =
     Some (case message of None \<Rightarrow> True
       | Some m \<Rightarrow> \<exists>attrs. carries m 0 (bm_length m) attrs \<and> length attrs \<le> 1 \<and>
           list_all (\<lambda>(a, rest). l850gl_ubus_rpc_session_is_valid (Some a) rest) attrs)"
proof (cases message)
  case (Some m)
  show ?thesis
  proof (cases "bm_length m = 0")
    case True
    then show ?thesis
      by (subst l850gl_ubus_message_is_empty_def, subst empty_loop.simps) (simp add: Some carries_zero)
  next
    case False
    define a where "a = bm_attr m 0"
    define n where "n = bm_length m"
    have "l850gl_ubus_message_is_empty message = empty_loop m 0 n False"
      by (simp add: l850gl_ubus_message_is_empty_def Some n_def)
    also have "\<dots> = Some (l850gl_ubus_rpc_session_is_valid (Some a) n \<and> ba_padded a = n)"
      using False by (subst empty_loop.simps)
        (auto simp: Let_def empty_loop_seen a_def n_def dest: rpc_session_valid_attr)
    finally have result: "l850gl_ubus_message_is_empty message =
        Some (l850gl_ubus_rpc_session_is_valid (Some a) n \<and> ba_padded a = n)" .
    have positive: "0 < n" using False by (simp add: n_def)
    have single: "carries m 0 n attrs \<and> length attrs \<le> 1 \<longleftrightarrow> attrs = [(a, n)] \<and> ba_padded a = n" for attrs
      unfolding a_def by (rule carries_single [OF positive])
    show ?thesis
      unfolding result unfolding Some option.case n_def [symmetric] conj_assoc [symmetric] single by auto
  qed
qed (simp add: l850gl_ubus_message_is_empty_def)

end
