(* ===== verification/Radio_Operation.thy ===== *)
theory Radio_Operation
  imports Sms_Contract Network_Binding Ubus_Request
begin

text \<open>
  Choosing bands and modes (\<open>ubus_glib.c\<close>, the functions \<open>advanced_*\<close> and the two methods). A
  band operation is one call of ModemManager; a mode operation writes the router's configuration,
  then asks the network daemon to reload it. An operation is a heap object in the table
  \<open>advanced_operations\<close> from its creation to its release, named by a number; a handler gets it by
  value. The rest of the service, with the message operations and the modems, is \<open>messages\<close>.

  As for messages, \<open>advanced_owner\<close> is the operation whose cancellable the modem's field was last
  set to by this component, a cancelled call still answers, and the trace records, newest first,
  what was started, called, answered and replied, and is not part of the program's state. A
  handler reads the clock as one instant.
\<close>

section \<open>State\<close>

datatype advanced_type = ADVANCED_OPERATION_BANDS | ADVANCED_OPERATION_MODES

record advanced_operation =
  ao_type :: advanced_type
  ao_modem :: nat
  ao_cancelled :: bool
  ao_generation :: u32
  ao_timeout_source :: bool
  ao_cooldown_seconds :: u32
  ao_bands :: "u32 list"
  ao_activation :: "cstring option"
  ao_timed_out :: bool
  ao_transport_lost :: bool
  ao_dispatched :: bool
  ao_deferred :: bool
  ao_persisted :: bool
  ao_network_request_pending :: bool
  ao_call_pending :: bool

text \<open>
  Replies: an error with code, message, whether it is retryable and after how many milliseconds; an
  acceptance with the modem, the kind of operation, the cool-down in milliseconds and, for modes,
  whether they were persisted and what became of the reload.
\<close>

datatype advanced_reply =
    Advanced_Error cstring cstring bool u32
  | Advanced_Accepted nat advanced_type u32 "(bool \<times> cstring) option"

datatype advanced_event =
    Advanced_Started nat nat advanced_type
  | Bands_Called nat nat "u32 list"
  | Bands_Answered nat bool "gerror option" bool
  | Modes_Written nat cstring cstring network_mode_update_result
  | Reload_Sent nat
  | Reload_Answered nat bool
  | Advanced_Timed_Out nat
  | Advanced_Replied nat advanced_reply
  | Advanced_Direct advanced_reply

record radio_service =
  messages :: sms_service
  advanced_operations :: "(nat \<times> advanced_operation) list"
  advanced_owner :: "(nat \<times> nat) list"
  next_advanced_operation :: nat
  advanced_trace :: "advanced_event list"

text \<open>
  What a handler reads of its surroundings: the attestation's, the build, the clock, whether
  ModemManager's name has an owner, the modes and the device a modem proxy shows, libuci, and
  whether libubus finds the network daemon and sends the request. The lookup of the network daemon
  is taken to return before any other handler runs.
\<close>

record 'p radio_env =
  re_around :: surroundings
  re_mm_1_24 :: bool
  re_now :: int
  re_owner :: bool
  re_current_modes :: "nat \<Rightarrow> (u32 \<times> u32) option"
  re_device :: "nat \<Rightarrow> cstring option"
  re_uci :: "'p uci"
  re_network_found :: bool
  re_reload_sent :: bool

definition ADVANCED_SHORT_COOLDOWN_SECONDS :: u32 where "ADVANCED_SHORT_COOLDOWN_SECONDS = 10"

text \<open>ModemManager's flags for modes, and its band for any.\<close>

definition MM_MODE_NONE :: u32 where "MM_MODE_NONE = 0"
definition MM_MODE_2G :: u32 where "MM_MODE_2G = 2"
definition MM_MODE_3G :: u32 where "MM_MODE_3G = 4"
definition MM_MODE_4G :: u32 where "MM_MODE_4G = 8"
definition MM_MODE_5G :: u32 where "MM_MODE_5G = 16"
definition MM_MODE_ANY :: u32 where "MM_MODE_ANY = 4294967295"
definition MM_BAND_ANY :: u32 where "MM_BAND_ANY = 256"

abbreviation radio_modem_at :: "radio_service \<Rightarrow> nat \<Rightarrow> modem" where
  "radio_modem_at s r \<equiv> sms_modem_at (messages s) r"

abbreviation radio_bridge :: "radio_service \<Rightarrow> bridge" where
  "radio_bridge s \<equiv> ubus_bridge (service (messages s))"

definition radio_with_modem :: "nat \<Rightarrow> (modem \<Rightarrow> modem) \<Rightarrow> radio_service \<Rightarrow> radio_service" where
  "radio_with_modem r f s = s\<lparr>messages := sms_with_modem r f (messages s)\<rparr>"

definition radio_emit :: "advanced_event \<Rightarrow> radio_service \<Rightarrow> radio_service" where
  "radio_emit ev s = s\<lparr>advanced_trace := ev # advanced_trace s\<rparr>"

definition radio_put :: "nat \<Rightarrow> advanced_operation \<Rightarrow> radio_service \<Rightarrow> radio_service" where
  "radio_put k op s = s\<lparr>advanced_operations := AList.update k op (advanced_operations s)\<rparr>"

section \<open>Completion\<close>

definition advanced_operation_apply_cooldown :: "int \<Rightarrow> advanced_operation \<Rightarrow> modem \<Rightarrow> modem" where
  "advanced_operation_apply_cooldown now op m =
     (let deadline = now + int (unat (ao_cooldown_seconds op)) * MICROSECONDS_PER_SECOND
      in m\<lparr>advanced_cooldown_until := max (advanced_cooldown_until m) deadline\<rparr>)"

definition advanced_operation_stale_code :: "advanced_operation \<Rightarrow> nat \<Rightarrow> modem \<Rightarrow> cstring option" where
  "advanced_operation_stale_code op source m =
     (if \<not> live m then Some ''device_gone''
      else if generation m \<noteq> ao_generation op \<or> source \<noteq> mm_object (proxy m) then Some ''stale_generation''
      else None)"

definition advanced_unlock_modem :: "modem \<Rightarrow> modem" where
  "advanced_unlock_modem m =
     m\<lparr>mutation_cancellable := None, mutation_busy := False, mutation_kind := MUTATION_NONE\<rparr>"

text \<open>A reload that is still pending is aborted, so that its answer never comes.\<close>

definition advanced_operation_free :: "int \<Rightarrow> nat \<Rightarrow> advanced_operation \<Rightarrow> radio_service \<Rightarrow> radio_service" where
  "advanced_operation_free now k op s =
     (let r = ao_modem op;
          s1 = radio_with_modem r (advanced_operation_apply_cooldown now op) s;
          s2 = (if mutation_kind (radio_modem_at s1 r) = MUTATION_ADVANCED \<and>
                   map_of (advanced_owner s1) r = Some k
                then (radio_with_modem r advanced_unlock_modem s1)
                  \<lparr>advanced_owner := AList.delete r (advanced_owner s1)\<rparr>
                else s1)
      in s2\<lparr>advanced_operations := AList.delete k (advanced_operations s2)\<rparr>)"

definition advanced_operation_complete_buffer ::
    "int \<Rightarrow> nat \<Rightarrow> advanced_operation \<Rightarrow> advanced_reply \<Rightarrow> radio_service \<Rightarrow> radio_service" where
  "advanced_operation_complete_buffer now k op buffer s =
     (let u = service (messages s) in
      advanced_operation_free now k (op\<lparr>ao_deferred := False\<rparr>)
        (if ao_deferred op \<and> connected u \<and> context_initialized u \<and> \<not> ubus_stopping u
         then radio_emit (Advanced_Replied k buffer) s else s))"

definition advanced_operation_complete_error ::
    "int \<Rightarrow> nat \<Rightarrow> advanced_operation \<Rightarrow> cstring \<Rightarrow> cstring \<Rightarrow> bool \<Rightarrow> radio_service \<Rightarrow> radio_service" where
  "advanced_operation_complete_error now k op err message retry s =
     advanced_operation_complete_buffer now k op (Advanced_Error err message retry 0) s"

definition advanced_operation_complete_success ::
    "int \<Rightarrow> nat \<Rightarrow> advanced_operation \<Rightarrow> radio_service \<Rightarrow> radio_service" where
  "advanced_operation_complete_success now k op s =
     advanced_operation_complete_buffer now k op
       (Advanced_Accepted (ao_modem op) (ao_type op) (ao_cooldown_seconds op * 1000)
          (if ao_type op = ADVANCED_OPERATION_MODES
           then Some (ao_persisted op, case ao_activation op of None \<Rightarrow> ''pending'' | Some a \<Rightarrow> a)
           else None)) s"

definition advanced_view_of :: "advanced_operation \<Rightarrow> modem \<Rightarrow> advanced_view" where
  "advanced_view_of op m =
     \<lparr>adv_dispatched = ao_dispatched op, adv_timed_out = ao_timed_out op,
      adv_transport_lost = ao_transport_lost op, adv_modem_live = live m\<rparr>"

section \<open>Callbacks\<close>

definition advanced_operation_timeout ::
    "int \<Rightarrow> nat \<Rightarrow> advanced_operation \<Rightarrow> radio_service \<Rightarrow> radio_service" where
  "advanced_operation_timeout now k op0 s =
     (let op = op0\<lparr>ao_timeout_source := False, ao_timed_out := True\<rparr>;
          s1 = radio_emit (Advanced_Timed_Out k) s
      in if ao_type op = ADVANCED_OPERATION_MODES
         then advanced_operation_complete_success now k
                (op\<lparr>ao_network_request_pending :=
                      (if context_initialized (service (messages s)) then False else ao_network_request_pending op),
                    ao_activation := Some ''outcome_unknown''\<rparr>) s1
         else radio_put k (op\<lparr>ao_cancelled := True\<rparr>) s1)"

definition advanced_network_reload_complete ::
    "int \<Rightarrow> nat \<Rightarrow> advanced_operation \<Rightarrow> bool \<Rightarrow> radio_service \<Rightarrow> radio_service" where
  "advanced_network_reload_complete now k op status_ok s =
     (if \<not> ao_network_request_pending op then s
      else advanced_operation_complete_success now k
             (op\<lparr>ao_network_request_pending := False,
                 ao_activation := Some (if status_ok then ''reloaded'' else ''failed'')\<rparr>) s)"

definition advanced_operation_ready ::
    "bool \<Rightarrow> int \<Rightarrow> nat \<Rightarrow> advanced_operation \<Rightarrow> nat \<Rightarrow> bool \<Rightarrow> gerror option \<Rightarrow> radio_service \<Rightarrow> radio_service" where
  "advanced_operation_ready mm_1_24 now k op0 source ok error s =
     (let op = op0\<lparr>ao_call_pending := False\<rparr>;
          success = (case ao_type op of ADVANCED_OPERATION_BANDS \<Rightarrow> ok | ADVANCED_OPERATION_MODES \<Rightarrow> False);
          m = radio_modem_at s (ao_modem op)
      in if advanced_operation_outcome_is_unknown (advanced_view_of op m) error
         then advanced_operation_complete_error now k op ''outcome_unknown''
                (advanced_error_message ''outcome_unknown'') False s
         else
           (case advanced_operation_stale_code op source m of
              Some stale \<Rightarrow> advanced_operation_complete_error now k op stale (advanced_error_message stale) False s
            | None \<Rightarrow>
                if \<not> success
                then (let normalized = normalize_advanced_error mm_1_24 error (advanced_view_of op m)
                      in advanced_operation_complete_error now k op (norm_code normalized)
                           (norm_message normalized) (norm_retryable normalized) s)
                else advanced_operation_complete_success now k op s))"

text \<open>One turn of the loop over the table's keys.\<close>

definition cancel_advanced :: "bool \<Rightarrow> int \<Rightarrow> nat \<Rightarrow> radio_service \<Rightarrow> radio_service" where
  "cancel_advanced lost now k s =
     (case map_of (advanced_operations s) k of
        None \<Rightarrow> s
      | Some op0 \<Rightarrow>
          (let op = op0\<lparr>ao_deferred := False, ao_transport_lost := lost\<rparr> in
           if ao_type op = ADVANCED_OPERATION_MODES then advanced_operation_free now k op s
           else radio_put k (op\<lparr>ao_cancelled := True\<rparr>) s))"

definition cancel_advanced_operations :: "bool \<Rightarrow> int \<Rightarrow> radio_service \<Rightarrow> radio_service" where
  "cancel_advanced_operations lost now s =
     fold (cancel_advanced lost now) (map fst (advanced_operations s)) s"

section \<open>Requests\<close>

definition advanced_claim_modem :: "modem \<Rightarrow> modem" where
  "advanced_claim_modem m = m\<lparr>mutation_busy := True, mutation_kind := MUTATION_ADVANCED,
     mutation_cancellable := Some False\<rparr>"

definition advanced_operation_new ::
    "int \<Rightarrow> nat \<Rightarrow> advanced_type \<Rightarrow> radio_service \<Rightarrow> nat \<times> advanced_operation \<times> radio_service" where
  "advanced_operation_new now r t s =
     (let k = next_advanced_operation s;
          op = \<lparr>ao_type = t, ao_modem = r, ao_cancelled = False, ao_generation = generation (radio_modem_at s r),
            ao_timeout_source = True, ao_cooldown_seconds = ADVANCED_SHORT_COOLDOWN_SECONDS, ao_bands = [],
            ao_activation = None, ao_timed_out = False, ao_transport_lost = False, ao_dispatched = False,
            ao_deferred = True, ao_persisted = False, ao_network_request_pending = False,
            ao_call_pending = False\<rparr>
      in (k, op, radio_with_modem r (advanced_operation_apply_cooldown now op)
            (radio_with_modem r advanced_claim_modem
               (radio_put k op (radio_emit (Advanced_Started k r t)
                  (s\<lparr>next_advanced_operation := Suc k,
                     advanced_owner := AList.update r k (advanced_owner s)\<rparr>))))))"

definition send_advanced_error :: "cstring \<Rightarrow> bool \<Rightarrow> u32 \<Rightarrow> radio_service \<Rightarrow> radio_service" where
  "send_advanced_error err retry retry_after_ms s =
     radio_emit (Advanced_Direct (Advanced_Error err (advanced_error_message err) retry retry_after_ms)) s"

definition advanced_mutation_modem ::
    "'p radio_env \<Rightarrow> radio_service \<Rightarrow> cstring \<Rightarrow> u32 \<Rightarrow> (cstring \<times> u32) + nat" where
  "advanced_mutation_modem e s modem_id' gen =
     (let u = service (messages s) in
      case l850gl_bridge_find_modem (ubus_bridge u) (Some modem_id') of
        None \<Rightarrow> Inl (if l850gl_bridge_manager_available (re_owner e) (ubus_bridge u)
                     then ''stale_identity'' else ''dependency_unavailable'', 0)
      | Some r \<Rightarrow>
          (let m = modem_at u r in
           if generation m \<noteq> gen then Inl (''stale_generation'', 0)
           else if \<not> attest_mutation_target (re_around e) m then Inl (''unsupported'', 0)
           else if l850_modem_has_active_mutation u r \<or> l850_modem_has_active_scan u r \<or>
              l850_modem_has_active_carrier_query u r \<or> voltage_refresh_pending m
           then Inl (''busy'', 0)
           else
             (let retry_after = advanced_retry_after_ms m (re_now e) in
              if mutation_busy m \<or> 0 < retry_after then Inl (''busy'', retry_after) else Inr r)))"

definition send_lookup_error :: "cstring \<times> u32 \<Rightarrow> radio_service \<Rightarrow> radio_service" where
  "send_lookup_error = (\<lambda>(err, retry_after) s.
     send_advanced_error err (err = ''busy'' \<or> err = ''dependency_unavailable'') retry_after s)"

definition mode_family_mask :: "u32 \<Rightarrow> u32" where
  "mode_family_mask modes =
     (if modes AND MM_MODE_2G \<noteq> 0 then RADIO_FAMILY_2G else 0) OR
     (if modes AND MM_MODE_3G \<noteq> 0 then RADIO_FAMILY_3G else 0) OR
     (if modes AND MM_MODE_4G \<noteq> 0 then RADIO_FAMILY_4G else 0) OR
     (if modes AND MM_MODE_5G \<noteq> 0 then RADIO_FAMILY_5G else 0)"

definition current_radio_families :: "(u32 \<times> u32) option \<Rightarrow> u32 \<Rightarrow> u32 option" where
  "current_radio_families modes supported_families =
     (case modes of
        None \<Rightarrow> None
      | Some (allowed_modes, preferred) \<Rightarrow>
          (let families = (if allowed_modes = MM_MODE_ANY then supported_families
             else mode_family_mask allowed_modes) in
           if families = RADIO_FAMILY_NONE then None else Some families))"

text \<open>
  The loop over an array of band names: the names so far, in order. Every turn adds one and there
  are at most 64, so it ends.
\<close>

function band_array :: "blob_message \<Rightarrow> nat \<Rightarrow> nat \<Rightarrow> cstring list \<Rightarrow> cstring list option" where
  "band_array m offset remaining requested =
     (if remaining = 0 then Some requested
      else
        (let a = bm_attr m offset; name = takeWhile (\<lambda>c. c \<noteq> NUL) (ba_data a) in
         if \<not> l850gl_ubus_blob_attr_is_valid (Some a) remaining False then None
         else if RADIO_REQUEST_BANDS_MAX \<le> length requested \<or> ba_type a \<noteq> BLOBMSG_TYPE_STRING \<or>
            \<not> l850gl_ubus_blob_string_is_canonical (Some a) remaining False \<or> ba_name a \<noteq> []
         then None
         else if \<not> radio_band_name_is_canonical (Some name) then None
         else if remaining < ba_padded a then None
         else band_array m (offset + ba_padded a) (remaining - ba_padded a) (requested @ [name])))"
  by pat_completeness auto
termination
  by (relation "measure (\<lambda>(m, offset, remaining, requested). Suc RADIO_REQUEST_BANDS_MAX - length requested)") auto

declare band_array.simps [simp del]

text \<open>\<open>None\<close> for an attribute that is no array.\<close>

definition parse_requested_bands :: "blob_message option \<Rightarrow> cstring list option" where
  "parse_requested_bands array =
     (case array of
        None \<Rightarrow> None
      | Some m \<Rightarrow>
          (case band_array m 0 (bm_length m) [] of
             None \<Rightarrow> None
           | Some requested \<Rightarrow> if requested = [] then None else Some requested))"

text \<open>The fields of the requests, absent when \<open>parse_exact_fields\<close> rejects the message.\<close>

record set_bands_request =
  sb_modem_id :: cstring
  sb_generation :: u32
  sb_bands :: "blob_message option"
  sb_confirm :: bool

record set_modes_request =
  sm_modem_id :: cstring
  sm_generation :: u32
  sm_allowed :: cstring
  sm_preferred :: cstring
  sm_confirm :: bool

text \<open>The end of the method, once the bands are resolved.\<close>

definition set_bands_start :: "int \<Rightarrow> nat \<Rightarrow> u32 list \<Rightarrow> radio_service \<Rightarrow> radio_service" where
  "set_bands_start now r resolved s =
     (case advanced_operation_new now r ADVANCED_OPERATION_BANDS s of
        (k, op, s1) \<Rightarrow>
          radio_put k (op\<lparr>ao_bands := resolved, ao_dispatched := True, ao_call_pending := True\<rparr>)
            (radio_emit (Bands_Called k r resolved) s1))"

text \<open>The policy part of the method: the bands to write, or the error.\<close>

definition set_bands_resolve ::
    "'p radio_env \<Rightarrow> modem \<Rightarrow> cstring list \<Rightarrow> (cstring \<times> bool) + u32 list" where
  "set_bands_resolve e m requested =
     (case snapshot_supported_radio_bands m of
        None \<Rightarrow> Inl (''not_ready'', True)
      | Some (supported, families) \<Rightarrow>
          (case current_radio_families (re_current_modes e (mm_object (proxy m))) families of
             None \<Rightarrow> Inl (''not_ready'', True)
           | Some allowed_families \<Rightarrow>
               (case radio_expand_lte_selection (Some (map Some requested)) (Some supported)
                    (length supported) allowed_families of
                  (result, effective, effective_count) \<Rightarrow>
                    if result \<noteq> POLICY_OK
                    then Inl (if result = POLICY_FAMILY_MISMATCH then ''not_ready'' else ''invalid_argument'',
                              result = POLICY_FAMILY_MISMATCH)
                    else
                      (case radio_resolve_bands (Some effective) (Some supported) (length supported) True
                           allowed_families MM_BAND_ANY of
                         (result2, resolved) \<Rightarrow>
                           if result2 \<noteq> POLICY_OK
                           then Inl (if result2 = POLICY_MODES_UNKNOWN then ''not_ready'' else ''invalid_argument'',
                                     result2 = POLICY_MODES_UNKNOWN)
                           else Inr resolved))))"

definition method_set_bands ::
    "'p radio_env \<Rightarrow> set_bands_request option \<Rightarrow> radio_service \<Rightarrow> radio_service" where
  "method_set_bands e message s =
     (case message of
        None \<Rightarrow> send_advanced_error ''invalid_argument'' False 0 s
      | Some req \<Rightarrow>
          if \<not> l850gl_identity_is_valid (Some (sb_modem_id req)) \<or> \<not> sb_confirm req
          then send_advanced_error ''invalid_argument'' False 0 s
          else
            (case parse_requested_bands (sb_bands req) of
               None \<Rightarrow> send_advanced_error ''invalid_argument'' False 0 s
             | Some requested \<Rightarrow>
                 (case advanced_mutation_modem e s (sb_modem_id req) (sb_generation req) of
                    Inl err \<Rightarrow> send_lookup_error err s
                  | Inr r \<Rightarrow>
                      (case set_bands_resolve e (radio_modem_at s r) requested of
                         Inl (err, retry) \<Rightarrow> send_advanced_error err retry 0 s
                       | Inr resolved \<Rightarrow> set_bands_start (re_now e) r resolved s))))"

text \<open>The error of a mode change that was not written, and whether it is retryable.\<close>

definition mode_update_error :: "network_mode_update_result \<Rightarrow> cstring \<times> bool" where
  "mode_update_error result =
     (case result of
        MODE_UPDATE_NONE \<Rightarrow> (''netifd_binding_not_found'', True)
      | MODE_UPDATE_AMBIGUOUS \<Rightarrow> (''netifd_binding_ambiguous'', True)
      | MODE_UPDATE_INVALID \<Rightarrow> (''invalid_argument'', False)
      | MODE_UPDATE_VERIFY_FAILED \<Rightarrow> (''outcome_unknown'', False)
      | _ \<Rightarrow> (''persistence_failed'', True))"

text \<open>The end of the method, from the written configuration on.\<close>

definition set_modes_reload ::
    "'p radio_env \<Rightarrow> nat \<Rightarrow> advanced_operation \<Rightarrow> radio_service \<Rightarrow> radio_service" where
  "set_modes_reload e k op0 s =
     (let op = op0\<lparr>ao_persisted := True, ao_dispatched := True, ao_activation := Some ''pending''\<rparr> in
      if \<not> re_network_found e then advanced_operation_complete_success (re_now e) k op s
      else if \<not> re_reload_sent e then advanced_operation_complete_success (re_now e) k op s
      else radio_put k (op\<lparr>ao_network_request_pending := True\<rparr>) (radio_emit (Reload_Sent k) s))"

definition set_modes_start ::
    "'p radio_env \<Rightarrow> nat \<Rightarrow> cstring \<Rightarrow> cstring \<Rightarrow> cstring \<Rightarrow> radio_service \<Rightarrow> radio_service" where
  "set_modes_start e r device allowedmode preferredmode s =
     (case advanced_operation_new (re_now e) r ADVANCED_OPERATION_MODES s of
        (k, op, s1) \<Rightarrow>
          (let result = fst (l850gl_network_modes_update (re_uci e) (Some device) (Some allowedmode)
                 (Some preferredmode) (Some cleared_binding));
               s2 = radio_emit (Modes_Written k allowedmode preferredmode result) s1
           in if result \<noteq> MODE_UPDATE_OK
              then (let (err, retry) = mode_update_error result
                    in advanced_operation_complete_error (re_now e) k op err (advanced_error_message err) retry s2)
              else set_modes_reload e k op s2))"

definition method_set_modes ::
    "'p radio_env \<Rightarrow> set_modes_request option \<Rightarrow> radio_service \<Rightarrow> radio_service" where
  "method_set_modes e message s =
     (case message of
        None \<Rightarrow> send_advanced_error ''invalid_argument'' False 0 s
      | Some req \<Rightarrow>
          if \<not> l850gl_identity_is_valid (Some (sm_modem_id req)) \<or> \<not> sm_confirm req
          then send_advanced_error ''invalid_argument'' False 0 s
          else if \<not> l850gl_network_modes_are_valid (Some (sm_allowed req)) (Some (sm_preferred req))
          then send_advanced_error ''invalid_argument'' False 0 s
          else
            (case advanced_mutation_modem e s (sm_modem_id req) (sm_generation req) of
               Inl err \<Rightarrow> send_lookup_error err s
             | Inr r \<Rightarrow>
                 (case re_device e (mm_object (proxy (radio_modem_at s r))) of
                    None \<Rightarrow> send_advanced_error ''dependency_unavailable'' True 0 s
                  | Some device \<Rightarrow>
                      if device = [] then send_advanced_error ''dependency_unavailable'' True 0 s
                      else set_modes_start e r device (sm_allowed req) (sm_preferred req) s)))"

end
