(* ===== verification/Radio_Protocol.thy ===== *)
theory Radio_Protocol
  imports Radio_Operation
begin

text \<open>
  What the service promises of one band or mode operation, as a condition on the order of its
  events, and the invariant that carries the promise; the lemmas show what recording an event,
  storing, claiming, completing and releasing keep of it.
\<close>

section \<open>The life of an operation\<close>

fun radio_event_op :: "advanced_event \<Rightarrow> nat option" where
  "radio_event_op (Advanced_Started k r t) = Some k"
| "radio_event_op (Bands_Called k r bands) = Some k"
| "radio_event_op (Bands_Answered k ok error alive) = Some k"
| "radio_event_op (Modes_Written k a p result) = Some k"
| "radio_event_op (Reload_Sent k) = Some k"
| "radio_event_op (Reload_Answered k ok) = Some k"
| "radio_event_op (Advanced_Timed_Out k) = Some k"
| "radio_event_op (Advanced_Replied k rep) = Some k"
| "radio_event_op (Advanced_Direct rep) = None"

definition radio_history :: "nat \<Rightarrow> advanced_event list \<Rightarrow> advanced_event list" where
  "radio_history k t = filter (\<lambda>ev. radio_event_op ev = Some k) t"

text \<open>What the reply to a written mode change may say of the reload.\<close>

fun activation_truth :: "cstring \<Rightarrow> advanced_event list \<Rightarrow> bool" where
  "activation_truth act (Modes_Written k a p result # h) = (result = MODE_UPDATE_OK \<and> act = ''pending'')"
| "activation_truth act (Reload_Answered k ok # h) = (act = (if ok then ''reloaded'' else ''failed''))"
| "activation_truth act (Advanced_Timed_Out k # h) = (act = ''outcome_unknown'')"
| "activation_truth act h = False"

text \<open>
  The errors of a call after which ModemManager may still do what it was asked: no answer came, or
  the modem gave none.
\<close>

definition leaves_open :: "gerror option \<Rightarrow> bool" where
  "leaves_open error \<longleftrightarrow> (case error of None \<Rightarrow> False | Some e \<Rightarrow>
     gerror_code e \<in> {G_IO_ERROR_TIMED_OUT, G_IO_ERROR_CANCELLED, G_IO_ERROR_CLOSED, G_IO_ERROR_BROKEN_PIPE,
       G_DBUS_ERROR_NO_REPLY, G_DBUS_ERROR_TIMEOUT} \<or>
     (case remote_name e of None \<Rightarrow> False | Some name \<Rightarrow>
        suffix ''.Core.Timeout'' name \<or> suffix ''.MobileEquipment.NetworkTimeout'' name))"

lemma leaves_open_iff: "advanced_error_has_unknown_outcome error (remote_of error) = leaves_open error"
  by (auto simp: advanced_error_has_unknown_outcome_def leaves_open_def remote_of_def remote_error_has_suffix_def
      error_matches_def split: option.split)

text \<open>
  An acceptance says what happened; an error invites a retry only when the call failed definitely,
  or the configuration was not committed. After the timer, without the modem, or when the error
  leaves it open, it is that the outcome is unknown.
\<close>

fun radio_reply_truth :: "advanced_reply \<Rightarrow> advanced_event list \<Rightarrow> bool" where
  "radio_reply_truth (Advanced_Accepted r t cooldown None) h =
     (t = ADVANCED_OPERATION_BANDS \<and> cooldown = 10000 \<and>
      (case h of Bands_Answered k ok error alive # Bands_Called k' q bands # _ \<Rightarrow>
         ok \<and> q = r \<and> alive \<and> \<not> leaves_open error | _ \<Rightarrow> False))"
| "radio_reply_truth (Advanced_Accepted r t cooldown (Some (persisted, act))) h =
     (t = ADVANCED_OPERATION_MODES \<and> cooldown = 10000 \<and> persisted \<and> activation_truth act h \<and>
      (case last h of Advanced_Started k q t' \<Rightarrow> q = r \<and> t' = t | _ \<Rightarrow> False))"
| "radio_reply_truth (Advanced_Error err message retry after) h =
     (case h of
        Bands_Answered k ok error alive # called \<Rightarrow> (retry \<longrightarrow> \<not> ok) \<and>
          (\<not> alive \<or> leaves_open error \<or> (\<exists>k' h'. called = Advanced_Timed_Out k' # h') \<longrightarrow>
             err = ''outcome_unknown'' \<and> \<not> retry)
      | Modes_Written k a p result # _ \<Rightarrow>
          result \<noteq> MODE_UPDATE_OK \<and> (result = MODE_UPDATE_VERIFY_FAILED \<longrightarrow> \<not> retry \<and> err = ''outcome_unknown'') \<and>
          (retry \<longrightarrow> result \<in> {MODE_UPDATE_NONE, MODE_UPDATE_AMBIGUOUS, MODE_UPDATE_ERROR})
      | _ \<Rightarrow> False)"

fun radio_allowed :: "advanced_event \<Rightarrow> advanced_event list \<Rightarrow> bool" where
  "radio_allowed (Advanced_Started k r t) h = (h = [])"
| "radio_allowed (Bands_Called k r bands) h = (h = [Advanced_Started k r ADVANCED_OPERATION_BANDS])"
| "radio_allowed (Bands_Answered k ok error alive) h =
     (case h of Bands_Called k' r bands # _ \<Rightarrow> True | Advanced_Timed_Out k' # Bands_Called k'' r bands # _ \<Rightarrow> True
      | _ \<Rightarrow> False)"
| "radio_allowed (Modes_Written k a p result) h = (\<exists>r. h = [Advanced_Started k r ADVANCED_OPERATION_MODES])"
| "radio_allowed (Reload_Sent k) h = (case h of Modes_Written k' a p result # _ \<Rightarrow> result = MODE_UPDATE_OK | _ \<Rightarrow> False)"
| "radio_allowed (Reload_Answered k ok) h = (case h of Reload_Sent k' # _ \<Rightarrow> True | _ \<Rightarrow> False)"
| "radio_allowed (Advanced_Timed_Out k) h =
     (case h of Bands_Called k' r bands # _ \<Rightarrow> True | Reload_Sent k' # _ \<Rightarrow> True | _ \<Rightarrow> False)"
| "radio_allowed (Advanced_Replied k rep) h = radio_reply_truth rep h"
| "radio_allowed (Advanced_Direct rep) h = True"

fun radio_protocol :: "advanced_event list \<Rightarrow> bool" where
  "radio_protocol [] = True"
| "radio_protocol (ev # h) = (radio_allowed ev h \<and> radio_protocol h)"

section \<open>Invariant\<close>

text \<open>A band operation waits for its call, a mode operation for the reload and its timer.\<close>

definition bands_waits :: "nat \<Rightarrow> advanced_operation \<Rightarrow> advanced_event list \<Rightarrow> bool" where
  "bands_waits k op h \<longleftrightarrow> ao_type op = ADVANCED_OPERATION_BANDS \<and> ao_call_pending op \<and> ao_dispatched op \<and>
     \<not> ao_network_request_pending op \<and>
     (let called = [Bands_Called k (ao_modem op) (ao_bands op), Advanced_Started k (ao_modem op) ADVANCED_OPERATION_BANDS]
      in if ao_timed_out op then h = Advanced_Timed_Out k # called \<and> \<not> ao_timeout_source op
         else h = called \<and> ao_timeout_source op)"

definition modes_waits :: "nat \<Rightarrow> advanced_operation \<Rightarrow> advanced_event list \<Rightarrow> bool" where
  "modes_waits k op h \<longleftrightarrow> ao_type op = ADVANCED_OPERATION_MODES \<and> \<not> ao_call_pending op \<and> ao_persisted op \<and>
     ao_network_request_pending op \<and> ao_timeout_source op \<and>
     (\<exists>a p. h = [Reload_Sent k, Modes_Written k a p MODE_UPDATE_OK, Advanced_Started k (ao_modem op) ADVANCED_OPERATION_MODES])"

definition radio_held :: "radio_service \<Rightarrow> nat list" where
  "radio_held s = map (ao_modem \<circ> snd) (advanced_operations s)"

definition radio_rows :: "radio_service \<Rightarrow> bool" where
  "radio_rows s \<longleftrightarrow> (\<forall>r < length (modems (radio_bridge s)).
     (mutation_kind (radio_modem_at s r) = MUTATION_ADVANCED \<longleftrightarrow> r \<in> set (radio_held s)) \<and>
     (r \<in> set (radio_held s) \<longrightarrow> mutation_busy (radio_modem_at s r)))"

definition radio_frame :: "radio_service \<Rightarrow> bool" where
  "radio_frame s \<longleftrightarrow> sms_service_inv (messages s) \<and> distinct (map fst (advanced_operations s)) \<and>
     distinct (radio_held s) \<and> (\<forall>r \<in> set (radio_held s). r < length (modems (radio_bridge s))) \<and>
     radio_rows s \<and>
     (\<forall>(k, op) \<in> set (advanced_operations s). map_of (advanced_owner s) (ao_modem op) = Some k) \<and>
     (\<forall>k. radio_protocol (radio_history k (advanced_trace s))) \<and>
     (\<forall>k \<ge> next_advanced_operation s. radio_history k (advanced_trace s) = [] \<and>
        k \<notin> fst ` set (advanced_operations s))"

definition radio_op_ok :: "radio_service \<Rightarrow> nat \<Rightarrow> advanced_operation \<Rightarrow> bool" where
  "radio_op_ok s k op \<longleftrightarrow> ao_cooldown_seconds op = ADVANCED_SHORT_COOLDOWN_SECONDS \<and>
     (bands_waits k op (radio_history k (advanced_trace s)) \<or> modes_waits k op (radio_history k (advanced_trace s)))"

definition radio_inv :: "radio_service \<Rightarrow> bool" where
  "radio_inv s \<longleftrightarrow> radio_frame s \<and> (\<forall>(k, op) \<in> set (advanced_operations s). radio_op_ok s k op)"

text \<open>Inside a handler of operation \<open>k\<close>, which holds \<open>op\<close> by value.\<close>

definition radio_inside :: "nat \<Rightarrow> advanced_operation \<Rightarrow> radio_service \<Rightarrow> bool" where
  "radio_inside k op s \<longleftrightarrow> radio_frame s \<and> ao_cooldown_seconds op = ADVANCED_SHORT_COOLDOWN_SECONDS \<and>
     (\<exists>op0. map_of (advanced_operations s) k = Some op0 \<and> ao_modem op0 = ao_modem op) \<and>
     (\<forall>(k', op') \<in> set (advanced_operations s). k' \<noteq> k \<longrightarrow> radio_op_ok s k' op')"

section \<open>Bookkeeping\<close>

lemma radio_history_Cons [simp]:
  "radio_history k (ev # t) = (if radio_event_op ev = Some k then ev # radio_history k t else radio_history k t)"
  by (simp add: radio_history_def)

lemma radio_emit_fields [simp]:
  "messages (radio_emit ev s) = messages s" "advanced_operations (radio_emit ev s) = advanced_operations s"
  "advanced_owner (radio_emit ev s) = advanced_owner s"
  "next_advanced_operation (radio_emit ev s) = next_advanced_operation s"
  "advanced_trace (radio_emit ev s) = ev # advanced_trace s"
  by (simp_all add: radio_emit_def)

lemma radio_put_fields [simp]:
  "messages (radio_put k op s) = messages s" "advanced_owner (radio_put k op s) = advanced_owner s"
  "next_advanced_operation (radio_put k op s) = next_advanced_operation s"
  "advanced_trace (radio_put k op s) = advanced_trace s"
  "advanced_operations (radio_put k op s) = AList.update k op (advanced_operations s)"
  by (simp_all add: radio_put_def)

lemma radio_with_modem_fields [simp]:
  "advanced_operations (radio_with_modem r f s) = advanced_operations s"
  "advanced_owner (radio_with_modem r f s) = advanced_owner s"
  "next_advanced_operation (radio_with_modem r f s) = next_advanced_operation s"
  "advanced_trace (radio_with_modem r f s) = advanced_trace s"
  "messages (radio_with_modem r f s) = sms_with_modem r f (messages s)"
  by (simp_all add: radio_with_modem_def)

text \<open>A change of a modem that the coordinator and the message operations tolerate.\<close>

definition tolerated :: "modem \<Rightarrow> modem \<Rightarrow> bool" where
  "tolerated m m' \<longleftrightarrow> kept m m' \<and> modem_rely m m' \<and> sms_rely m m'"

lemma tolerated_inv:
  assumes inv: "sms_service_inv (messages s)"
    and ok: "tolerated (radio_modem_at s r) (f (radio_modem_at s r))"
  shows "sms_service_inv (messages (radio_with_modem r f s))"
proof -
  have "mutation_inv (service (messages s))" using inv by (simp add: sms_service_inv_def sms_frame_def)
  then have "mutation_inv (service (sms_with_modem r f (messages s)))"
    using ok by (intro sms_change_inv) (simp_all add: tolerated_def)
  moreover have "sms_change (service (messages s)) (with_modem r f (service (messages s)))"
    using ok by (intro sms.change_with) (simp add: tolerated_def)
  ultimately show ?thesis
    using sms_environment_inv [OF inv] by (simp add: sms_with_modem_def)
qed

lemma tolerated_fields:
  assumes "same_tables m' m" and "modem_id m' = modem_id m" and "generation m' = generation m"
    and "dedupe_queue m' = dedupe_queue m" and "advanced_cooldown_until m \<le> advanced_cooldown_until m'"
    and "mutation_kind m \<noteq> MUTATION_L850 \<and> mutation_kind m' \<noteq> MUTATION_L850 \<and> mutation_kind m \<noteq> MUTATION_SMS \<and>
      mutation_kind m' \<noteq> MUTATION_SMS \<or> mutation_kind m' = mutation_kind m \<and> mutation_busy m' = mutation_busy m"
  shows "tolerated m m'"
  using kept_mutation_fields [OF assms(1,2)] assms(3-)
  by (auto simp: tolerated_def modem_rely_def sms_rely_def)

lemma tolerated_cooldown: "tolerated m (advanced_operation_apply_cooldown now op m)"
  by (rule tolerated_fields) (simp_all add: advanced_operation_apply_cooldown_def same_tables_def)

lemma tolerated_claim:
  "mutation_kind m \<noteq> MUTATION_L850 \<Longrightarrow> mutation_kind m \<noteq> MUTATION_SMS \<Longrightarrow> tolerated m (advanced_claim_modem m)"
  by (rule tolerated_fields) (simp_all add: advanced_claim_modem_def same_tables_def)

lemma tolerated_unlock: "mutation_kind m = MUTATION_ADVANCED \<Longrightarrow> tolerated m (advanced_unlock_modem m)"
  by (rule tolerated_fields) (simp_all add: advanced_unlock_modem_def same_tables_def)

lemma radio_frame_modem:
  assumes "radio_frame s" and "tolerated (radio_modem_at s r) (f (radio_modem_at s r))"
    and "mutation_kind (f (radio_modem_at s r)) = mutation_kind (radio_modem_at s r)"
    and "mutation_busy (f (radio_modem_at s r)) = mutation_busy (radio_modem_at s r)"
  shows "radio_frame (radio_with_modem r f s)"
  using assms tolerated_inv [of s r f]
  by (simp add: radio_frame_def radio_held_def radio_rows_def on_modem_nth)

lemma radio_cooldown_frame:
  "radio_frame s \<Longrightarrow> radio_frame (radio_with_modem r (advanced_operation_apply_cooldown now op) s)"
  using tolerated_cooldown by (intro radio_frame_modem) (simp_all add: advanced_operation_apply_cooldown_def)

lemma radio_cooldown_inside:
  "radio_inside k op s \<Longrightarrow> radio_inside k op (radio_with_modem r (advanced_operation_apply_cooldown now op') s)"
  using radio_cooldown_frame by (auto simp: radio_inside_def radio_op_ok_def)

lemma radio_inside_cong:
  "ao_modem op' = ao_modem op \<Longrightarrow> ao_cooldown_seconds op' = ao_cooldown_seconds op \<Longrightarrow>
   radio_inside k op' s = radio_inside k op s"
  by (simp add: radio_inside_def)

lemma radio_inside_key: "radio_inside k op s \<Longrightarrow> k < next_advanced_operation s"
  unfolding radio_inside_def radio_frame_def
  by (metis (no_types, lifting) fst_conv image_eqI linorder_not_less map_of_SomeD)

lemma radio_inside_emit:
  assumes ins: "radio_inside k op s" and ev: "radio_event_op ev = Some k"
    and "radio_allowed ev (radio_history k (advanced_trace s))"
  shows "radio_inside k op (radio_emit ev s)"
proof -
  have "radio_frame (radio_emit ev s)"
    using assms radio_inside_key [OF ins]
    by (auto simp: radio_inside_def radio_frame_def radio_held_def radio_rows_def)
  with ins ev show ?thesis by (auto simp: radio_inside_def radio_op_ok_def)
qed

lemma radio_inside_own:
  assumes "radio_inside k op s"
  shows "ao_modem op \<in> set (radio_held s)" and "ao_modem op < length (modems (radio_bridge s))"
    and "mutation_kind (radio_modem_at s (ao_modem op)) = MUTATION_ADVANCED"
    and "map_of (advanced_owner s) (ao_modem op) = Some k"
proof -
  obtain op0 where "map_of (advanced_operations s) k = Some op0" and m: "ao_modem op0 = ao_modem op"
    using assms by (auto simp: radio_inside_def)
  then have mem: "(k, op0) \<in> set (advanced_operations s)" by (simp add: map_of_SomeD)
  then show held: "ao_modem op \<in> set (radio_held s)" using m by (force simp: radio_held_def)
  show "ao_modem op < length (modems (radio_bridge s))"
    and "mutation_kind (radio_modem_at s (ao_modem op)) = MUTATION_ADVANCED"
    using assms held by (auto simp: radio_inside_def radio_frame_def radio_rows_def)
  show "map_of (advanced_owner s) (ao_modem op) = Some k"
    using assms mem m unfolding radio_inside_def radio_frame_def by fastforce
qed

lemma radio_inside_put:
  assumes ins: "radio_inside k op s" and m: "ao_modem op' = ao_modem op" and ok: "radio_op_ok s k op'"
  shows "radio_inv (radio_put k op' s)"
proof -
  obtain op0 where op0: "map_of (advanced_operations s) k = Some op0" "ao_modem op0 = ao_modem op"
    using ins by (auto simp: radio_inside_def)
  have held: "radio_held (radio_put k op' s) = radio_held s"
    using sms_held_update [OF op0(1), of ao_modem op'] op0(2) m by (simp add: radio_held_def)
  have mem: "k \<in> fst ` set (advanced_operations s)" using op0(1) by (force dest: map_of_SomeD)
  have dist: "distinct (map fst (advanced_operations s))" using ins by (simp add: radio_inside_def radio_frame_def)
  have own: "map_of (advanced_owner s) (ao_modem op') = Some k"
    using radio_inside_own(4) [OF ins] m by simp
  have set: "x \<in> set (AList.update k op' (advanced_operations s)) \<Longrightarrow>
      x = (k, op') \<or> x \<in> set (advanced_operations s) \<and> fst x \<noteq> k" for x
    using mem_update [OF dist, of "fst x" "snd x" k op'] by (cases x) (auto split: if_splits)
  have "radio_rows (radio_put k op' s)"
    using ins unfolding radio_rows_def held by (simp add: radio_inside_def radio_frame_def radio_rows_def)
  then have "radio_frame (radio_put k op' s)"
    using ins held mem own set unfolding radio_inside_def radio_frame_def
    by (auto simp: distinct_update keys_update split_beta) (metis fst_conv snd_conv prod.collapse)+
  then show ?thesis
    using ins ok set by (fastforce simp: radio_inv_def radio_inside_def radio_op_ok_def)
qed

section \<open>Release and completion\<close>

lemma radio_unlock_inv:
  assumes ins: "radio_inside k op s" and r: "r = ao_modem op"
  shows "radio_inv (radio_with_modem r advanced_unlock_modem s
    \<lparr>advanced_owner := AList.delete r (advanced_owner s), advanced_operations := AList.delete k (advanced_operations s)\<rparr>)"
    (is "radio_inv ?s")
proof -
  note own = radio_inside_own [OF ins, folded r]
  obtain op0 where op0: "map_of (advanced_operations s) k = Some op0" "ao_modem op0 = r"
    using ins r by (auto simp: radio_inside_def)
  have frame: "radio_frame s" using ins by (simp add: radio_inside_def)
  then have dist: "distinct (map fst (advanced_operations s))" "distinct (map (ao_modem \<circ> snd) (advanced_operations s))"
    by (simp_all add: radio_frame_def radio_held_def)
  have held: "distinct (radio_held ?s)" "set (radio_held ?s) = set (radio_held s) - {r}"
    using sms_held_delete [OF dist op0(1)] op0(2) by (simp_all add: radio_held_def)
  have "sms_service_inv (messages (radio_with_modem r advanced_unlock_modem s))"
    using frame tolerated_unlock [OF own(3)] by (intro tolerated_inv) (simp_all add: radio_frame_def)
  moreover have "map_of (AList.delete r (advanced_owner s)) (ao_modem op') = Some k'"
    if "(k', op') \<in> set (advanced_operations s)" "k' \<noteq> k" for k' op'
  proof -
    have owner: "map_of (advanced_owner s) (ao_modem op') = Some k'"
      using that(1) frame unfolding radio_frame_def by fastforce
    with own(4) that(2) have "ao_modem op' \<noteq> r" by auto
    with owner show ?thesis by (simp add: delete_conv')
  qed
  moreover have "radio_rows ?s"
    using frame held(2) by (auto simp: radio_frame_def radio_rows_def on_modem_nth advanced_unlock_modem_def)
  moreover have "\<forall>q \<in> set (radio_held ?s). q < length (modems (radio_bridge ?s))"
    using frame held(2) by (simp add: radio_frame_def)
  moreover have "distinct (map fst (AList.delete k (advanced_operations s)))" using dist(1) by (rule distinct_delete)
  ultimately have "radio_frame ?s"
    using frame held(1) unfolding radio_frame_def by (simp add: delete_filter) blast
  then show ?thesis
    using ins by (auto simp: radio_inv_def radio_inside_def radio_op_ok_def delete_filter)
qed

lemma radio_inside_free:
  assumes ins: "radio_inside k op s"
  shows "radio_inv (advanced_operation_free now k op s)"
proof -
  note ins' = radio_cooldown_inside [OF ins, of "ao_modem op" now op]
  from radio_unlock_inv [OF ins' refl] radio_inside_own(3,4) [OF ins'] show ?thesis
    by (simp add: advanced_operation_free_def Let_def radio_with_modem_def)
qed

lemma radio_inside_complete:
  assumes ins: "radio_inside k op s" and truth: "radio_reply_truth rep (radio_history k (advanced_trace s))"
  shows "radio_inv (advanced_operation_complete_buffer now k op rep s)"
proof -
  have "radio_inside k op (radio_emit (Advanced_Replied k rep) s)"
    using truth by (intro radio_inside_emit [OF ins]) simp_all
  then show ?thesis
    unfolding advanced_operation_complete_buffer_def Let_def
    by (intro radio_inside_free) (simp add: ins radio_inside_cong [of "op\<lparr>ao_deferred := False\<rparr>" op])
qed

lemma radio_inside_error:
  assumes "radio_inside k op s" and "radio_reply_truth (Advanced_Error err message retry 0) (radio_history k (advanced_trace s))"
  shows "radio_inv (advanced_operation_complete_error now k op err message retry s)"
  unfolding advanced_operation_complete_error_def by (rule radio_inside_complete [OF assms])

lemma radio_inside_success:
  assumes ins: "radio_inside k op s"
    and "if ao_type op = ADVANCED_OPERATION_MODES
         then ao_persisted op \<and> activation_truth (case ao_activation op of None \<Rightarrow> ''pending'' | Some a \<Rightarrow> a)
           (radio_history k (advanced_trace s)) \<and>
           (\<exists>k'. last (radio_history k (advanced_trace s)) = Advanced_Started k' (ao_modem op) ADVANCED_OPERATION_MODES)
         else (\<exists>k1 error k2 bands h. radio_history k (advanced_trace s) =
           Bands_Answered k1 True error True # Bands_Called k2 (ao_modem op) bands # h \<and> \<not> leaves_open error)"
  shows "radio_inv (advanced_operation_complete_success now k op s)"
proof -
  have "ao_cooldown_seconds op * 1000 = 10000"
    using ins by (simp add: radio_inside_def ADVANCED_SHORT_COOLDOWN_SECONDS_def)
  then show ?thesis
    using assms(2) unfolding advanced_operation_complete_success_def
    by (intro radio_inside_complete [OF ins]) (cases "ao_type op"; auto)
qed

end
