(* ===== verification/Radio_Handlers.thy ===== *)
theory Radio_Handlers
  imports Radio_Protocol
begin

text \<open>
  Every callback, timer and method of the band and mode operations keeps the invariant of
  \<open>Radio_Protocol\<close>.
\<close>

section \<open>Callbacks\<close>

lemma radio_inv_op:
  assumes "radio_inv s" and "map_of (advanced_operations s) k = Some op"
  shows "radio_inside k op s" and "radio_op_ok s k op"
proof -
  have mem: "(k, op) \<in> set (advanced_operations s)" using assms(2) by (rule map_of_SomeD)
  then show ok: "radio_op_ok s k op" using assms(1) by (auto simp: radio_inv_def)
  then show "radio_inside k op s" using assms by (auto simp: radio_inv_def radio_inside_def radio_op_ok_def)
qed

lemma radio_pending:
  assumes "radio_op_ok s k op"
  shows "ao_call_pending op \<Longrightarrow> bands_waits k op (radio_history k (advanced_trace s))"
    and "ao_network_request_pending op \<Longrightarrow> modes_waits k op (radio_history k (advanced_trace s))"
    and "ao_call_pending op \<longleftrightarrow> \<not> ao_network_request_pending op"
    and "ao_type op = ADVANCED_OPERATION_MODES \<longleftrightarrow> ao_network_request_pending op"
  using assms by (auto simp: radio_op_ok_def bands_waits_def modes_waits_def)

lemma bands_answer_inside:
  assumes inv: "radio_inv s" and op: "map_of (advanced_operations s) k = Some op"
    and pend: "ao_call_pending op"
  shows "radio_inside k op (radio_emit (Bands_Answered k ok error alive) s)"
proof -
  note w = radio_pending(1) [OF radio_inv_op(2) [OF inv op] pend]
  show ?thesis
    using w by (intro radio_inside_emit [OF radio_inv_op(1) [OF inv op]])
      (auto simp: bands_waits_def Let_def split: if_splits)
qed

lemma advanced_ready_inv:
  assumes inv: "radio_inv s" and op: "map_of (advanced_operations s) k = Some op"
    and pend: "ao_call_pending op" and alive: "alive = live (radio_modem_at s (ao_modem op))"
  shows "radio_inv (advanced_operation_ready v now k op source ok error (radio_emit (Bands_Answered k ok error alive) s))"
proof -
  let ?s = "radio_emit (Bands_Answered k ok error alive) s" and ?op = "op\<lparr>ao_call_pending := False\<rparr>"
  let ?m = "radio_modem_at ?s (ao_modem ?op)"
  note w = radio_pending(1) [OF radio_inv_op(2) [OF inv op] pend]
  have ins: "radio_inside k ?op ?s"
    using bands_answer_inside [OF inv op pend] radio_inside_cong [of ?op op k ?s] by simp
  define unclear where "unclear \<longleftrightarrow> ao_timed_out op \<or> \<not> alive \<or> leaves_open error"
  have unknown: "advanced_operation_outcome_is_unknown (advanced_view_of ?op ?m) error \<longleftrightarrow> ao_transport_lost op \<or> unclear"
    using w by (auto simp: advanced_operation_outcome_is_unknown_def advanced_view_of_def bands_waits_def unclear_def alive
        leaves_open_iff)
  have error: "radio_inv (advanced_operation_complete_error now k ?op err message retry ?s)"
    if "retry \<Longrightarrow> \<not> ok" "unclear \<Longrightarrow> err = ''outcome_unknown'' \<and> \<not> retry" for err message retry
    using that w by (intro radio_inside_error [OF ins]) (auto simp: bands_waits_def unclear_def Let_def split: if_splits)
  have "radio_inv (advanced_operation_complete_success now k ?op ?s)" if ok "\<not> unclear"
    using w that by (intro radio_inside_success [OF ins]) (auto simp: bands_waits_def unclear_def Let_def)
  moreover have "ao_type op = ADVANCED_OPERATION_BANDS" using w by (simp add: bands_waits_def)
  ultimately show ?thesis
    using error unknown by (auto simp: advanced_operation_ready_def Let_def split: option.split)
qed

lemma reload_inv:
  assumes inv: "radio_inv s" and op: "map_of (advanced_operations s) k = Some op"
    and pend: "ao_network_request_pending op"
  shows "radio_inv (advanced_network_reload_complete now k op ok (radio_emit (Reload_Answered k ok) s))"
proof -
  note w = radio_pending(2) [OF radio_inv_op(2) [OF inv op] pend]
  have "radio_inside k op (radio_emit (Reload_Answered k ok) s)"
    using w by (intro radio_inside_emit [OF radio_inv_op(1) [OF inv op]]) (auto simp: modes_waits_def)
  then have "radio_inside k (op\<lparr>ao_network_request_pending := False, ao_activation := act\<rparr>)
      (radio_emit (Reload_Answered k ok) s)" for act
    by (simp add: radio_inside_def)
  then show ?thesis
    using w pend unfolding advanced_network_reload_complete_def
    by (auto intro!: radio_inside_success simp: modes_waits_def)
qed

lemma advanced_timeout_inv:
  assumes inv: "radio_inv s" and op: "map_of (advanced_operations s) k = Some op"
    and armed: "ao_timeout_source op"
  shows "radio_inv (advanced_operation_timeout now k op s)"
proof -
  let ?s = "radio_emit (Advanced_Timed_Out k) s"
  note ok = radio_inv_op(2) [OF inv op]
  note ins0 = radio_inv_op(1) [OF inv op]
  have "radio_allowed (Advanced_Timed_Out k) (radio_history k (advanced_trace s))"
    using ok armed by (auto simp: radio_op_ok_def bands_waits_def modes_waits_def Let_def split: if_splits)
  then have ins: "radio_inside k op' ?s"
    if "ao_modem op' = ao_modem op" "ao_cooldown_seconds op' = ao_cooldown_seconds op" for op'
    using radio_inside_emit [OF ins0, of "Advanced_Timed_Out k"] radio_inside_cong [OF that] by simp
  show ?thesis
  proof (cases "ao_type op")
    case ADVANCED_OPERATION_BANDS
    let ?op = "op\<lparr>ao_timeout_source := False, ao_timed_out := True, ao_cancelled := True\<rparr>"
    have "bands_waits k op (radio_history k (advanced_trace s))"
      using ok ADVANCED_OPERATION_BANDS by (auto simp: radio_op_ok_def modes_waits_def)
    then have "radio_op_ok ?s k ?op"
      using ok armed by (auto simp: radio_op_ok_def bands_waits_def Let_def split: if_splits)
    with ADVANCED_OPERATION_BANDS show ?thesis
      unfolding advanced_operation_timeout_def Let_def
      by (simp add: radio_inside_put [OF ins [of op]])
  next
    case ADVANCED_OPERATION_MODES
    have "modes_waits k op (radio_history k (advanced_trace s))"
      using ok ADVANCED_OPERATION_MODES by (auto simp: radio_op_ok_def bands_waits_def)
    with ADVANCED_OPERATION_MODES show ?thesis
      unfolding advanced_operation_timeout_def Let_def
      by (auto intro!: radio_inside_success ins simp: modes_waits_def)
  qed
qed

lemma cancel_advanced_inv:
  assumes inv: "radio_inv s"
  shows "radio_inv (cancel_advanced lost now k s)"
proof (cases "map_of (advanced_operations s) k")
  case (Some op)
  note ok = radio_inv_op(2) [OF inv Some]
  let ?op = "op\<lparr>ao_deferred := False, ao_transport_lost := lost\<rparr>"
  have ins: "radio_inside k op' s"
    if "ao_modem op' = ao_modem op" "ao_cooldown_seconds op' = ao_cooldown_seconds op" for op'
    using radio_inv_op(1) [OF inv Some] radio_inside_cong [OF that] by simp
  have "radio_op_ok s k (?op\<lparr>ao_cancelled := True\<rparr>)" if "ao_type op = ADVANCED_OPERATION_BANDS"
    using ok that by (auto simp: radio_op_ok_def bands_waits_def modes_waits_def Let_def split: if_splits)
  then show ?thesis
    using Some radio_inside_free [OF ins, of ?op] radio_inside_put [OF ins, of op "?op\<lparr>ao_cancelled := True\<rparr>"]
    by (cases "ao_type op") (simp_all add: cancel_advanced_def Let_def)
qed (simp add: cancel_advanced_def inv)

lemma cancel_advanced_operations_inv:
  "radio_inv s \<Longrightarrow> radio_inv (cancel_advanced_operations lost now s)"
proof -
  have "radio_inv s \<Longrightarrow> radio_inv (fold (cancel_advanced lost now) ks s)" for ks s
    by (induction ks arbitrary: s) (simp_all add: cancel_advanced_inv)
  then show "radio_inv s \<Longrightarrow> ?thesis" by (simp add: cancel_advanced_operations_def)
qed

section \<open>Requests\<close>

lemma send_advanced_error_inv:
  assumes "radio_inv s"
  shows "radio_inv (send_advanced_error err retry after s)" and "radio_inv (send_lookup_error x s)"
  using assms
  by (auto simp: radio_inv_def radio_frame_def radio_held_def radio_rows_def radio_op_ok_def
      send_advanced_error_def send_lookup_error_def split: prod.split)

lemma radio_free_modem:
  assumes "radio_inv s" and "r < length (modems (radio_bridge s))" and "\<not> mutation_busy (radio_modem_at s r)"
  shows "mutation_kind (radio_modem_at s r) \<noteq> MUTATION_L850"
    and "mutation_kind (radio_modem_at s r) \<noteq> MUTATION_SMS" and "r \<notin> set (radio_held s)"
proof -
  have sms: "sms_service_inv (messages s)" using assms(1) by (simp add: radio_inv_def radio_frame_def)
  show "mutation_kind (radio_modem_at s r) \<noteq> MUTATION_L850" using sms_free_modem(1) [OF sms] assms by simp
  show "mutation_kind (radio_modem_at s r) \<noteq> MUTATION_SMS"
    using sms assms by (auto simp: sms_service_inv_def sms_frame_def)
  show "r \<notin> set (radio_held s)"
    using assms by (auto simp: radio_inv_def radio_frame_def radio_rows_def)
qed

lemma advanced_new_inside:
  assumes inv: "radio_inv s" and r: "r < length (modems (radio_bridge s))"
    and busy: "\<not> mutation_busy (radio_modem_at s r)"
    and new: "advanced_operation_new now r t s = (k, op, s')"
  shows "radio_inside k op s'" and "radio_history k (advanced_trace s') = [Advanced_Started k r t]"
    and "ao_modem op = r" and "ao_type op = t" and "\<not> ao_timed_out op" and "ao_timeout_source op"
    and "\<not> ao_network_request_pending op" and "\<not> ao_call_pending op"
proof -
  let ?s1 = "radio_with_modem r advanced_claim_modem (radio_put k op (radio_emit (Advanced_Started k r t)
      (s\<lparr>next_advanced_operation := Suc k, advanced_owner := AList.update r k (advanced_owner s)\<rparr>)))"
  have k: "k = next_advanced_operation s"
    and op: "ao_modem op = r" "ao_type op = t" "ao_cooldown_seconds op = ADVANCED_SHORT_COOLDOWN_SECONDS"
      "\<not> ao_timed_out op" "ao_timeout_source op" "\<not> ao_network_request_pending op" "\<not> ao_call_pending op"
    and s': "s' = radio_with_modem r (advanced_operation_apply_cooldown now op) ?s1"
    using new by (auto simp: advanced_operation_new_def Let_def)
  show "ao_modem op = r" "ao_type op = t" "\<not> ao_timed_out op" "ao_timeout_source op"
    "\<not> ao_network_request_pending op" "\<not> ao_call_pending op" by (rule op)+
  note free = radio_free_modem [OF inv r busy]
  have frame: "radio_frame s" using inv by (simp add: radio_inv_def)
  then have fresh: "radio_history k (advanced_trace s) = []" "k \<notin> fst ` set (advanced_operations s)"
    by (simp_all add: radio_frame_def k)
  show "radio_history k (advanced_trace s') = [Advanced_Started k r t]" using fresh(1) by (simp add: s')
  have ops: "advanced_operations ?s1 = advanced_operations s @ [(k, op)]"
    by (simp add: update_new_key [OF fresh(2)])
  have held: "radio_held ?s1 = radio_held s @ [r]" unfolding radio_held_def ops by (simp add: op)
  have minv: "sms_service_inv (messages ?s1)"
    using frame tolerated_claim [OF free(1,2)] tolerated_inv [of s r advanced_claim_modem]
    by (simp add: radio_frame_def)
  have owner: "map_of (advanced_owner ?s1) (ao_modem op') = Some k'"
    if "(k', op') \<in> set (advanced_operations ?s1)" for k' op'
  proof (cases "(k', op') = (k, op)")
    case False
    with that have mem: "(k', op') \<in> set (advanced_operations s)" unfolding ops by auto
    then have "ao_modem op' \<noteq> r" using free(3) by (force simp: radio_held_def)
    moreover have "map_of (advanced_owner s) (ao_modem op') = Some k'"
      using mem frame unfolding radio_frame_def by fastforce
    ultimately show ?thesis by (simp add: update_conv')
  qed (simp add: update_conv' op)
  have rows: "radio_rows ?s1"
    using frame r by (auto simp: radio_frame_def radio_rows_def held on_modem_nth advanced_claim_modem_def)
  have "\<forall>q \<in> set (radio_held ?s1). q < length (modems (radio_bridge ?s1))"
    "distinct (map fst (advanced_operations ?s1))" "distinct (radio_held ?s1)"
    using frame r fresh(2) free(3) unfolding held ops by (simp_all add: radio_frame_def)
  moreover have "\<forall>j. radio_protocol (radio_history j (advanced_trace ?s1))"
    "\<forall>j \<ge> next_advanced_operation ?s1. radio_history j (advanced_trace ?s1) = [] \<and>
       j \<notin> fst ` set (advanced_operations ?s1)"
    using frame fresh unfolding radio_frame_def ops by (auto simp: k)
  ultimately have "radio_frame ?s1" unfolding radio_frame_def using minv owner rows by blast
  moreover have "radio_op_ok ?s1 k' op'" if "(k', op') \<in> set (advanced_operations s)" for k' op'
  proof -
    have "k' \<noteq> k" using that fresh(2) by force
    moreover have "radio_op_ok s k' op'" using that inv by (auto simp: radio_inv_def)
    ultimately show ?thesis by (simp add: radio_op_ok_def)
  qed
  ultimately have "radio_inside k op ?s1"
    using fresh(2) op(3) unfolding radio_inside_def ops
    by (auto simp: map_of_eq_None_iff map_add_Some_iff)
  then show "radio_inside k op s'" unfolding s' by (rule radio_cooldown_inside)
qed

lemma advanced_modem_found:
  assumes inv: "radio_inv s" and "advanced_mutation_modem e s i gen = Inr r"
  shows "r < length (modems (radio_bridge s))" and "\<not> mutation_busy (radio_modem_at s r)"
proof -
  have "registry_inv (radio_bridge s)"
    using inv by (simp add: radio_inv_def radio_frame_def sms_service_inv_def sms_frame_def mutation_inv_def frame_inv_def)
  moreover have "l850gl_bridge_find_modem (radio_bridge s) (Some i) = Some r"
    using assms(2) by (auto simp: advanced_mutation_modem_def Let_def split: option.splits if_splits)
  ultimately show "r < length (modems (radio_bridge s))" by (rule find_bound)
  show "\<not> mutation_busy (radio_modem_at s r)"
    using assms(2) by (auto simp: advanced_mutation_modem_def Let_def split: option.splits if_splits)
qed

lemma set_bands_start_inv:
  assumes "radio_inv s" and "r < length (modems (radio_bridge s))" and "\<not> mutation_busy (radio_modem_at s r)"
  shows "radio_inv (set_bands_start now r bands s)"
proof -
  obtain k op s1 where new: "advanced_operation_new now r ADVANCED_OPERATION_BANDS s = (k, op, s1)" by (metis prod_cases3)
  note n = advanced_new_inside [OF assms new]
  let ?op = "op\<lparr>ao_bands := bands, ao_dispatched := True, ao_call_pending := True\<rparr>"
  let ?s = "radio_emit (Bands_Called k r bands) s1"
  have ins: "radio_inside k op ?s" using n(2) by (intro radio_inside_emit [OF n(1)]) simp_all
  then have "ao_cooldown_seconds op = ADVANCED_SHORT_COOLDOWN_SECONDS" by (simp add: radio_inside_def)
  then have "radio_op_ok ?s k ?op" using n by (simp add: radio_op_ok_def bands_waits_def Let_def)
  then show ?thesis by (simp add: set_bands_start_def new radio_inside_put [OF ins])
qed

lemma mode_update_error_honest:
  "result = MODE_UPDATE_VERIFY_FAILED \<Longrightarrow> mode_update_error result = (''outcome_unknown'', False)"
  by (simp add: mode_update_error_def)

lemma mode_update_error_retry:
  "mode_update_error result = (err, True) \<Longrightarrow> result \<noteq> MODE_UPDATE_OK \<Longrightarrow>
     result \<in> {MODE_UPDATE_NONE, MODE_UPDATE_AMBIGUOUS, MODE_UPDATE_ERROR}"
  by (cases result) (simp_all add: mode_update_error_def)

lemma set_modes_start_inv:
  assumes "radio_inv s" and "r < length (modems (radio_bridge s))" and "\<not> mutation_busy (radio_modem_at s r)"
  shows "radio_inv (set_modes_start e r device a p s)"
proof -
  obtain k op s1 where new: "advanced_operation_new (re_now e) r ADVANCED_OPERATION_MODES s = (k, op, s1)"
    by (metis prod_cases3)
  note n = advanced_new_inside [OF assms new]
  let ?result = "fst (l850gl_network_modes_update (re_uci e) (Some device) (Some a) (Some p) (Some cleared_binding))"
  let ?s = "radio_emit (Modes_Written k a p ?result) s1"
  let ?op = "op\<lparr>ao_persisted := True, ao_dispatched := True, ao_activation := Some ''pending''\<rparr>"
  have h: "radio_history k (advanced_trace ?s) = [Modes_Written k a p ?result, Advanced_Started k r ADVANCED_OPERATION_MODES]"
    using n(2) by simp
  have ins: "radio_inside k op ?s" using n(2) by (intro radio_inside_emit [OF n(1)]) simp_all
  show ?thesis
  proof (cases "?result = MODE_UPDATE_OK")
    case False
    have "radio_inv (advanced_operation_complete_error (re_now e) k op err message retry ?s)"
      if "mode_update_error ?result = (err, retry)" for err message retry
      using that False mode_update_error_honest [of ?result] mode_update_error_retry [of ?result err]
      by (intro radio_inside_error [OF ins]) (auto simp: n(2))
    with False show ?thesis by (simp add: set_modes_start_def new Let_def split: prod.split)
  next
    case True
    have ins': "radio_inside k ?op ?s" using ins radio_inside_cong [of ?op op] by simp
    have written: "radio_inv (advanced_operation_complete_success (re_now e) k ?op ?s)"
      using True n(3,4) h by (intro radio_inside_success [OF ins']) simp
    let ?s2 = "radio_emit (Reload_Sent k) ?s"
    have ins2: "radio_inside k ?op ?s2"
      using True h by (intro radio_inside_emit [OF ins']) simp_all
    then have "radio_op_ok ?s2 k (?op\<lparr>ao_network_request_pending := True\<rparr>)"
      using True n h by (simp add: radio_op_ok_def modes_waits_def radio_inside_def)
    then have "radio_inv (radio_put k (?op\<lparr>ao_network_request_pending := True\<rparr>) ?s2)"
      by (intro radio_inside_put [OF ins2]) simp_all
    with True written show ?thesis
      by (simp add: set_modes_start_def new Let_def set_modes_reload_def)
  qed
qed

lemma method_set_bands_inv:
  assumes inv: "radio_inv s"
  shows "radio_inv (method_set_bands e message s)"
proof -
  have "radio_inv (set_bands_start now r bands s)" if "advanced_mutation_modem e s i gen = Inr r" for now r bands i gen
    by (rule set_bands_start_inv [OF inv advanced_modem_found [OF inv that]])
  then show ?thesis
    using send_advanced_error_inv [OF inv]
    by (auto simp: method_set_bands_def split: option.split sum.split prod.split)
qed

lemma method_set_modes_inv:
  assumes inv: "radio_inv s"
  shows "radio_inv (method_set_modes e message s)"
proof -
  have "radio_inv (set_modes_start e r device a p s)" if "advanced_mutation_modem e s i gen = Inr r" for r device a p i gen
    by (rule set_modes_start_inv [OF inv advanced_modem_found [OF inv that]])
  then show ?thesis
    using send_advanced_error_inv [OF inv]
    by (auto simp: method_set_modes_def split: option.split sum.split)
qed

end
