(* ===== verification/Message_Contract.thy ===== *)
theory Message_Contract
  imports Service
begin

text \<open>
  The contract of \<open>Coordinator_Contract\<close>, extended by the changes the message operations make to a
  modem (their own bookkeeping, claiming one that is not busy, releasing one of theirs). The locale
  shows that every input of the message operations and of the coordinator keeps it.
\<close>

locale message_client = coordinator_client +
  assumes quiet: "sms_quiet m m' \<Longrightarrow> rely m m'"
    and sms_claim: "good m \<Longrightarrow> \<not> mutation_busy m \<Longrightarrow> rely m (sms_claim_modem m)"
    and sms_unlock: "mutation_kind m = MUTATION_SMS \<Longrightarrow> rely m (sms_unlock_modem m)"
    and rely_good: "rely m m' \<Longrightarrow> good m \<Longrightarrow> good m'"
    and fresh_good: "fresh m \<Longrightarrow> good m"
begin

abbreviation sms_run_change :: "sms_service \<Rightarrow> sms_service \<Rightarrow> bool" where
  "sms_run_change s s' \<equiv> change (service s) (service s')"

lemma sms_same: "ubus_bridge (service t) = ubus_bridge (service s) \<Longrightarrow> sms_run_change s t"
  by (rule change_bridge)

lemma then_quiet:
  assumes "sms_run_change s t" and "sms_quiet (sms_modem_at t r) (f (sms_modem_at t r))"
  shows "sms_run_change s (sms_with_modem r f t)"
  using change_trans [OF assms(1) change_with [where f = f and r = r, OF quiet [OF assms(2)]]]
  by simp

lemma sms_change_free:
  assumes c: "sms_run_change s t"
  shows "sms_run_change s (sms_operation_free k op t)"
proof -
  let ?r = "so_modem op"
  let ?t = "sms_with_modem ?r (\<lambda>m. l850gl_modem_release_sms_id m (so_sms_id op)) t"
  have t: "sms_run_change s ?t" by (intro then_quiet [OF c] quiet_release)
  have "sms_run_change s (sms_with_modem ?r sms_unlock_modem ?t)" if "mutation_kind (sms_modem_at ?t ?r) = MUTATION_SMS"
  proof -
    from change_trans [OF t change_with [where f = sms_unlock_modem and r = ?r, OF sms_unlock [OF that]]]
    show ?thesis by simp
  qed
  with t show ?thesis by (simp add: sms_operation_free_def Let_def)
qed

lemma sms_change_complete:
  assumes c: "sms_run_change s t"
  shows "sms_run_change s (sms_operation_complete_buffer k op rep t)"
    and "sms_run_change s (sms_operation_complete_error e k op err message retry t)"
    and "sms_run_change s (sms_operation_complete_normalized_error e k op error t)"
    and "sms_run_change s (sms_complete_code e k op err t)"
    and "sms_run_change s (sms_operation_complete_send e k op st t)"
    and "sms_run_change s (sms_operation_complete_delete k op t)"
proof -
  have buffer: "sms_run_change s (sms_operation_complete_buffer k op rep t')" if "sms_run_change s t'" for rep t'
    using sms_change_free [of s "sms_emit (Sms_Replied k rep) t'"] sms_change_free [of s t'] that
    by (simp add: sms_operation_complete_buffer_def)
  show "sms_run_change s (sms_operation_complete_buffer k op rep t)" by (rule buffer [OF c])
  have memory: "sms_run_change s (sms_with_modem r (remember now token out) t)"
    "sms_run_change s (sms_with_modem r (forget now token) t)" for r now token out
    by (intro then_quiet [OF c] quiet_remember, intro then_quiet [OF c] quiet_forget)
  have error: "sms_run_change s (sms_operation_complete_error e k op err message retry t)" for err message retry
    using memory by (auto simp: sms_operation_complete_error_def Let_def intro!: buffer c)
  show "sms_run_change s (sms_operation_complete_error e k op err message retry t)" by (rule error)
  show "sms_run_change s (sms_operation_complete_normalized_error e k op error t)"
    "sms_run_change s (sms_complete_code e k op err t)"
    by (simp_all add: sms_operation_complete_normalized_error_def sms_complete_code_def Let_def error)
  show "sms_run_change s (sms_operation_complete_send e k op st t)" "sms_run_change s (sms_operation_complete_delete k op t)"
    using memory by (auto simp: sms_operation_complete_send_def sms_operation_complete_delete_def Let_def intro!: buffer c)
qed

lemma sms_change_refresh:
  "sms_run_change s t \<Longrightarrow> sms_run_change s (sms_with_modem r (\<lambda>m. fst (l850gl_modem_refresh_sms m)) t)"
  by (intro then_quiet quiet_refresh)

lemma sms_change_admit:
  assumes c: "sms_run_change s t"
  shows "sms_run_change s (sms_admit_created e k op sms t)"
proof -
  let ?r = "so_modem op"
  obtain entry m rnd where run: "l850gl_modem_admit_reserved_sms (env_object_path e) (env_random e)
      (sms_modem_at t ?r) sms (so_sms_id op) = (entry, m, rnd)" by (metis prod_cases3)
  then have c': "sms_run_change s (sms_with_modem ?r (\<lambda>_. m) t)"
    using quiet_admit by (blast intro: then_quiet [OF c])
  then have "sms_run_change s (sms_dispatch_send e k op' (sms_with_modem ?r (\<lambda>_. m) t))" for op'
    using sms_change_complete(4) [OF c']
    by (auto simp: sms_dispatch_send_def sms_call_async_def Let_def split: option.split)
  with sms_change_complete(4) [OF c'] run show ?thesis
    by (cases entry) (simp_all add: sms_admit_created_def)
qed

lemma sms_change_deliver: "sms_run_change s (sms_deliver e k result ok error s)"
proof -
  have c: "sms_run_change s (sms_emit ev s)" for ev by (rule sms_same) simp
  show ?thesis
    using sms_same [of s s]
    by (auto simp: sms_deliver_def sms_create_ready_def sms_send_ready_def sms_delete_ready_def Let_def
        intro!: sms_change_complete sms_change_refresh sms_change_admit c split: option.split sms_call.split)
qed

lemma sms_change_refuse:
  assumes "sms_run_change s t"
  shows "sms_run_change s (send_error err message retry t)" and "sms_run_change s (send_sms_mutation_lookup_error err t)"
    and "sms_run_change s (send_cached_sms_result r cached t)"
  using assms by (simp_all add: send_error_def send_sms_mutation_lookup_error_def send_cached_sms_result_def)

lemma sms_change_new:
  assumes c: "sms_run_change s t" and l: "everywhere good (ubus_bridge (service t))"
    and r: "r < length (modems (ubus_bridge (service t)))" and busy: "\<not> mutation_busy (sms_modem_at t r)"
    and new: "sms_operation_new r ty token t = (k, op, t')"
  shows "sms_run_change s t'"
proof -
  have "sms_run_change t (sms_with_modem r sms_claim_modem t)"
    using change_with [where f = sms_claim_modem and r = r, OF sms_claim] l r busy by (simp add: everywhere_def)
  moreover have "ubus_bridge (service t') = ubus_bridge (service (sms_with_modem r sms_claim_modem t))"
    using new by (auto simp: sms_operation_new_def Let_def with_modem_def)
  ultimately show ?thesis using change_trans [OF c] by simp
qed

lemma change_good:
  assumes "registry_change rely fresh b b'" and "everywhere good b"
  shows "everywhere good b'"
  using assms rely_good fresh_good unfolding everywhere_def registry_change_def
  by (metis linorder_not_less)

lemma sms_change_start:
  assumes c: "sms_run_change s t" and l: "everywhere good (ubus_bridge (service t))"
    and r: "r < length (modems (ubus_bridge (service t)))" and busy: "\<not> mutation_busy (sms_modem_at t r)"
  shows "sms_run_change s (sms_send_start e r req digest i t)" and "sms_run_change s (sms_delete_start e r dreq entry t)"
proof -
  obtain k op t1 where new: "sms_operation_new r SMS_OPERATION_SEND (Some (snd_client_token req)) t = (k, op, t1)"
    by (metis prod_cases3)
  have "sms_run_change s (sms_with_modem r (remember now token out) t1)" for now token out
    by (intro then_quiet [OF sms_change_new [OF c l r busy new]] quiet_remember)
  then show "sms_run_change s (sms_send_start e r req digest i t)"
    by (auto simp: sms_send_start_def new Let_def sms_call_async_def intro!: sms_change_complete)
  obtain k op t1 where new: "sms_operation_new r SMS_OPERATION_DELETE None t = (k, op, t1)" by (metis prod_cases3)
  note c1 = sms_change_new [OF c l r busy new]
  show "sms_run_change s (sms_delete_start e r dreq entry t)"
    using c1 sms_change_complete(4) [OF c1] sms_change_refuse [OF c]
    by (auto simp: sms_delete_start_def new Let_def sms_call_async_def split: option.split)
qed

lemma sms_change_send_on:
  assumes l: "everywhere good (ubus_bridge (service s))"
    and r: "r < length (modems (ubus_bridge (service s)))"
  shows "sms_run_change s (sms_send_on e r req digest s)"
proof -
  obtain cached queue where find: "sms_dedupe_find (env_now e) (dedupe_queue (sms_modem_at s r))
      (snd_client_token req) = (cached, queue)" by fastforce
  let ?s = "sms_with_modem r (\<lambda>m. m\<lparr>dedupe_queue := queue\<rparr>) s"
  have q: "queue = snd (sms_dedupe_find (env_now e) (dedupe_queue (sms_modem_at s r)) (snd_client_token req))"
    by (simp add: find)
  have c1: "sms_run_change s ?s" unfolding q by (intro then_quiet [OF sms_same] quiet_find) simp
  obtain i m rnd where res: "l850gl_modem_reserve_sms_id (env_random e) (sms_modem_at ?s r) = (i, m, rnd)"
    by (metis prod_cases3)
  have c2: "sms_run_change s (sms_with_modem r (\<lambda>_. m) ?s)" by (intro then_quiet [OF c1] quiet_reserve [OF res])
  have "mutation_busy (sms_modem_at (sms_with_modem r (\<lambda>_. m) ?s) r) = mutation_busy (sms_modem_at ?s r)"
    using quiet_reserve [OF res] r by (simp add: sms_quiet_def on_modem_nth)
  then have start: "sms_run_change s (sms_send_start e r req digest j (sms_with_modem r (\<lambda>_. m) ?s))"
    if "\<not> mutation_busy (sms_modem_at ?s r)" for j
    using that r by (intro sms_change_start(1) [OF c2 change_good [OF c2 l]]) simp_all
  have "sms_run_change s (case (i, m, rnd) of
      (None, m, rnd) \<Rightarrow> send_sms_mutation_lookup_error ''internal_error'' (sms_with_modem r (\<lambda>_. m) ?s)
    | (Some sms_id, m, rnd) \<Rightarrow> sms_send_start e r req digest sms_id (sms_with_modem r (\<lambda>_. m) ?s))"
    if "\<not> mutation_busy (sms_modem_at ?s r)"
    using that start sms_change_refuse(2) [OF c2] by (cases i) simp_all
  then show ?thesis
    using sms_change_refuse [OF c1] unfolding sms_send_on_def find Let_def res prod.case
    by (auto split: option.split)
qed

lemma sms_change_exec:
  assumes inv: "sms_service_inv s" and l: "everywhere good (ubus_bridge (service s))"
  shows "sms_run_change s (sms_exec i s)"
proof -
  have same: "sms_run_change s s" by (rule sms_same) simp
  have refresh: "sms_run_change s (sms_with_modem r (\<lambda>m. fst (l850gl_modem_refresh_sms m)) s)" for r
    using same by (rule sms_change_refresh)
  show ?thesis
  proof (cases i)
    case (Coordinator j)
    with change_exec [OF l] show ?thesis by (simp add: sms_exec_def)
  next
    case (Send_Request e message)
    then show ?thesis
      using sms_change_refuse [OF same] sms_change_send_on [OF l sms_mutation_modem_bound [OF inv]]
      by (auto simp: sms_exec_def method_send_sms_def split: option.split prod.split bool.split sum.split)
  next
    case (Delete_Request e message)
    then show ?thesis
      using sms_change_refuse [OF same] sms_change_refuse [OF refresh] sms_change_start(2) [OF same l sms_mutation_modem_bound [OF inv]]
      by (auto simp: sms_exec_def method_delete_sms_def Let_def split: option.split sum.split)
  qed (use same sms_change_deliver in \<open>auto simp: sms_exec_def sms_fire_timeout_def sms_operation_timeout_def
      cancel_sms_operations_def split: option.split\<close>)
qed

end

end
