(* ===== verification/Radio_Contract.thy ===== *)
theory Radio_Contract
  imports Radio_Handlers Message_Contract
begin

text \<open>
  What the band and mode operations rely on of the modems they hold; that the bridge, the cell lock
  coordinator and the message operations keep it (an interpretation of their contract), and that
  the invariant survives every such change.
\<close>

section \<open>The contract\<close>

definition advanced_rely :: "modem \<Rightarrow> modem \<Rightarrow> bool" where
  "advanced_rely m m' \<longleftrightarrow> (mutation_kind m' = MUTATION_ADVANCED \<longleftrightarrow> mutation_kind m = MUTATION_ADVANCED) \<and>
     (mutation_kind m = MUTATION_ADVANCED \<longrightarrow> mutation_busy m' = mutation_busy m)"

definition advanced_fresh :: "modem \<Rightarrow> bool" where
  "advanced_fresh m \<longleftrightarrow> mutation_kind m \<noteq> MUTATION_ADVANCED"

lemma advanced_rely_ops [simp]:
  "advanced_rely m m" "advanced_rely m (modem_mark_removed m)" "advanced_rely m (fst (query_sim m))"
  "advanced_rely m (fst (query_bearers m))" "advanced_rely m (fst (query_sms m))"
  "advanced_rely m (fst (reconcile_messaging current force_epoch m))"
  subgoal by (simp add: advanced_rely_def)
  subgoal by (simp add: advanced_rely_def modem_mark_removed_def clear_sms_cache_def disconnect_messaging_signals_def)
  subgoal by (simp add: advanced_rely_def query_sim_def)
  subgoal by (simp add: advanced_rely_def query_bearers_def)
  subgoal by (simp add: advanced_rely_def query_sms_def split: option.splits)
  subgoal by (auto simp: advanced_rely_def reconcile_messaging_def Let_def query_sms_def sms_revision_bump_def
        clear_sms_cache_def disconnect_messaging_signals_def split: option.splits)
  done

lemma advanced_rely_clients:
  "locked_for MUTATION_ADVANCED m \<Longrightarrow> \<not> mutation_busy m \<Longrightarrow> advanced_rely m (claim_modem m)"
  "advanced_rely m (l850_mutation_release_modem now cooldown m)"
  "serving_cell_cache_store m a b c d p x q now reason = (ok, m') \<Longrightarrow> advanced_rely m m'"
  "sms_quiet m m' \<Longrightarrow> advanced_rely m m'"
  "locked_for MUTATION_ADVANCED m \<Longrightarrow> \<not> mutation_busy m \<Longrightarrow> advanced_rely m (sms_claim_modem m)"
  "mutation_kind m = MUTATION_SMS \<Longrightarrow> advanced_rely m (sms_unlock_modem m)"
  by (auto simp: advanced_rely_def locked_for_def claim_modem_def sms_quiet_def sms_claim_modem_def sms_unlock_modem_def l850_mutation_release_modem_def
      l850_mutation_apply_cooldown_def serving_cell_cache_store_def Let_def split: if_splits option.splits)

interpretation radio: message_client advanced_rely advanced_fresh "locked_for MUTATION_ADVANCED"
  by unfold_locales
    (simp_all add: advanced_rely_clients, auto simp: advanced_rely_def advanced_fresh_def locked_for_def modem_new_def)

abbreviation radio_change :: "sms_service \<Rightarrow> sms_service \<Rightarrow> bool" where
  "radio_change s s' \<equiv> radio.change (service s) (service s')"

lemma radio_environment_inv:
  assumes inv: "radio_inv s" and m: "sms_service_inv t" and c: "radio_change (messages s) t"
  shows "radio_inv (s\<lparr>messages := t\<rparr>)"
proof -
  let ?s = "s\<lparr>messages := t\<rparr>"
  have frame: "radio_frame s" using inv by (simp add: radio_inv_def)
  have held: "radio_held ?s = radio_held s" by (simp add: radio_held_def)
  have "radio_rows ?s"
    unfolding radio_rows_def held
  proof (intro allI impI)
    fix r
    assume r: "r < length (modems (radio_bridge ?s))"
    show "(mutation_kind (radio_modem_at ?s r) = MUTATION_ADVANCED \<longleftrightarrow> r \<in> set (radio_held s)) \<and>
      (r \<in> set (radio_held s) \<longrightarrow> mutation_busy (radio_modem_at ?s r))"
    proof (cases "r < length (modems (radio_bridge s))")
      case True
      with c have "advanced_rely (radio_modem_at s r) (radio_modem_at ?s r)" by (simp add: registry_change_def)
      with True frame show ?thesis by (auto simp: radio_frame_def radio_rows_def advanced_rely_def)
    next
      case False
      with c r have "advanced_fresh (radio_modem_at ?s r)" by (simp add: registry_change_def)
      with False frame show ?thesis by (auto simp: radio_frame_def advanced_fresh_def)
    qed
  qed
  moreover have "\<forall>r \<in> set (radio_held ?s). r < length (modems (radio_bridge ?s))"
    using frame c unfolding held by (auto simp: radio_frame_def registry_change_def)
  ultimately have "radio_frame ?s" using frame m unfolding radio_frame_def held by simp
  with inv show ?thesis by (auto simp: radio_inv_def radio_op_ok_def)
qed

end
