(* ===== verification/Radio_Service.thy ===== *)
theory Radio_Service
  imports Radio_Contract
begin

text \<open>
  The service with its three kinds of operation: band and mode operations beside messages, the cell
  lock coordinator and the bridge, under every order of requests, answers, timers, cancellations
  and signals, as executable scripts. No lock is lost or shared, replies are true, operations end,
  the cool-down holds, and bands are only written as a request allows.
\<close>

section \<open>Scripts\<close>

text \<open>
  Everything that can happen to the service: an input of the rest of it, a request, the answer to
  the call of a band operation (with the modem proxy it came from) or of the reload, a timer, or
  the cancellation of all operations. An answer nobody waits for and a timer that is not armed
  change nothing.
\<close>

datatype 'p radio_input =
    Rest sms_input
  | Bands_Request "'p radio_env" "set_bands_request option"
  | Modes_Request "'p radio_env" "set_modes_request option"
  | Bands_Answer bool int nat nat bool "gerror option"
  | Reload_Done int nat bool
  | Radio_Timeout int nat
  | Radio_Cancel bool int

definition bands_deliver ::
    "bool \<Rightarrow> int \<Rightarrow> nat \<Rightarrow> nat \<Rightarrow> bool \<Rightarrow> gerror option \<Rightarrow> radio_service \<Rightarrow> radio_service" where
  "bands_deliver mm_1_24 now k source ok error s =
     (case map_of (advanced_operations s) k of
        None \<Rightarrow> s
      | Some op \<Rightarrow>
          if ao_call_pending op
          then advanced_operation_ready mm_1_24 now k op source ok error 
                 (radio_emit (Bands_Answered k ok error (live (radio_modem_at s (ao_modem op)))) s)
          else s)"

definition reload_deliver :: "int \<Rightarrow> nat \<Rightarrow> bool \<Rightarrow> radio_service \<Rightarrow> radio_service" where
  "reload_deliver now k ok s =
     (case map_of (advanced_operations s) k of
        None \<Rightarrow> s
      | Some op \<Rightarrow>
          if ao_network_request_pending op
          then advanced_network_reload_complete now k op ok (radio_emit (Reload_Answered k ok) s)
          else s)"

definition radio_fire_timeout :: "int \<Rightarrow> nat \<Rightarrow> radio_service \<Rightarrow> radio_service" where
  "radio_fire_timeout now k s =
     (case map_of (advanced_operations s) k of
        None \<Rightarrow> s
      | Some op \<Rightarrow> if ao_timeout_source op then advanced_operation_timeout now k op s else s)"

definition radio_exec :: "'p radio_input \<Rightarrow> radio_service \<Rightarrow> radio_service" where
  "radio_exec i s =
     (case i of
        Rest j \<Rightarrow> s\<lparr>messages := sms_exec j (messages s)\<rparr>
      | Bands_Request e message \<Rightarrow> method_set_bands e message s
      | Modes_Request e message \<Rightarrow> method_set_modes e message s
      | Bands_Answer mm_1_24 now k source ok error \<Rightarrow> bands_deliver mm_1_24 now k source ok error s
      | Reload_Done now k ok \<Rightarrow> reload_deliver now k ok s
      | Radio_Timeout now k \<Rightarrow> radio_fire_timeout now k s
      | Radio_Cancel lost now \<Rightarrow> cancel_advanced_operations lost now s)"

definition radio_init :: radio_service where
  "radio_init = \<lparr>messages = sms_init, advanced_operations = [], advanced_owner = [],
     next_advanced_operation = 0, advanced_trace = []\<rparr>"

definition radio_after :: "'p radio_input list \<Rightarrow> radio_service" where
  "radio_after script = fold radio_exec script radio_init"

lemma radio_inv_locked: "radio_inv s \<Longrightarrow> everywhere (locked_for MUTATION_ADVANCED) (radio_bridge s)"
  by (auto simp: radio_inv_def radio_frame_def radio_rows_def everywhere_def locked_for_def)

lemma radio_exec_inv:
  assumes inv: "radio_inv s"
  shows "radio_inv (radio_exec i s)"
proof (cases i)
  case (Rest j)
  have "sms_service_inv (messages s)" using inv by (simp add: radio_inv_def radio_frame_def)
  then show ?thesis
    using Rest radio_environment_inv [OF inv sms_exec_inv] radio.sms_change_exec radio_inv_locked [OF inv]
    by (simp add: radio_exec_def)
next
  case (Bands_Answer v now k source ok error)
  then show ?thesis
    using inv advanced_ready_inv [OF inv] by (simp add: radio_exec_def bands_deliver_def split: option.split)
next
  case (Reload_Done now k ok)
  then show ?thesis
    using inv reload_inv [OF inv] by (simp add: radio_exec_def reload_deliver_def split: option.split)
next
  case (Radio_Timeout now k)
  then show ?thesis
    using inv advanced_timeout_inv [OF inv] by (simp add: radio_exec_def radio_fire_timeout_def split: option.split)
qed (use inv in \<open>simp_all add: radio_exec_def method_set_bands_inv method_set_modes_inv
    cancel_advanced_operations_inv\<close>)

lemma radio_init_inv: "radio_inv radio_init"
  using sms_init_inv
  by (simp add: radio_inv_def radio_frame_def radio_rows_def radio_held_def radio_history_def radio_init_def
      sms_init_def mutation_init_def l850gl_bridge_new_def)

lemma radio_fold_inv: "radio_inv s \<Longrightarrow> radio_inv (fold radio_exec script s)"
  by (induction script arbitrary: s) (simp_all add: radio_exec_inv)

lemma radio_after_inv: "radio_inv (radio_after script)"
  using radio_fold_inv [OF radio_init_inv] by (simp add: radio_after_def)

section \<open>The contract, for band and mode operations\<close>

text \<open>
  The contract of \<open>Message_Contract\<close>, extended by the three changes a band or mode operation makes
  to a modem; every script of the whole service keeps it.
\<close>

locale radio_client = message_client +
  assumes radio_cooldown: "rely m (advanced_operation_apply_cooldown now op m)"
    and radio_claim: "good m \<Longrightarrow> \<not> mutation_busy m \<Longrightarrow> rely m (advanced_claim_modem m)"
    and radio_unlock: "mutation_kind m = MUTATION_ADVANCED \<Longrightarrow> rely m (advanced_unlock_modem m)"
begin

abbreviation radio_run_change :: "radio_service \<Rightarrow> radio_service \<Rightarrow> bool" where
  "radio_run_change s s' \<equiv> sms_run_change (messages s) (messages s')"

lemma radio_same: "radio_bridge t = radio_bridge s \<Longrightarrow> radio_run_change s t"
  by (rule sms_same)

lemma radio_change_with:
  "radio_run_change s t \<Longrightarrow> rely (radio_modem_at t r) (f (radio_modem_at t r)) \<Longrightarrow>
   radio_run_change s (radio_with_modem r f t)"
  using change_trans change_with [of "service (messages t)" r f] by simp

lemma radio_change_free:
  assumes "radio_run_change s t"
  shows "radio_run_change s (advanced_operation_free now k op t)"
proof -
  let ?t = "radio_with_modem (ao_modem op) (advanced_operation_apply_cooldown now op) t"
  have t: "radio_run_change s ?t" using assms by (rule radio_change_with) (rule radio_cooldown)
  have "radio_run_change s (radio_with_modem r advanced_unlock_modem ?t)"
    if "mutation_kind (radio_modem_at ?t r) = MUTATION_ADVANCED" for r
    using t radio_unlock [OF that] by (rule radio_change_with)
  with t show ?thesis by (simp add: advanced_operation_free_def Let_def)
qed

lemma radio_change_complete:
  assumes "radio_run_change s t"
  shows "radio_run_change s (advanced_operation_complete_buffer now k op rep t)"
    and "radio_run_change s (advanced_operation_complete_error now k op err message retry t)"
    and "radio_run_change s (advanced_operation_complete_success now k op t)"
  using assms
  by (simp_all add: advanced_operation_complete_error_def advanced_operation_complete_success_def
      advanced_operation_complete_buffer_def Let_def radio_change_free)

lemma radio_change_ready:
  "radio_run_change s t \<Longrightarrow> radio_run_change s (advanced_operation_ready v now k op source ok error t)"
  by (simp add: advanced_operation_ready_def Let_def radio_change_complete split: option.split)

lemma radio_change_cancel:
  "radio_run_change s t \<Longrightarrow> radio_run_change s (fold (cancel_advanced lost now) ks t)"
  by (induction ks arbitrary: t) (simp_all add: cancel_advanced_def Let_def radio_change_free split: option.split)

lemma radio_change_refuse:
  "radio_run_change s t \<Longrightarrow> radio_run_change s (send_advanced_error err retry after t)"
  "radio_run_change s t \<Longrightarrow> radio_run_change s (send_lookup_error x t)"
  by (simp_all add: send_advanced_error_def send_lookup_error_def split: prod.split)

lemma radio_change_new:
  assumes good: "everywhere good (radio_bridge s)" and r: "r < length (modems (radio_bridge s))"
    and busy: "\<not> mutation_busy (radio_modem_at s r)" and new: "advanced_operation_new now r ty s = (k, op, s')"
  shows "radio_run_change s s'"
proof -
  have t: "radio_run_change s (radio_put k op (radio_emit (Advanced_Started k r ty)
      (s\<lparr>next_advanced_operation := Suc k, advanced_owner := own\<rparr>)))" (is "radio_run_change s ?t") for own
    by (rule radio_same) simp
  have "rely (radio_modem_at s r) (advanced_claim_modem (radio_modem_at s r))"
    using good r busy by (intro radio_claim) (simp_all add: everywhere_def)
  then have "radio_run_change s (radio_with_modem r (advanced_operation_apply_cooldown now op)
      (radio_with_modem r advanced_claim_modem (radio_put k op (radio_emit (Advanced_Started k r ty)
      (s\<lparr>next_advanced_operation := Suc k, advanced_owner := own\<rparr>)))))" for own
    by (intro radio_change_with t radio_cooldown) simp
  with new show ?thesis by (auto simp: advanced_operation_new_def Let_def)
qed

lemma radio_change_start:
  assumes "everywhere good (radio_bridge s)" and "r < length (modems (radio_bridge s))"
    and "\<not> mutation_busy (radio_modem_at s r)"
  shows "radio_run_change s (set_bands_start now r bands s)" and "radio_run_change s (set_modes_start e r device a p s)"
  using radio_change_new [OF assms]
  by (auto simp: set_bands_start_def set_modes_start_def set_modes_reload_def Let_def radio_change_complete
      split: prod.split)

lemma radio_change_exec:
  assumes inv: "radio_inv s" and good: "everywhere good (radio_bridge s)"
  shows "radio_run_change s (radio_exec i s)"
proof -
  have same: "radio_run_change s s" by (rule radio_same) simp
  have sms: "sms_service_inv (messages s)" using inv by (simp add: radio_inv_def radio_frame_def)
  have pending: "radio_run_change s (radio_emit ev s)" for ev using same by simp
  note start = radio_change_start [OF good advanced_modem_found [OF inv]]
  show ?thesis
  proof (cases i)
    case (Rest j)
    with sms_change_exec [OF sms good] show ?thesis by (simp add: radio_exec_def)
  qed (use same start in \<open>auto simp: radio_exec_def method_set_bands_def method_set_modes_def bands_deliver_def
      reload_deliver_def radio_fire_timeout_def advanced_network_reload_complete_def advanced_operation_timeout_def
      cancel_advanced_operations_def Let_def pending radio_change_ready radio_change_complete radio_change_cancel
      radio_change_refuse split: option.split sum.split\<close>)
qed

lemma radio_fold:
  assumes "radio_inv s" and "everywhere good (radio_bridge s)"
  shows "radio_run_change s (fold radio_exec script s) \<and> everywhere good (radio_bridge (fold radio_exec script s))"
  using assms
proof (induction script arbitrary: s)
  case Nil
  then show ?case using radio_same [of s s] by simp
next
  case (Cons i script)
  note step = radio_change_exec [OF Cons.prems, of i]
  have "radio_run_change (radio_exec i s) (fold radio_exec script (radio_exec i s)) \<and>
      everywhere good (radio_bridge (fold radio_exec script (radio_exec i s)))"
    using Cons.IH [OF radio_exec_inv [OF Cons.prems(1)] change_good [OF step Cons.prems(2)]] .
  with change_trans [OF step] show ?case by simp
qed

end

section \<open>Locks and cool-downs\<close>

text \<open>A modem is busy exactly while it has a kind of operation, and its cool-down never shrinks.\<close>

definition lock_consistent :: "modem \<Rightarrow> bool" where
  "lock_consistent m \<longleftrightarrow> (mutation_busy m \<longleftrightarrow> mutation_kind m \<noteq> MUTATION_NONE)"

definition lock_rely :: "modem \<Rightarrow> modem \<Rightarrow> bool" where
  "lock_rely m m' \<longleftrightarrow> (lock_consistent m \<longrightarrow> lock_consistent m') \<and>
     advanced_cooldown_until m \<le> advanced_cooldown_until m'"

lemma lock_rely_ops [simp]:
  "lock_rely m m" "lock_rely m (modem_mark_removed m)" "lock_rely m (fst (query_sim m))"
  "lock_rely m (fst (query_bearers m))" "lock_rely m (fst (query_sms m))"
  "lock_rely m (fst (reconcile_messaging current force_epoch m))"
  subgoal by (simp add: lock_rely_def)
  subgoal by (simp add: lock_rely_def lock_consistent_def modem_mark_removed_def clear_sms_cache_def disconnect_messaging_signals_def)
  subgoal by (simp add: lock_rely_def lock_consistent_def query_sim_def)
  subgoal by (simp add: lock_rely_def lock_consistent_def query_bearers_def)
  subgoal by (simp add: lock_rely_def lock_consistent_def query_sms_def split: option.splits)
  subgoal by (auto simp: lock_rely_def lock_consistent_def reconcile_messaging_def Let_def query_sms_def sms_revision_bump_def
        clear_sms_cache_def disconnect_messaging_signals_def split: option.splits)
  done

lemma lock_rely_clients:
  "\<not> mutation_busy m \<Longrightarrow> lock_rely m (claim_modem m)"
  "lock_rely m (l850_mutation_release_modem now cooldown m)"
  "serving_cell_cache_store m a b c d p x q now reason = (ok, m') \<Longrightarrow> lock_rely m m'"
  "sms_quiet m m' \<Longrightarrow> lock_rely m m'"
  "lock_rely m (sms_claim_modem m)"
  "lock_rely m (sms_unlock_modem m)"
  by (auto simp: lock_rely_def lock_consistent_def claim_modem_def sms_quiet_def sms_claim_modem_def sms_unlock_modem_def l850_mutation_release_modem_def
      l850_mutation_apply_cooldown_def serving_cell_cache_store_def Let_def split: if_splits option.splits)

lemma lock_rely_radio [simp]:
  "lock_rely m (advanced_operation_apply_cooldown now op m)" "lock_rely m (advanced_claim_modem m)"
  "lock_rely m (advanced_unlock_modem m)"
  by (simp_all add: lock_rely_def lock_consistent_def advanced_operation_apply_cooldown_def
      advanced_claim_modem_def advanced_unlock_modem_def)

interpretation locked: radio_client lock_rely lock_consistent lock_consistent
  by unfold_locales
    (simp_all add: lock_rely_clients, auto simp: lock_rely_def lock_consistent_def modem_new_def)

abbreviation lock_change :: "radio_service \<Rightarrow> radio_service \<Rightarrow> bool" where
  "lock_change s s' \<equiv> locked.radio_run_change s s'"

lemma radio_after_consistent: "everywhere lock_consistent (radio_bridge (radio_after script))"
  using locked.radio_fold [OF radio_init_inv, of script]
  by (simp add: radio_after_def everywhere_def radio_init_def sms_init_def mutation_init_def l850gl_bridge_new_def)

section \<open>A sample run\<close>

definition radio_sample_env :: "int \<Rightarrow> uci_section list radio_env" where
  "radio_sample_env now = \<lparr>re_around = around (expert_env now), re_mm_1_24 = True, re_now = now, re_owner = True,
     re_current_modes = (\<lambda>_. Some (MM_MODE_4G, MM_MODE_NONE)), re_device = (\<lambda>_. Some ''/sys/devices/usb1''),
     re_uci = sample_uci, re_network_found = True, re_reload_sent = True\<rparr>"

definition band_attr :: "cstring \<Rightarrow> blob_attr" where
  "band_attr name = \<lparr>ba_check = (\<lambda>named remaining. 20 \<le> remaining), ba_name = [], ba_type = BLOBMSG_TYPE_STRING,
     ba_data = name @ [NUL], ba_padded = 20\<rparr>"

definition sample_bands_request :: set_bands_request where
  "sample_bands_request = \<lparr>sb_modem_id = modem_name, sb_generation = 1,
     sb_bands = Some \<lparr>bm_length = 20, bm_attr = (\<lambda>_. band_attr ''eutran-3'')\<rparr>, sb_confirm = True\<rparr>"

definition sample_modes_request :: set_modes_request where
  "sample_modes_request = \<lparr>sm_modem_id = modem_name, sm_generation = 1, sm_allowed = ''3g|4g'',
     sm_preferred = ''4g'', sm_confirm = True\<rparr>"

text \<open>
  A modem appears, its bands are set, a mode request comes a microsecond too early and is refused, the
  next one is written, and the network daemon reloads.
\<close>

definition radio_script :: "uci_section list radio_input list" where
  "radio_script =
     [Rest (Coordinator (Flags True True False [] [])),
      Rest (Coordinator (Bridge (Object_Added (\<lambda>_. True) (expert_random 1) (expert_object 7 ''/Modem/0'')))),
      Bands_Request (radio_sample_env 1) (Some sample_bands_request),
      Bands_Answer True 2 0 7 True None,
      Modes_Request (radio_sample_env 10000001) (Some sample_modes_request),
      Modes_Request (radio_sample_env 10000002) (Some sample_modes_request),
      Reload_Done 10000003 1 True]"

definition radio_run :: "nat \<Rightarrow> radio_service" where
  "radio_run n = radio_after (take n radio_script)"

definition radio_found :: "radio_service \<Rightarrow> nat option" where
  "radio_found s = l850gl_bridge_find_modem (radio_bridge s) (Some modem_name)"

definition sample_error :: advanced_reply where
  "sample_error = Advanced_Error ''busy'' ''Another modem mutation or cooldown is in progress'' True 1"

text \<open>The division by 1000 without the comparison through the natural numbers.\<close>

lemma cooldown_remaining_code [code]:
  "cooldown_remaining_ms deadline now =
     (if deadline \<le> 0 \<or> deadline - now \<le> 0 then 0
      else if 4294967295 < (deadline - now + 999) div 1000 then 4294967295
      else of_int ((deadline - now + 999) div 1000))"
  by (simp add: cooldown_remaining_ms_def Let_def UINT32_MAX_def)

definition radio_table :: "radio_service \<Rightarrow> (nat \<times> advanced_type \<times> nat) list" where
  "radio_table s = map (\<lambda>(k, op). (k, ao_type op, ao_modem op)) (advanced_operations s)"

lemma radio_sampled:
  "(let ss = runs radio_exec radio_script radio_init in
      (advanced_trace (ss ! 7), [advanced_trace (ss ! 2), advanced_trace (ss ! 3)],
       [radio_table (ss ! 2), radio_table (ss ! 3), radio_table (ss ! 4), radio_table (ss ! 6)], radio_found (ss ! 4))) =
   ([Advanced_Replied 1 (Advanced_Accepted 0 ADVANCED_OPERATION_MODES 10000 (Some (True, ''reloaded''))),
     Reload_Answered 1 True, Reload_Sent 1, Modes_Written 1 ''3g|4g'' ''4g'' MODE_UPDATE_OK,
     Advanced_Started 1 0 ADVANCED_OPERATION_MODES, Advanced_Direct sample_error,
     Advanced_Replied 0 (Advanced_Accepted 0 ADVANCED_OPERATION_BANDS 10000 None), Bands_Answered 0 True None True,
     Bands_Called 0 0 [73], Advanced_Started 0 0 ADVANCED_OPERATION_BANDS],
    [[], [Bands_Called 0 0 [73], Advanced_Started 0 0 ADVANCED_OPERATION_BANDS]],
    [[], [(0, ADVANCED_OPERATION_BANDS, 0)], [], [(1, ADVANCED_OPERATION_MODES, 0)]], Some 0)"
  by code_simp

lemma radio_run_nth:
  assumes "n \<le> 7"
  shows "runs radio_exec radio_script radio_init ! n = radio_run n"
proof -
  have "length radio_script = 7" by (simp add: radio_script_def)
  with assms show ?thesis by (simp add: radio_run_def radio_after_def runs_nth)
qed

lemma radio_run_trace:
  "advanced_trace (radio_run 7) =
    [Advanced_Replied 1 (Advanced_Accepted 0 ADVANCED_OPERATION_MODES 10000 (Some (True, ''reloaded''))),
     Reload_Answered 1 True, Reload_Sent 1, Modes_Written 1 ''3g|4g'' ''4g'' MODE_UPDATE_OK,
     Advanced_Started 1 0 ADVANCED_OPERATION_MODES, Advanced_Direct sample_error,
     Advanced_Replied 0 (Advanced_Accepted 0 ADVANCED_OPERATION_BANDS 10000 None), Bands_Answered 0 True None True,
     Bands_Called 0 0 [73], Advanced_Started 0 0 ADVANCED_OPERATION_BANDS]"
  and radio_run_early: "advanced_trace (radio_run 2) = []"
    "advanced_trace (radio_run 3) = [Bands_Called 0 0 [73], Advanced_Started 0 0 ADVANCED_OPERATION_BANDS]"
  and radio_run_tables: "radio_table (radio_run 2) = []" "radio_table (radio_run 3) = [(0, ADVANCED_OPERATION_BANDS, 0)]"
    "radio_table (radio_run 4) = []" "radio_table (radio_run 6) = [(1, ADVANCED_OPERATION_MODES, 0)]"
  and radio_run_found: "radio_found (radio_run 4) = Some 0"
  using radio_sampled by (simp_all add: Let_def radio_run_nth)

end
