(* ===== verification/Radio_Properties.thy ===== *)
theory Radio_Properties
  imports Radio_Service
begin

text \<open>
  What the service promises of band and mode operations, and of locks in general, whatever the order
  of its inputs.
\<close>

section \<open>Who holds a modem\<close>

definition others_held :: "radio_service \<Rightarrow> nat list" where
  "others_held s = held_all (service (messages s)) @ sms_held (messages s)"

lemma others_held_parts:
  assumes "radio_inv s" and "r < length (modems (radio_bridge s))"
  shows "r \<in> set (held_all (service (messages s))) \<longleftrightarrow> mutation_kind (radio_modem_at s r) = MUTATION_L850"
    and "r \<in> set (sms_held (messages s)) \<longleftrightarrow> mutation_kind (radio_modem_at s r) = MUTATION_SMS"
    and "r \<in> set (radio_held s) \<longleftrightarrow> mutation_kind (radio_modem_at s r) = MUTATION_ADVANCED"
proof -
  have sms: "sms_frame (messages s)" using assms(1) by (simp add: radio_inv_def radio_frame_def sms_service_inv_def)
  then have "locks (service (messages s))" by (simp add: sms_frame_def mutation_inv_def frame_inv_def)
  then show "r \<in> set (held_all (service (messages s))) \<longleftrightarrow> mutation_kind (radio_modem_at s r) = MUTATION_L850"
    using assms(2) by (simp add: locks_def)
  show "r \<in> set (sms_held (messages s)) \<longleftrightarrow> mutation_kind (radio_modem_at s r) = MUTATION_SMS"
    using sms assms(2) by (simp add: sms_frame_def)
  show "r \<in> set (radio_held s) \<longleftrightarrow> mutation_kind (radio_modem_at s r) = MUTATION_ADVANCED"
    using assms by (simp add: radio_inv_def radio_frame_def radio_rows_def)
qed

lemma held_distinct:
  assumes "radio_inv s"
  shows "distinct (others_held s @ radio_held s)"
proof -
  have sms: "sms_frame (messages s)" and radio: "radio_frame s"
    using assms by (simp_all add: radio_inv_def radio_frame_def sms_service_inv_def)
  then have locks: "locks (service (messages s))" by (simp add: sms_frame_def mutation_inv_def frame_inv_def)
  have bound: "r < length (modems (radio_bridge s))" if "r \<in> set (sms_held (messages s)) \<union> set (radio_held s)" for r
  proof -
    have "\<forall>r \<in> set (sms_held (messages s)). r < length (modems (radio_bridge s))"
      "\<forall>r \<in> set (radio_held s). r < length (modems (radio_bridge s))"
      using sms radio by (simp_all add: sms_frame_def radio_frame_def)
    with that show ?thesis by blast
  qed
  have parts: "distinct (held_all (service (messages s)))" "distinct (sms_held (messages s))" "distinct (radio_held s)"
    using locks sms radio by (simp_all add: locks_def sms_frame_def radio_frame_def)
  have "r \<notin> set (held_all (service (messages s)))" if "r \<in> set (sms_held (messages s))" for r
  proof -
    have "r < length (modems (radio_bridge s))" using bound that by simp
    with others_held_parts(1,2) [OF assms this] that show ?thesis by simp
  qed
  moreover have "r \<notin> set (others_held s)" if "r \<in> set (radio_held s)" for r
  proof -
    have "r < length (modems (radio_bridge s))" using bound that by simp
    with others_held_parts [OF assms this] that show ?thesis by (simp add: others_held_def)
  qed
  ultimately have "set (held_all (service (messages s))) \<inter> set (sms_held (messages s)) = {}"
    "set (others_held s) \<inter> set (radio_held s) = {}" by blast+
  then show "distinct (others_held s @ radio_held s)"
    using parts by (auto simp: others_held_def)
qed

lemma busy_iff_held:
  assumes "radio_inv s" and "everywhere lock_consistent (radio_bridge s)" and "r < length (modems (radio_bridge s))"
  shows "mutation_busy (radio_modem_at s r) \<longleftrightarrow> r \<in> set (others_held s @ radio_held s)"
proof -
  have "mutation_busy (radio_modem_at s r) \<longleftrightarrow> mutation_kind (radio_modem_at s r) \<noteq> MUTATION_NONE"
    using assms(2,3) by (simp add: everywhere_def lock_consistent_def)
  then show ?thesis
    using others_held_parts [OF assms(1,3)]
    by (cases "mutation_kind (radio_modem_at s r)") (auto simp: others_held_def)
qed

text \<open>C9: One modem, one operation, and no lock is lost. In every reachable state no modem is held by two
  operations of any of the three kinds; a modem is marked for a kind exactly while an operation of
  that kind holds it, and it is busy exactly while some operation holds it: a modem without an
  operation never stays locked.\<close>

theorem radio_exclusion:
  fixes script
  defines "s \<equiv> radio_after script"
  defines "holders \<equiv> [(MUTATION_L850, held_all (service (messages s))), (MUTATION_SMS, sms_held (messages s)),
    (MUTATION_ADVANCED, radio_held s)]"
  shows "distinct (concat (map snd holders)) \<and>
    list_all (\<lambda>(r, m). list_all (\<lambda>(kind, rs). (mutation_kind m = kind) = (r \<in> set rs)) holders \<and>
        mutation_busy m = (r \<in> set (concat (map snd holders))))
      (List.enumerate 0 (modems (radio_bridge s)))"
proof -
  have inv: "radio_inv s" and good: "everywhere lock_consistent (radio_bridge s)"
    by (simp_all add: s_def radio_after_inv radio_after_consistent)
  have all: "concat (map snd holders) = others_held s @ radio_held s" by (simp add: holders_def others_held_def)
  have "list_all (\<lambda>(kind, rs). (mutation_kind (radio_modem_at s r) = kind) = (r \<in> set rs)) holders"
    if "r < length (modems (radio_bridge s))" for r
    using others_held_parts [OF inv that] by (simp add: holders_def)
  note kinds = this
  have "mutation_busy (radio_modem_at s r) = (r \<in> set (concat (map snd holders)))"
    if "r < length (modems (radio_bridge s))" for r
    unfolding all by (rule busy_iff_held [OF inv good that])
  note busy = this
  show ?thesis
  proof (intro conjI)
    show "distinct (concat (map snd holders))" unfolding all by (rule held_distinct [OF inv])
  next
    show "list_all (\<lambda>(r, m). list_all (\<lambda>(kind, rs). (mutation_kind m = kind) = (r \<in> set rs)) holders \<and>
        mutation_busy m = (r \<in> set (concat (map snd holders)))) (List.enumerate 0 (modems (radio_bridge s)))"
      unfolding list_all_length [of _ "List.enumerate _ _"] using kinds busy by (simp add: nth_enumerate_eq)
  qed
qed

section \<open>Replies\<close>

lemma radio_protocol_split: "radio_protocol (later @ ev # h) \<Longrightarrow> radio_allowed ev h \<and> radio_protocol h"
  by (induction later) auto

lemma radio_history_at:
  assumes "advanced_trace (radio_after script) = later @ ev # earlier" and "radio_event_op ev = Some k"
  shows "radio_allowed ev (radio_history k earlier)" and "radio_protocol (radio_history k earlier)"
proof -
  have "radio_protocol (radio_history k (advanced_trace (radio_after script)))"
    using radio_after_inv [of script] by (simp add: radio_inv_def radio_frame_def)
  then have "radio_protocol (radio_history k later @ ev # radio_history k earlier)"
    using assms by (simp add: radio_history_def)
  then show "radio_allowed ev (radio_history k earlier)" "radio_protocol (radio_history k earlier)"
    using radio_protocol_split by blast+
qed

lemma radio_history_owned: "list_all (\<lambda>ev. radio_event_op ev = Some k) (radio_history k t)"
  by (simp add: radio_history_def list_all_iff)

text \<open>The shapes a history of the protocol can have, from its newest event.\<close>

lemma radio_protocol_shapes:
  assumes "radio_protocol h" and "list_all (\<lambda>ev. radio_event_op ev = Some k) h"
  shows "\<And>ok error alive h'. h = Bands_Answered k' ok error alive # h' \<Longrightarrow> k' = k \<and> (\<exists>r bands.
      let called = [Bands_Called k r bands, Advanced_Started k r ADVANCED_OPERATION_BANDS]
      in h' = called \<or> h' = Advanced_Timed_Out k # called)"
    and "\<And>a p result h'. h = Modes_Written k' a p result # h' \<Longrightarrow>
      k' = k \<and> (\<exists>r. h' = [Advanced_Started k r ADVANCED_OPERATION_MODES])"
    and "\<And>ok h'. h = Reload_Answered k' ok # h' \<Longrightarrow> k' = k \<and> (\<exists>a p r.
      h' = [Reload_Sent k, Modes_Written k a p MODE_UPDATE_OK, Advanced_Started k r ADVANCED_OPERATION_MODES])"
    and "\<And>h'. h = Advanced_Timed_Out k' # h' \<Longrightarrow> k' = k \<and>
      ((\<exists>r bands. h' = [Bands_Called k r bands, Advanced_Started k r ADVANCED_OPERATION_BANDS]) \<or>
       (\<exists>a p r. h' = [Reload_Sent k, Modes_Written k a p MODE_UPDATE_OK, Advanced_Started k r ADVANCED_OPERATION_MODES]))"
  using assms by (auto simp: Let_def split: list.splits advanced_event.splits)

text \<open>C11: Replies about bands and modes are true. Whatever the order of requests, answers, timers,
  cancellations and everything else the service does: bands are reported as accepted only directly
  after ModemManager accepted the call, in time and from a live modem, for the modem of the operation;
  modes only after the configuration was written and verified, with the outcome of the reload that
  was seen. An error is never sent for a written configuration. When the timer had fired, the modem
  is gone, or the answer is an error that leaves open whether the bands were set, the reply is
  exactly that the outcome is unknown, without a retry; a retry is only invited after an answer
  that is a definite failure, or when the configuration was not committed.\<close>

theorem radio_reply_honest:
  assumes "advanced_trace (radio_after script) = later @ Advanced_Replied k rep # earlier"
  defines "h \<equiv> radio_history k earlier"
  shows "case rep of
      Advanced_Accepted r t cooldown None \<Rightarrow>
        t = ADVANCED_OPERATION_BANDS \<and> cooldown = 10000 \<and>
        (\<exists>bands error. \<not> leaves_open error \<and>
          h = [Bands_Answered k True error True, Bands_Called k r bands, Advanced_Started k r ADVANCED_OPERATION_BANDS])
    | Advanced_Accepted r t cooldown (Some (persisted, act)) \<Rightarrow>
        t = ADVANCED_OPERATION_MODES \<and> cooldown = 10000 \<and> persisted \<and>
        (\<exists>a p. let written = [Modes_Written k a p MODE_UPDATE_OK, Advanced_Started k r ADVANCED_OPERATION_MODES] in
          (act, h) \<in> {(''pending'', written), (''reloaded'', Reload_Answered k True # Reload_Sent k # written),
            (''failed'', Reload_Answered k False # Reload_Sent k # written),
            (''outcome_unknown'', Advanced_Timed_Out k # Reload_Sent k # written)})
    | Advanced_Error err message retry after \<Rightarrow>
        (\<exists>a p result r. h = [Modes_Written k a p result, Advanced_Started k r ADVANCED_OPERATION_MODES] \<and>
          result \<noteq> MODE_UPDATE_OK \<and>
          (result = MODE_UPDATE_VERIFY_FAILED \<longrightarrow> err = ''outcome_unknown'' \<and> \<not> retry) \<and>
          (retry \<longrightarrow> result \<in> {MODE_UPDATE_NONE, MODE_UPDATE_AMBIGUOUS, MODE_UPDATE_ERROR})) \<or>
        (\<exists>ok error alive timed r bands. h = Bands_Answered k ok error alive # (if timed then [Advanced_Timed_Out k] else []) @
            [Bands_Called k r bands, Advanced_Started k r ADVANCED_OPERATION_BANDS] \<and>
          (timed \<or> \<not> alive \<or> leaves_open error \<longrightarrow> err = ''outcome_unknown'' \<and> \<not> retry) \<and> (retry \<longrightarrow> \<not> ok))"
proof -
  have truth: "radio_reply_truth rep h" and prot: "radio_protocol h"
    using radio_history_at [OF assms(1), of k] by (simp_all add: h_def)
  have own: "list_all (\<lambda>ev. radio_event_op ev = Some k) h" by (simp add: h_def radio_history_owned)
  note shapes = radio_protocol_shapes [OF prot own]
  show ?thesis
  proof (cases rep)
    case (Advanced_Error err message retry after)
    with truth consider k' ok error alive h' where "h = Bands_Answered k' ok error alive # h'"
      | k' a p result h' where "h = Modes_Written k' a p result # h'"
      by (auto split: list.splits advanced_event.splits)
    then show ?thesis
    proof cases
      case 1
      from shapes(1) [OF this] truth 1 Advanced_Error show ?thesis by (auto simp: Let_def)
    next
      case 2
      from shapes(2) [OF this] truth 2 Advanced_Error show ?thesis by (auto simp: Let_def)
    qed
  next
    case (Advanced_Accepted r t cooldown modes)
    show ?thesis
    proof (cases modes)
      case None
      with truth Advanced_Accepted obtain k' ok error alive h' where h: "h = Bands_Answered k' ok error alive # h'"
        by (auto split: list.splits advanced_event.splits)
      from shapes(1) [OF h] truth h None Advanced_Accepted show ?thesis by (auto simp: Let_def)
    next
      case (Some m)
      then obtain act where m: "modes = Some (True, act)" and act: "activation_truth act h"
        and t: "t = ADVANCED_OPERATION_MODES" "cooldown = 10000"
        and r: "case last h of Advanced_Started k q t' \<Rightarrow> q = r \<and> t' = t | _ \<Rightarrow> False"
        using truth Advanced_Accepted by (cases m) auto
      from act consider k' a p h' where "h = Modes_Written k' a p MODE_UPDATE_OK # h'" "act = ''pending''"
        | k' ok h' where "h = Reload_Answered k' ok # h'" "act = (if ok then ''reloaded'' else ''failed'')"
        | k' h' where "h = Advanced_Timed_Out k' # h'" "act = ''outcome_unknown''"
        by (cases "(act, h)" rule: activation_truth.cases) auto
      then show ?thesis
      proof cases
        case 1
        from shapes(2) [OF 1(1)] 1 m t r Advanced_Accepted show ?thesis by (auto simp: Let_def)
      next
        case 2
        from shapes(3) [OF 2(1)] 2 m t r Advanced_Accepted show ?thesis by (auto simp: Let_def)
      next
        case 3
        from shapes(4) [OF 3(1)] 3 m t r Advanced_Accepted show ?thesis by (auto simp: Let_def)
      qed
    qed
  qed
qed

section \<open>The end of an operation\<close>

lemma others_held_frame [simp]:
  "others_held (radio_with_modem r f s) = others_held s" "others_held (radio_emit ev s) = others_held s"
  "others_held (radio_put k op s) = others_held s" "others_held (s\<lparr>advanced_operations := ops\<rparr>) = others_held s"
  "others_held (s\<lparr>advanced_owner := own\<rparr>) = others_held s"
  by (simp_all add: others_held_def held_all_def sms_held_def)

lemma radio_free_frame [simp]:
  "advanced_operations (advanced_operation_free now k op s) = AList.delete k (advanced_operations s)"
  "others_held (advanced_operation_free now k op s) = others_held s"
  "length (modems (radio_bridge (advanced_operation_free now k op s))) = length (modems (radio_bridge s))"
  "advanced_trace (advanced_operation_free now k op s) = advanced_trace s"
  by (simp_all add: advanced_operation_free_def Let_def)

lemma radio_complete_frame [simp]:
  "advanced_operations (advanced_operation_complete_buffer now k op rep s) = AList.delete k (advanced_operations s)"
  "others_held (advanced_operation_complete_buffer now k op rep s) = others_held s"
  "length (modems (radio_bridge (advanced_operation_complete_buffer now k op rep s))) = length (modems (radio_bridge s))"
  by (simp_all add: advanced_operation_complete_buffer_def Let_def)

lemma radio_success_frame:
  "advanced_operations (advanced_operation_complete_success now k op s) = AList.delete k (advanced_operations s)"
  by (simp add: advanced_operation_complete_success_def)

lemmas radio_complete_defs = advanced_operation_complete_error_def advanced_operation_complete_success_def

lemma radio_ready_frame [simp]:
  "advanced_operations (advanced_operation_ready v now k op source ok error s) = AList.delete k (advanced_operations s)"
  "others_held (advanced_operation_ready v now k op source ok error s) = others_held s"
  "length (modems (radio_bridge (advanced_operation_ready v now k op source ok error s))) = length (modems (radio_bridge s))"
  by (auto simp: advanced_operation_ready_def radio_complete_defs Let_def split: option.split)

lemma cancel_advanced_frame [simp]:
  "others_held (cancel_advanced lost now k s) = others_held s"
  "length (modems (radio_bridge (cancel_advanced lost now k s))) = length (modems (radio_bridge s))"
  by (simp_all add: cancel_advanced_def Let_def split: option.split)

lemma cancel_advanced_operation:
  "map_of (advanced_operations (cancel_advanced lost now k' s)) k =
     (case map_of (advanced_operations s) k of
        None \<Rightarrow> None
      | Some op \<Rightarrow>
          if k' \<noteq> k then Some op
          else if ao_type op = ADVANCED_OPERATION_MODES then None
          else Some (op\<lparr>ao_deferred := False, ao_transport_lost := lost, ao_cancelled := True\<rparr>))"
  by (auto simp: cancel_advanced_def Let_def delete_conv' update_conv' split: option.split)

text \<open>An operation of the second table comes from one of the first, for the same modem and of the same type.\<close>

definition ops_from :: "radio_service \<Rightarrow> radio_service \<Rightarrow> bool" where
  "ops_from s s' \<longleftrightarrow> (\<forall>k op'. map_of (advanced_operations s') k = Some op' \<longrightarrow>
     (\<exists>op. map_of (advanced_operations s) k = Some op \<and> ao_modem op' = ao_modem op \<and> ao_type op' = ao_type op))"

lemma ops_from_delete: "advanced_operations s' = AList.delete k (advanced_operations s) \<Longrightarrow> ops_from s s'"
  by (simp add: ops_from_def delete_conv')

lemma ops_from_trans: "ops_from s t \<Longrightarrow> ops_from t t' \<Longrightarrow> ops_from s t'"
  unfolding ops_from_def by metis

lemma cancel_ops_from: "ops_from s (cancel_advanced lost now k s)"
  by (auto simp: ops_from_def cancel_advanced_operation split: option.splits if_splits)

lemma cancel_fold_from: "ops_from s (fold (cancel_advanced lost now) ks s)"
  by (induction ks arbitrary: s) (simp add: ops_from_def, metis fold_simps(2) ops_from_trans cancel_ops_from)

lemma cancel_fold_frame:
  "others_held (fold (cancel_advanced lost now) ks s) = others_held s"
  "length (modems (radio_bridge (fold (cancel_advanced lost now) ks s))) = length (modems (radio_bridge s))"
  by (induction ks arbitrary: s) simp_all

lemma cancel_ends_modes:
  assumes "map_of (advanced_operations s) k = Some op" and "ao_type op = ADVANCED_OPERATION_MODES"
  shows "map_of (advanced_operations (cancel_advanced_operations lost now s)) k = None"
proof -
  have gone: "map_of (advanced_operations t) k = None \<Longrightarrow>
      map_of (advanced_operations (fold (cancel_advanced lost now) ks t)) k = None" for ks t
    using cancel_fold_from [of t lost now ks] unfolding ops_from_def by (metis not_None_eq)
  have "k \<in> set ks \<Longrightarrow> map_of (advanced_operations (fold (cancel_advanced lost now) ks s)) k = None"
    if "map_of (advanced_operations s) k = Some op" for ks s
    using that
  proof (induction ks arbitrary: s)
    case (Cons j ks)
    then show ?case
      using gone [of "cancel_advanced lost now k s"] assms(2)
      by (cases "j = k") (simp_all add: cancel_advanced_operation)
  qed simp
  moreover have "k \<in> set (map fst (advanced_operations s))" using assms(1) by (force dest: map_of_SomeD)
  ultimately show ?thesis using assms(1) by (simp add: cancel_advanced_operations_def)
qed

lemma operation_modem:
  assumes "radio_inv s" and "map_of (advanced_operations s) k = Some op"
  shows "ao_modem op \<in> set (radio_held s)" and "ao_modem op < length (modems (radio_bridge s))"
  using radio_inside_own [OF radio_inv_op(1) [OF assms]] by simp_all

lemma gone_released:
  assumes inv: "radio_inv s" and inv': "radio_inv s'" and good: "everywhere lock_consistent (radio_bridge s')"
    and op: "map_of (advanced_operations s) k = Some op" and gone: "map_of (advanced_operations s') k = None"
    and "others_held s' = others_held s" and "ops_from s s'"
    and "length (modems (radio_bridge s')) = length (modems (radio_bridge s))"
  shows "\<not> mutation_busy (radio_modem_at s' (ao_modem op))"
proof -
  let ?r = "ao_modem op"
  note own = operation_modem [OF inv op]
  have "?r \<notin> set (radio_held s')"
  proof
    assume "?r \<in> set (radio_held s')"
    then obtain k' op' where op': "(k', op') \<in> set (advanced_operations s')" "ao_modem op' = ?r"
      by (force simp: radio_held_def)
    have "distinct (map fst (advanced_operations s'))" using inv' by (simp add: radio_inv_def radio_frame_def)
    then have "map_of (advanced_operations s') k' = Some op'" using op'(1) by simp
    then obtain op0 where op0: "map_of (advanced_operations s) k' = Some op0" "ao_modem op0 = ?r"
      using assms(7) op'(2) unfolding ops_from_def by metis
    have "map_of (advanced_owner s) ?r = Some k'" "map_of (advanced_owner s) ?r = Some k"
      using radio_inside_own(4) [OF radio_inv_op(1) [OF inv op0(1)]]
        radio_inside_own(4) [OF radio_inv_op(1) [OF inv op]] op0(2) by simp_all
    with gone \<open>map_of (advanced_operations s') k' = Some op'\<close> show False by simp
  qed
  moreover have "?r \<notin> set (others_held s)" using held_distinct [OF inv] own(1) by auto
  ultimately show ?thesis
    using busy_iff_held [OF inv' good, of ?r] assms(6,8) own(2) by simp
qed

text \<open>C13: No band or mode operation is left behind. In every reachable state a band operation waits for
  the answer to its call and a mode operation for its reload with a timer running; the answer,
  whatever it is, ends a band operation, and the answer of the reload, the timer or a cancellation
  ends a mode operation; the operation is then gone and its modem no longer busy.\<close>

theorem radio_operation_ends:
  fixes script :: "'p radio_input list" and v now k source ok error lost
  defines "s \<equiv> radio_after script"
  assumes op: "map_of (advanced_operations s) k = Some op"
  defines "ends \<equiv> \<lambda>i :: 'p radio_input. map_of (advanced_operations (radio_exec i s)) k = None \<and>
    \<not> mutation_busy (radio_modem_at (radio_exec i s) (ao_modem op))"
  shows "if ao_type op = ADVANCED_OPERATION_BANDS
    then ao_call_pending op \<and> ends (Bands_Answer v now k source ok error)
    else ao_network_request_pending op \<and> ao_timeout_source op \<and> ends (Reload_Done now k ok) \<and>
      ends (Radio_Timeout now k) \<and> ends (Radio_Cancel lost now)"
proof -
  have inv: "radio_inv s" and good: "everywhere lock_consistent (radio_bridge s)"
    by (simp_all add: s_def radio_after_inv radio_after_consistent)
  have released: "ends i" if "map_of (advanced_operations (radio_exec i s)) k = None"
    "others_held (radio_exec i s) = others_held s" "ops_from s (radio_exec i s)"
    "length (modems (radio_bridge (radio_exec i s))) = length (modems (radio_bridge s))" for i
    using gone_released [OF inv radio_exec_inv [OF inv] locked.change_good [OF locked.radio_change_exec [OF inv good] good] op that]
      that(1) by (simp add: ends_def)
  have deleted: "ends i" if "advanced_operations (radio_exec i s) = AList.delete k (advanced_operations s)"
    "others_held (radio_exec i s) = others_held s"
    "length (modems (radio_bridge (radio_exec i s))) = length (modems (radio_bridge s))" for i
    by (intro released ops_from_delete) (use that in \<open>simp_all add: delete_conv'\<close>)
  have waits: "if ao_type op = ADVANCED_OPERATION_BANDS then ao_call_pending op
      else ao_network_request_pending op \<and> ao_timeout_source op"
    using radio_inv_op(2) [OF inv op] by (auto simp: radio_op_ok_def bands_waits_def modes_waits_def)
  have "ends (Radio_Cancel lost now)" if "ao_type op = ADVANCED_OPERATION_MODES"
    using cancel_ends_modes [OF op that] cancel_fold_frame cancel_fold_from
    by (intro released) (simp_all add: radio_exec_def cancel_advanced_operations_def)
  moreover have "ends (Bands_Answer v now k source ok error)" if "ao_call_pending op"
    by (rule deleted) (use op that in \<open>simp_all add: radio_exec_def bands_deliver_def\<close>)
  moreover have "ends (Reload_Done now k ok)" if "ao_network_request_pending op"
    by (rule deleted) (use op that in \<open>simp_all add: radio_exec_def reload_deliver_def
      advanced_network_reload_complete_def radio_complete_defs\<close>)
  moreover have "ends (Radio_Timeout now k)" if "ao_timeout_source op" "ao_type op = ADVANCED_OPERATION_MODES"
    by (rule deleted) (use op that in \<open>simp_all add: radio_exec_def radio_fire_timeout_def
      advanced_operation_timeout_def radio_complete_defs Let_def\<close>)
  ultimately show ?thesis using waits by (cases "ao_type op") simp_all
qed

section \<open>What is written\<close>

lemma find_supported_sound: "find_supported bs name = Some b \<Longrightarrow> b \<in> set bs \<and> band_name b = Some name"
  by (induction bs) (auto split: if_splits)

lemma resolves_sound:
  "list_all2 (resolves_to avail techs) rs bs \<Longrightarrow> set bs \<subseteq> set avail \<and> map band_name bs = rs"
  by (induction rs bs rule: list_all2_induct) (auto simp: resolves_to_def dest: find_supported_sound)

text \<open>The bands a resolved request stands for, among those the modem advertises.\<close>

definition band_choice :: "cstring list \<Rightarrow> radio_band list \<Rightarrow> u32 \<Rightarrow> radio_band list \<Rightarrow> bool" where
  "band_choice requested avail techs chosen \<longleftrightarrow>
     set chosen \<subseteq> set avail \<and> distinct (map band_name chosen) \<and> families_of chosen = techs \<and>
     list_all (\<lambda>name. radio_band_family (Some name) = RADIO_FAMILY_4G) requested \<and>
     map band_name chosen = map Some requested @ map band_name (filter (other_family techs) avail)"

lemma set_bands_resolve_ok:
  assumes "set_bands_resolve e m requested = Inr bands"
  obtains avail families techs where "snapshot_supported_radio_bands m = Some (avail, families)"
    and "current_radio_families (re_current_modes e (mm_object (proxy m))) families = Some techs"
    and "if requested = [''any''] then bands = [MM_BAND_ANY]
      else \<exists>chosen. band_choice requested avail techs chosen \<and> bands = map band_value chosen"
proof -
  from assms obtain avail families techs eff n where
    snap: "snapshot_supported_radio_bands m = Some (avail, families)"
    and modes: "current_radio_families (re_current_modes e (mm_object (proxy m))) families = Some techs"
    and expand: "radio_expand_lte_selection (Some (map Some requested)) (Some avail) (length avail) techs =
      (POLICY_OK, eff, n)"
    and resolve: "radio_resolve_bands (Some eff) (Some avail) (length avail) True techs MM_BAND_ANY =
      (POLICY_OK, bands)"
    by (auto simp: set_bands_resolve_def split: option.splits prod.splits if_splits)
  note e = iffD1 [OF expand_ok expand]
  have "\<exists>chosen. band_choice requested avail techs chosen \<and> bands = map band_value chosen"
    if "requested \<noteq> [''any'']"
  proof -
    have "map Some requested \<noteq> [Some ''any'']" using that by (auto simp: Cons_eq_map_conv)
    with e have lte: "list_all (\<lambda>name. radio_band_family (Some name) = RADIO_FAMILY_4G) requested"
      and eff: "eff = map Some requested @ map band_name (filter (other_family techs) avail)"
      and ne: "requested \<noteq> []"
      by (auto simp: list_all_iff)
    have "radio_band_family (Some ''any'') \<noteq> RADIO_FAMILY_4G" by code_simp
    with lte ne have "eff \<noteq> [Some ''any'']" by (cases requested) (auto simp: eff)
    with resolve have "resolve_requested avail techs [] RADIO_FAMILY_NONE [] eff = (POLICY_OK, bands)"
      by (simp add: radio_resolve_bands_def Let_def split: if_splits)
    then obtain chosen where "list_all2 (resolves_to avail techs) eff chosen" "distinct eff"
      "families_of chosen = techs" "bands = map band_value chosen"
      by (auto simp: resolve_requested_ok RADIO_FAMILY_NONE_def)
    with resolves_sound [of avail techs eff chosen] lte show ?thesis
      by (auto simp: band_choice_def eff)
  qed
  moreover have "bands = [MM_BAND_ANY]" if "requested = [''any'']"
  proof -
    have "eff = [Some ''any'']" using e that by simp
    with resolve show ?thesis by (simp add: radio_resolve_bands_def Let_def split: if_splits)
  qed
  ultimately show ?thesis using that [OF snap modes] by simp
qed

lemma bands_called_frame [simp]:
  "Bands_Called k r bands \<in> set (advanced_trace (advanced_operation_complete_buffer now j op rep s)) \<longleftrightarrow>
     Bands_Called k r bands \<in> set (advanced_trace s)"
  "Bands_Called k r bands \<in> set (advanced_trace (cancel_advanced lost now j s)) \<longleftrightarrow>
     Bands_Called k r bands \<in> set (advanced_trace s)"
  "Bands_Called k r bands \<in> set (advanced_trace (send_advanced_error err retry after s)) \<longleftrightarrow>
     Bands_Called k r bands \<in> set (advanced_trace s)"
  "Bands_Called k r bands \<in> set (advanced_trace (send_lookup_error x s)) \<longleftrightarrow>
     Bands_Called k r bands \<in> set (advanced_trace s)"
  by (auto simp: advanced_operation_complete_buffer_def cancel_advanced_def send_advanced_error_def
      send_lookup_error_def Let_def split: option.split prod.split)

lemma bands_called_cancel [simp]:
  "Bands_Called k r bands \<in> set (advanced_trace (cancel_advanced_operations lost now s)) \<longleftrightarrow>
     Bands_Called k r bands \<in> set (advanced_trace s)"
proof -
  have "Bands_Called k r bands \<in> set (advanced_trace (fold (cancel_advanced lost now) ks s)) \<longleftrightarrow>
      Bands_Called k r bands \<in> set (advanced_trace s)" for ks
    by (induction ks arbitrary: s) simp_all
  then show ?thesis by (simp add: cancel_advanced_operations_def)
qed

lemma bands_called_new:
  "advanced_operation_new now r t s = (j, op, s') \<Longrightarrow> advanced_trace s' = Advanced_Started j r t # advanced_trace s"
  by (auto simp: advanced_operation_new_def Let_def)

lemma bands_called_start:
  assumes "Bands_Called k r bands \<in> set (advanced_trace (set_bands_start now q out s))"
    and "Bands_Called k r bands \<notin> set (advanced_trace s)"
  shows "q = r \<and> out = bands"
  using assms bands_called_new [of now q ADVANCED_OPERATION_BANDS s]
  by (auto simp: set_bands_start_def split: prod.splits)

lemma bands_called_complete [simp]:
  "Bands_Called k r bands \<in> set (advanced_trace (advanced_operation_complete_error now j op err message retry s)) \<longleftrightarrow>
     Bands_Called k r bands \<in> set (advanced_trace s)"
  "Bands_Called k r bands \<in> set (advanced_trace (advanced_operation_complete_success now j op s)) \<longleftrightarrow>
     Bands_Called k r bands \<in> set (advanced_trace s)"
  by (simp_all only: radio_complete_defs bands_called_frame)

lemma bands_called_ready [simp]:
  "Bands_Called k r bands \<in> set (advanced_trace (advanced_operation_ready v now j op source ok error s)) \<longleftrightarrow>
     Bands_Called k r bands \<in> set (advanced_trace s)"
  by (simp add: advanced_operation_ready_def Let_def split: option.split)

lemma bands_called_modes [simp]:
  "Bands_Called k r bands \<in> set (advanced_trace (set_modes_start e q device a p s)) \<longleftrightarrow>
     Bands_Called k r bands \<in> set (advanced_trace s)"
proof -
  obtain j op s1 where new: "advanced_operation_new (re_now e) q ADVANCED_OPERATION_MODES s = (j, op, s1)" by (metis prod_cases3)
  show ?thesis
    by (simp add: set_modes_start_def new set_modes_reload_def bands_called_new [OF new] Let_def split: prod.split)
qed

lemma bands_called_answers [simp]:
  "Bands_Called k r bands \<in> set (advanced_trace (bands_deliver v now j source ok error s)) \<longleftrightarrow>
     Bands_Called k r bands \<in> set (advanced_trace s)"
  "Bands_Called k r bands \<in> set (advanced_trace (reload_deliver now j ok s)) \<longleftrightarrow>
     Bands_Called k r bands \<in> set (advanced_trace s)"
  "Bands_Called k r bands \<in> set (advanced_trace (radio_fire_timeout now j s)) \<longleftrightarrow>
     Bands_Called k r bands \<in> set (advanced_trace s)"
  by (simp_all add: bands_deliver_def reload_deliver_def radio_fire_timeout_def
      advanced_network_reload_complete_def advanced_operation_timeout_def Let_def split: option.split)

text \<open>C10: Bands are written only as asked. A write of bands is called only in answer to a confirmed request
  that names the current generation of an attested modem nobody holds; and it writes either the one
  value for any band, which the request asked for, or bands the modem advertises, each once: the
  LTE bands of the request, in order, and with them every advertised band of another allowed
  technology, so that the technologies of the written bands are exactly the allowed ones.\<close>

theorem bands_written_as_asked:
  fixes script :: "'p radio_input list" and i :: "'p radio_input" and k r bands
  defines "s \<equiv> radio_after script"
  assumes "Bands_Called k r bands \<in> set (advanced_trace (radio_exec i s))"
    and "Bands_Called k r bands \<notin> set (advanced_trace s)"
  shows "\<exists>e req requested avail families techs.
    i = Bands_Request e (Some req) \<and> sb_confirm req \<and> parse_requested_bands (sb_bands req) = Some requested \<and>
    l850gl_bridge_find_modem (radio_bridge s) (Some (sb_modem_id req)) = Some r \<and>
    generation (radio_modem_at s r) = sb_generation req \<and>
    attest_mutation_target (re_around e) (radio_modem_at s r) \<and> \<not> mutation_busy (radio_modem_at s r) \<and>
    snapshot_supported_radio_bands (radio_modem_at s r) = Some (avail, families) \<and>
    current_radio_families (re_current_modes e (mm_object (proxy (radio_modem_at s r)))) families = Some techs \<and>
    (if requested = [''any''] then bands = [MM_BAND_ANY]
     else \<exists>chosen. band_choice requested avail techs chosen \<and> bands = map band_value chosen)"
proof -
  have "\<exists>e message. i = Bands_Request e message"
    using assms(2,3)
    by (cases i) (auto simp: radio_exec_def method_set_modes_def split: option.splits sum.splits if_splits)
  then obtain e message where i: "i = Bands_Request e message" by blast
  then have called: "Bands_Called k r bands \<in> set (advanced_trace (method_set_bands e message s))"
    using assms(2) by (simp add: radio_exec_def)
  obtain req requested q out where message: "message = Some req" "sb_confirm req"
    and parse: "parse_requested_bands (sb_bands req) = Some requested"
    and found: "advanced_mutation_modem e s (sb_modem_id req) (sb_generation req) = Inr q"
    and resolve: "set_bands_resolve e (radio_modem_at s q) requested = Inr out"
    and start: "Bands_Called k r bands \<in> set (advanced_trace (set_bands_start (re_now e) q out s))"
    using called assms(3) by (auto simp: method_set_bands_def split: option.splits sum.splits if_splits prod.splits)
  have q: "q = r" and out: "out = bands" using bands_called_start [OF start assms(3)] by simp_all
  have target: "l850gl_bridge_find_modem (radio_bridge s) (Some (sb_modem_id req)) = Some r"
    "generation (radio_modem_at s r) = sb_generation req"
    "attest_mutation_target (re_around e) (radio_modem_at s r)" "\<not> mutation_busy (radio_modem_at s r)"
    using found unfolding q by (auto simp: advanced_mutation_modem_def Let_def split: option.splits if_splits)
  show ?thesis
    by (rule set_bands_resolve_ok [OF resolve [unfolded q out]]) (use i message parse target in blast)
qed

section \<open>The cool-down\<close>

fun radio_clock :: "'p radio_input \<Rightarrow> int option" where
  "radio_clock (Rest j) = None"
| "radio_clock (Bands_Request e message) = Some (re_now e)"
| "radio_clock (Modes_Request e message) = Some (re_now e)"
| "radio_clock (Bands_Answer v now k source ok error) = Some now"
| "radio_clock (Reload_Done now k ok) = Some now"
| "radio_clock (Radio_Timeout now k) = Some now"
| "radio_clock (Radio_Cancel lost now) = Some now"

text \<open>When a well-formed request comes, and for which modem.\<close>

fun radio_request :: "'p radio_input \<Rightarrow> (int \<times> cstring) option" where
  "radio_request (Bands_Request e (Some req)) = Some (re_now e, sb_modem_id req)"
| "radio_request (Modes_Request e (Some req)) = Some (re_now e, sm_modem_id req)"
| "radio_request i = None"

abbreviation cools_until :: "radio_service \<Rightarrow> nat \<Rightarrow> int" where
  "cools_until s r \<equiv> advanced_cooldown_until (radio_modem_at s r)"

definition cooled :: "int \<Rightarrow> radio_service \<Rightarrow> radio_service \<Rightarrow> bool" where
  "cooled now s s' \<longleftrightarrow> (\<forall>k op. map_of (advanced_operations s) k = Some op \<and> map_of (advanced_operations s') k = None \<longrightarrow>
     now + 10000000 \<le> cools_until s' (ao_modem op))"

lemma cooldown_sets:
  "ao_cooldown_seconds op = ADVANCED_SHORT_COOLDOWN_SECONDS \<Longrightarrow>
   now + 10000000 \<le> advanced_cooldown_until (advanced_operation_apply_cooldown now op m)"
  by (simp add: advanced_operation_apply_cooldown_def ADVANCED_SHORT_COOLDOWN_SECONDS_def
      MICROSECONDS_PER_SECOND_def Let_def)

lemma free_cools:
  assumes "ao_modem op < length (modems (radio_bridge s))"
    and "ao_cooldown_seconds op = ADVANCED_SHORT_COOLDOWN_SECONDS"
  shows "now + 10000000 \<le> cools_until (advanced_operation_free now k op s) (ao_modem op)"
  using cooldown_sets [OF assms(2), of now] assms(1)
  by (simp add: advanced_operation_free_def Let_def on_modem_nth advanced_unlock_modem_def)

lemma complete_cools:
  assumes "ao_modem op < length (modems (radio_bridge s))"
    and "ao_cooldown_seconds op = ADVANCED_SHORT_COOLDOWN_SECONDS"
  shows "now + 10000000 \<le> cools_until (advanced_operation_complete_buffer now k op rep s) (ao_modem op)"
    and "now + 10000000 \<le> cools_until (advanced_operation_complete_error now k op err message retry s) (ao_modem op)"
    and "now + 10000000 \<le> cools_until (advanced_operation_complete_success now k op s) (ao_modem op)"
proof -
  show buffer: "now + 10000000 \<le> cools_until (advanced_operation_complete_buffer now k op rep s) (ao_modem op)" for rep
    using free_cools [of "op\<lparr>ao_deferred := False\<rparr>"] assms
    by (simp add: advanced_operation_complete_buffer_def Let_def)
  show "now + 10000000 \<le> cools_until (advanced_operation_complete_error now k op err message retry s) (ao_modem op)"
    "now + 10000000 \<le> cools_until (advanced_operation_complete_success now k op s) (ao_modem op)"
    using buffer by (simp_all add: radio_complete_defs)
qed

lemma cancel_step_cools:
  assumes inv: "radio_inv s"
  shows "cooled now s (cancel_advanced lost now k s)"
proof -
  have "now + 10000000 \<le> cools_until (cancel_advanced lost now k s) (ao_modem op)"
    if "map_of (advanced_operations s) k = Some op" "ao_type op = ADVANCED_OPERATION_MODES" for op
    using free_cools [of "op\<lparr>ao_deferred := False, ao_transport_lost := lost\<rparr>" s now k] that
      operation_modem(2) [OF inv that(1)] radio_inv_op(2) [OF inv that(1)]
    by (simp add: cancel_advanced_def radio_op_ok_def)
  then show ?thesis
    by (auto simp: cooled_def cancel_advanced_operation split: option.splits if_splits)
qed

lemma lock_change_cools:
  "lock_change s t \<Longrightarrow> r < length (modems (radio_bridge s)) \<Longrightarrow> cools_until s r \<le> cools_until t r"
  by (simp add: registry_change_def lock_rely_def)

lemma cancel_cools:
  "radio_inv s \<Longrightarrow> cooled now s (fold (cancel_advanced lost now) ks s)"
proof (induction ks arbitrary: s)
  case (Cons k ks)
  let ?t = "cancel_advanced lost now k s" and ?u = "fold (cancel_advanced lost now) (k # ks) s"
  have step: "lock_change ?t ?u" using locked.radio_same [of ?t ?t] by (simp add: locked.radio_change_cancel)
  have "now + 10000000 \<le> cools_until ?u (ao_modem op)"
    if op: "map_of (advanced_operations s) j = Some op" and gone: "map_of (advanced_operations ?u) j = None" for j op
  proof (cases "map_of (advanced_operations ?t) j")
    case None
    then have "now + 10000000 \<le> cools_until ?t (ao_modem op)"
      using cancel_step_cools [OF Cons.prems] op unfolding cooled_def by blast
    moreover have "ao_modem op < length (modems (radio_bridge ?t))"
      using operation_modem(2) [OF Cons.prems op] by simp
    ultimately show ?thesis using lock_change_cools [OF step] by fastforce
  next
    case (Some op')
    then have "ao_modem op' = ao_modem op"
      using cancel_ops_from [of s lost now k] op unfolding ops_from_def by fastforce
    moreover have "now + 10000000 \<le> cools_until ?u (ao_modem op')"
      using Cons.IH [OF cancel_advanced_inv [OF Cons.prems]] Some gone unfolding cooled_def by simp
    ultimately show ?thesis by simp
  qed
  then show ?case unfolding cooled_def by blast
qed (auto simp: cooled_def)

lemma answer_cools:
  assumes inv: "radio_inv s"
  shows "cooled now s (bands_deliver v now j source ok error s)" and "cooled now s (reload_deliver now j ok s)"
    and "cooled now s (radio_fire_timeout now j s)"
proof -
  have deleted: "cooled now s t" if "map_of (advanced_operations s) j = Some op"
    "advanced_operations t = AList.delete j (advanced_operations s)"
    "now + 10000000 \<le> cools_until t (ao_modem op)" for op t
    using that by (auto simp: cooled_def delete_conv' split: if_splits)
  have same: "cooled now s t" if "map_of (advanced_operations t) = map_of (advanced_operations s)" for t
    using that by (auto simp: cooled_def)
  have op: "ao_modem op < length (modems (radio_bridge s))" "ao_cooldown_seconds op = ADVANCED_SHORT_COOLDOWN_SECONDS"
    if "map_of (advanced_operations s) j = Some op" for op
    using operation_modem(2) [OF inv that] radio_inv_op(2) [OF inv that] by (simp_all add: radio_op_ok_def)
  show "cooled now s (bands_deliver v now j source ok error s)"
  proof (cases "map_of (advanced_operations s) j")
    case (Some op0)
    let ?t = "radio_emit (Bands_Answered j ok error (live (radio_modem_at s (ao_modem op0)))) s"
    have "now + 10000000 \<le> cools_until (advanced_operation_ready v now j op0 source ok error ?t) (ao_modem op0)"
      using complete_cools [of "op0\<lparr>ao_call_pending := False\<rparr>" ?t now j] op [OF Some]
      by (simp add: advanced_operation_ready_def Let_def split: option.split)
    then show ?thesis
      using same [of s] deleted [OF Some] Some by (simp add: bands_deliver_def)
  qed (simp add: bands_deliver_def same)
  have success: "cooled now s (advanced_operation_complete_success now j op' (radio_emit ev s))"
    if "map_of (advanced_operations s) j = Some op0" "ao_modem op' = ao_modem op0"
      "ao_cooldown_seconds op' = ao_cooldown_seconds op0" for op0 op' ev
    using deleted [OF that(1)] complete_cools(3) [of op' "radio_emit ev s" now j] op [OF that(1)] that(2,3)
    by (simp add: radio_success_frame)
  have waiting: "cooled now s (radio_put j op' (radio_emit ev s))" for op' ev
    by (auto simp: cooled_def update_conv')
  show "cooled now s (reload_deliver now j ok s)" "cooled now s (radio_fire_timeout now j s)"
    by (auto simp: reload_deliver_def radio_fire_timeout_def advanced_network_reload_complete_def
        advanced_operation_timeout_def Let_def intro: same success waiting split: option.split)
qed

lemma answer_from:
  "ops_from s (bands_deliver v now j source ok error s)" "ops_from s (reload_deliver now j ok s)"
  "ops_from s (radio_fire_timeout now j s)"
  by (auto simp: ops_from_def bands_deliver_def reload_deliver_def radio_fire_timeout_def
      advanced_network_reload_complete_def advanced_operation_timeout_def radio_complete_defs Let_def delete_conv'
      update_conv' split: option.splits)

text \<open>What a request leaves: the table with at most one new operation, whose modem cools down.\<close>

definition begun :: "int \<Rightarrow> radio_service \<Rightarrow> radio_service \<Rightarrow> bool" where
  "begun now s s' \<longleftrightarrow> (\<forall>k op. map_of (advanced_operations s) k = Some op \<longrightarrow> map_of (advanced_operations s') k = Some op) \<and>
     (\<forall>k op. map_of (advanced_operations s) k = None \<and> map_of (advanced_operations s') k = Some op \<longrightarrow>
        now + 10000000 \<le> cools_until s' (ao_modem op))"

lemma new_cools:
  assumes "radio_inv s" and "r < length (modems (radio_bridge s))"
    and "advanced_operation_new now r t s = (k, op, s')"
  shows "map_of (advanced_operations s) k = None" and "ao_modem op = r"
    and "map_of (advanced_operations s') = (map_of (advanced_operations s))(k \<mapsto> op)"
    and "now + 10000000 \<le> cools_until s' r"
proof -
  have k: "k = next_advanced_operation s" and op: "ao_modem op = r"
    and cooldown: "ao_cooldown_seconds op = ADVANCED_SHORT_COOLDOWN_SECONDS"
    using assms(3) by (auto simp: advanced_operation_new_def Let_def)
  show "ao_modem op = r" by (rule op)
  show "map_of (advanced_operations s) k = None"
    using assms(1) unfolding radio_inv_def radio_frame_def by (auto simp: k map_of_eq_None_iff)
  show "map_of (advanced_operations s') = (map_of (advanced_operations s))(k \<mapsto> op)"
    using assms(3) by (auto simp: advanced_operation_new_def Let_def update_conv')
  show "now + 10000000 \<le> cools_until s' r"
    using assms(2,3) cooldown_sets [OF cooldown, of now] by (auto simp: advanced_operation_new_def Let_def on_modem_nth)
qed

lemma start_begun:
  assumes inv: "radio_inv s" and r: "r < length (modems (radio_bridge s))"
  shows "begun now s (set_bands_start now r bands s)" and "begun (re_now e) s (set_modes_start e r device a p s)"
proof -
  obtain k op t where new: "advanced_operation_new now r ADVANCED_OPERATION_BANDS s = (k, op, t)" by (metis prod_cases3)
  from new_cools [OF inv r new] show "begun now s (set_bands_start now r bands s)"
    by (auto simp: begun_def set_bands_start_def new update_conv' split: if_splits)
  obtain k op t where new: "advanced_operation_new (re_now e) r ADVANCED_OPERATION_MODES s = (k, op, t)" by (metis prod_cases3)
  have gone: "begun (re_now e) s u" if "advanced_operations u = AList.delete k (advanced_operations t)" for u
    using new_cools(1,3) [OF inv r new] that by (auto simp: begun_def delete_conv' split: if_splits)
  have "begun (re_now e) s (set_modes_reload e k op (radio_emit ev t))" for ev
    using new_cools [OF inv r new] gone
    by (auto simp: begun_def set_modes_reload_def radio_complete_defs Let_def update_conv' delete_conv' split: if_splits)
  then show "begun (re_now e) s (set_modes_start e r device a p s)"
    using gone by (simp add: set_modes_start_def new radio_complete_defs Let_def split: prod.split)
qed

lemma begun_same: "advanced_operations t = advanced_operations s \<Longrightarrow> begun now s t"
  by (auto simp: begun_def)

lemma refused_frame [simp]:
  "advanced_operations (send_advanced_error err retry after s) = advanced_operations s"
  "advanced_operations (send_lookup_error x s) = advanced_operations s"
  by (simp_all add: send_advanced_error_def send_lookup_error_def split: prod.split)

lemma request_begun:
  assumes inv: "radio_inv s"
  shows "begun (re_now e) s (method_set_bands e message s)" and "begun (re_now e) s (method_set_modes e message' s)"
  using start_begun [OF inv advanced_modem_found(1) [OF inv]]
  by (auto simp: method_set_bands_def method_set_modes_def begun_same split: option.split sum.split prod.split)

lemma touched_cools:
  assumes inv: "radio_inv s"
    and "(map_of (advanced_operations s) k = None) \<noteq> (map_of (advanced_operations (radio_exec i s)) k = None)"
    and "map_of (advanced_operations s) k = Some op \<or> map_of (advanced_operations (radio_exec i s)) k = Some op"
    and clock: "radio_clock i = Some now"
  shows "now + 10000000 \<le> cools_until (radio_exec i s) (ao_modem op)"
proof -
  consider (begins) "begun now s (radio_exec i s)" | (finishes) "cooled now s (radio_exec i s)" "ops_from s (radio_exec i s)"
    using clock request_begun [OF inv] answer_cools [OF inv] answer_from cancel_cools [OF inv] cancel_fold_from
    by (cases i) (auto simp: radio_exec_def cancel_advanced_operations_def)
  then show ?thesis
  proof cases
    case begins
    then show ?thesis using assms(2,3) unfolding begun_def by (metis not_None_eq)
  next
    case finishes
    then show ?thesis using assms(2,3) unfolding cooled_def ops_from_def by (metis not_None_eq)
  qed
qed

lemma retry_after_positive:
  assumes "0 < advanced_cooldown_until m" and "now < advanced_cooldown_until m"
  shows "0 < advanced_retry_after_ms m now"
proof -
  let ?ms = "(advanced_cooldown_until m - now + 999) div 1000"
  have pos: "0 < ?ms" using assms(2) by simp
  have "(word_of_int ?ms :: u32) \<noteq> 0" if "?ms \<le> 4294967295"
  proof -
    have "uint (word_of_int ?ms :: u32) = ?ms" using pos that by (simp add: uint_word_of_int)
    with pos show ?thesis by auto
  qed
  with assms show ?thesis by (simp add: advanced_retry_after_ms_def cooldown_remaining_code word_gt_0)
qed


section \<open>Witnesses\<close>

lemma radio_run_op:
  assumes "radio_table s = [(k, t, r)]"
  obtains op where "map_of (advanced_operations s) k = Some op" and "ao_type op = t" and "ao_modem op = r"
  using assms that by (cases "advanced_operations s") (auto simp: radio_table_def)

theorem radio_reply_honest_witness:
  "radio_history 1 (drop 1 (advanced_trace (radio_run 7))) =
     [Reload_Answered 1 True, Reload_Sent 1, Modes_Written 1 ''3g|4g'' ''4g'' MODE_UPDATE_OK,
      Advanced_Started 1 0 ADVANCED_OPERATION_MODES]"
proof -
  have "advanced_trace (radio_run 7) =
      [] @ Advanced_Replied 1 (Advanced_Accepted 0 ADVANCED_OPERATION_MODES 10000 (Some (True, ''reloaded''))) #
        drop 1 (advanced_trace (radio_run 7))"
    by (simp add: radio_run_trace)
  from radio_reply_honest [OF this [unfolded radio_run_def]] show ?thesis
    by (simp add: radio_run_trace [unfolded radio_run_def] radio_run_def)
qed

theorem radio_operation_ends_witness:
  "map_of (advanced_operations (radio_exec (Bands_Answer True 2 0 7 False None :: uci_section list radio_input)
     (radio_run 3))) 0 = None"
proof -
  obtain op where op: "map_of (advanced_operations (radio_run 3)) 0 = Some op" and f: "ao_type op = ADVANCED_OPERATION_BANDS"
    by (rule radio_run_op [OF radio_run_tables(2)])
  from radio_operation_ends [OF op [unfolded radio_run_def]] f show ?thesis by (simp add: radio_run_def)
qed

lemma radio_run_bands: "radio_run 3 = radio_exec (Bands_Request (radio_sample_env 1) (Some sample_bands_request)) (radio_run 2)"
  and radio_run_answer: "radio_run 4 = radio_exec (Bands_Answer True 2 0 7 True None :: uci_section list radio_input) (radio_run 3)"
  by (simp_all add: radio_run_def radio_script_def radio_after_def)

theorem bands_written_as_asked_witness:
  "\<exists>requested avail families. parse_requested_bands (sb_bands sample_bands_request) = Some requested \<and>
     l850gl_bridge_find_modem (radio_bridge (radio_run 2)) (Some modem_name) = Some 0 \<and>
     snapshot_supported_radio_bands (radio_modem_at (radio_run 2) 0) = Some (avail, families)"
proof -
  have "Bands_Called 0 0 [73] \<in> set (advanced_trace (radio_exec (Bands_Request (radio_sample_env 1)
      (Some sample_bands_request)) (radio_run 2)))" "Bands_Called 0 0 [73] \<notin> set (advanced_trace (radio_run 2))"
    by (simp_all add: radio_run_bands [symmetric] radio_run_early)
  from bands_written_as_asked [OF this [unfolded radio_run_def]] show ?thesis
    by (auto simp: radio_run_def sample_bands_request_def)
qed


end
