(* ===== verification/Spec2Isabelle.thy ===== *)
theory Spec2Isabelle
  imports Prelude Ascii Mutation_Policy Identity Hardware Radio_Policy Sms_Policy Sms_Dedupe
    Numbers Cell Ca Voltage Errors Modem Sms_Cache Bridge Modem_Contract
    Expert_Mutation Expert_Protocol Expert_Handlers Expert_Service Coordinator_Contract
    Sms_Operation Sms_Protocol Sms_Handlers Sms_Contract Service
    Network_Binding Ubus_Request
    Radio_Operation Radio_Protocol Radio_Handlers Message_Contract Radio_Contract Radio_Service Radio_Properties
begin

text \<open>
  \<^bold>\<open>The program.\<close> \<open>l850gl-mm-bridge\<close> is a daemon that stands between ModemManager (on the system
  bus) and the ubus of an OpenWrt router. It admits the Fibocom L850-GL modems ModemManager knows,
  gives each an opaque identifier, caches their messages, and offers a browser application a
  narrow interface: read the state, send and delete messages, choose bands and modes, and, for an
  expert, lock the modem to one LTE cell, which writes non-volatile memory and resets the modem.
  The source files below are those of \<open>src/l850gl-mm-bridge/src\<close>.

  \<^bold>\<open>Parts and theories.\<close>
  \<^item> \<open>Prelude\<close>, \<open>Ascii\<close>, \<open>Numbers\<close>: generic lemmas; C strings as lists of characters, the
    line and field splitters; the checked decimal and hexadecimal parsers of \<open>l850_cell.c\<close>,
    \<open>l850_ca.c\<close> and \<open>l850_voltage.c\<close> at the width of their accumulators.
  \<^item> \<open>Identity\<close> (\<open>identity.c\<close>), \<open>Hardware\<close> (\<open>hardware.c\<close>), \<open>Radio_Policy\<close>
    (\<open>radio_policy.c\<close>), \<open>Sms_Policy\<close> (\<open>sms_policy.c\<close>), \<open>Sms_Dedupe\<close>
    (\<open>sms_dedupe_policy.c\<close> and the queue in \<open>ubus_glib.c\<close>), \<open>Mutation_Policy\<close>
    (\<open>l850_mutation_policy.c\<close>): the pure policies.
  \<^item> \<open>Cell\<close>, \<open>Ca\<close>, \<open>Voltage\<close>: the parsers of the modem's answers and the commands.
  \<^item> \<open>Network_Binding\<close> (\<open>network_binding.c\<close>): the interface section of a modem in the router's
    configuration, and the write of its radio modes; libuci is a record of its operations.
    \<open>Ubus_Request\<close> (\<open>ubus_request.c\<close>): the strict reading of requests, against a declarative
    description of the messages in order.
  \<^item> \<open>Errors\<close>: the normalisation of ModemManager and D-Bus errors (\<open>ubus_glib.c\<close>).
  \<^item> \<open>Modem\<close>, \<open>Sms_Cache\<close>, \<open>Bridge\<close> (\<open>bridge.c\<close>, \<open>bridge.h\<close>): one modem, its cache of
    messages, the registry of modems and the connection to ModemManager. A modem is a record in the
    list \<open>modems\<close>, which only grows and plays the heap; the registry refers to its places.
  \<^item> \<open>Expert_Mutation\<close> (\<open>ubus_glib.c\<close>, \<open>l850_mutation_*\<close>): the coordinator of the cell lock, one
    definition per callback, timer and request. \<open>Expert_Protocol\<close> states what it promises of the
    order of its commands and replies and the invariant that carries the promise;
    \<open>Expert_Handlers\<close> shows that every handler keeps it; \<open>Expert_Service\<close> composes it with the
    bridge and draws the properties.
  \<^item> \<open>Sms_Operation\<close> (\<open>ubus_glib.c\<close>, \<open>sms_operation_*\<close>, \<open>method_send_sms\<close>,
    \<open>method_delete_sms\<close>), \<open>Sms_Protocol\<close>, \<open>Sms_Handlers\<close>: the same for sending and deleting
    messages.
  \<^item> \<open>Modem_Contract\<close>: what a component that locks modems may rely on while the bridge works, as a
    locale; it is interpreted for the coordinator in \<open>Expert_Protocol\<close> and for the message
    operations in \<open>Sms_Contract\<close>, which also shows that the coordinator keeps the contract of the
    message operations. \<open>Service\<close> composes the bridge, the coordinator and the message operations
    under scripts of everything that can happen and draws their properties.
  \<^item> \<open>Coordinator_Contract\<close>, \<open>Message_Contract\<close>: the contract extended by what the coordinator and
    the message operations do to modems; each locale shows once that every input of these parts
    keeps it.
  \<^item> \<open>Radio_Operation\<close> (\<open>ubus_glib.c\<close>, \<open>advanced_*\<close>, \<open>method_set_bands\<close>,
    \<open>method_set_modes\<close>), \<open>Radio_Protocol\<close>, \<open>Radio_Handlers\<close>: the same for choosing bands and modes.
    \<open>Radio_Contract\<close> interprets the contract for them; \<open>Radio_Service\<close> composes all parts under
    scripts, and \<open>Radio_Properties\<close> draws the properties of these operations and of the locks of
    all three kinds.

  \<^bold>\<open>How the code is rendered.\<close> Structs are records, enums datatypes, unsigned integers words of
  their width, clocks and times \<open>int\<close>, pointers that may be NULL options, out-parameters values
  passed in and returned. An asynchronous call is an entry of a trace and a pending call of the
  operation, and its callback a handler that may run at any later time with any answer. GLib,
  libmm-glib, libubox, libuci, the kernel's random source and SHA-256 are parameters: what they answer is
  an argument. The traces record what the code did and are not part of its state.

  \<^bold>\<open>Bounds.\<close> The step relations and scripts put no bound on the number of events. The only
  assumption on counters is \<open>fresh_serial\<close> of \<open>Bridge\<close>: the 64-bit connection serial did not
  wrap around to that of a request that is still waiting. Every loop is structural or has a
  termination proof; no fuel is used but the code's own attempt limits.

  \<^bold>\<open>Not modelled.\<close> The methods that only report state, the scans and
  queries that only read, the reconnection to ubus, the start of the program, the browser
  application and the packaging. What they do to modems enters the service only as the flags an
  input sets (\<open>Flags\<close>: connected, stopping, modems with an active scan or query).
\<close>

end
